(* ===== verification/Go_Json.thy ===== *)
theory Go_Json
  imports Go_Prelude
begin

text \<open>
  Documents of the package encoding/json after the text has been tokenised: a
  number keeps its literal (json.Number), an object keeps its members in document
  order with duplicates, as the decoder sees them.
\<close>

datatype json =
    JNull
  | JBool bool
  | JNumber string
  | JString string
  | JArray "json list"
  | JObject "(string \<times> json) list"

text \<open>json.Unmarshal into a Go string: a null leaves the zero value in place.\<close>

fun unmarshal_string :: "json \<Rightarrow> string option" where
  "unmarshal_string (JString s) = Some s"
| "unmarshal_string JNull = Some []"
| "unmarshal_string _ = None"

text \<open>Decoding an object into a Go map: the last of several equal members wins.\<close>

definition object_map :: "(string \<times> json) list \<Rightarrow> string \<Rightarrow> json option" where
  "object_map ms = map_of (rev ms)"

lemma object_map_last: "object_map (ms @ [(k, v)]) k = Some v"
  by (simp add: object_map_def)

end
