(* ===== verification/Schema_Types.thy ===== *)
theory Schema_Types
  imports Go_Json
begin

text \<open>
  Model of pkg/interfaceschema/types.go: the uint8-backed enums of the interface
  schema with their wire strings.  Each enum is a datatype with the constants of
  the source; its order is the order of the underlying uint8 codes, which is what
  the range guards of marshalEnum, ValueType.IsArray and ValueType.Elem compare.
  A uint8 outside the declared constants, for which the String methods print the
  bare number, is not a value of the datatypes.
  The locale wire_enum is the contract between a parser and a printer that the
  generic JSON helpers rely on.
\<close>

section \<open>Enums and their uint8 codes\<close>

datatype enum_error =
    UnknownEnum string string
  | ExpectedString
  | CannotMarshal string

datatype InterfaceType = Datastream | Properties

datatype Ownership = OwnershipDevice | OwnershipServer

datatype Aggregation = AggregationIndividual | AggregationObject

datatype Reliability = ReliabilityUnreliable | ReliabilityGuaranteed | ReliabilityUnique

datatype Retention = RetentionDiscard | RetentionVolatile | RetentionStored

datatype DatabaseRetentionPolicy = NoTTL | UseTTL

datatype ValueType =
    Double | Integer | Boolean | LongInteger | String | BinaryBlob | DateTime
  | DoubleArray | IntegerArray | BooleanArray | LongIntegerArray | StringArray | BinaryBlobArray | DateTimeArray

fun InterfaceType_code :: "InterfaceType \<Rightarrow> byte" where
  "InterfaceType_code Datastream = 1"
| "InterfaceType_code Properties = 2"

fun Ownership_code :: "Ownership \<Rightarrow> byte" where
  "Ownership_code OwnershipDevice = 1"
| "Ownership_code OwnershipServer = 2"

fun Aggregation_code :: "Aggregation \<Rightarrow> byte" where
  "Aggregation_code AggregationIndividual = 1"
| "Aggregation_code AggregationObject = 2"

fun Reliability_code :: "Reliability \<Rightarrow> byte" where
  "Reliability_code ReliabilityUnreliable = 0"
| "Reliability_code ReliabilityGuaranteed = 1"
| "Reliability_code ReliabilityUnique = 2"

fun Retention_code :: "Retention \<Rightarrow> byte" where
  "Retention_code RetentionDiscard = 0"
| "Retention_code RetentionVolatile = 1"
| "Retention_code RetentionStored = 2"

fun DatabaseRetentionPolicy_code :: "DatabaseRetentionPolicy \<Rightarrow> byte" where
  "DatabaseRetentionPolicy_code NoTTL = 0"
| "DatabaseRetentionPolicy_code UseTTL = 1"

fun ValueType_code :: "ValueType \<Rightarrow> byte" where
  "ValueType_code Double = 1"
| "ValueType_code Integer = 2"
| "ValueType_code Boolean = 3"
| "ValueType_code LongInteger = 4"
| "ValueType_code String = 5"
| "ValueType_code BinaryBlob = 6"
| "ValueType_code DateTime = 7"
| "ValueType_code DoubleArray = 8"
| "ValueType_code IntegerArray = 9"
| "ValueType_code BooleanArray = 10"
| "ValueType_code LongIntegerArray = 11"
| "ValueType_code StringArray = 12"
| "ValueType_code BinaryBlobArray = 13"
| "ValueType_code DateTimeArray = 14"

text \<open>The conversion ValueType(c) of a uint8, on the declared constants.\<close>

definition ValueType_values :: "ValueType list" where
  "ValueType_values =
    [Double, Integer, Boolean, LongInteger, String, BinaryBlob, DateTime,
     DoubleArray, IntegerArray, BooleanArray, LongIntegerArray, StringArray, BinaryBlobArray, DateTimeArray]"

definition ValueType_of :: "byte \<Rightarrow> ValueType option" where
  "ValueType_of c = find (\<lambda>v. ValueType_code v = c) ValueType_values"

lemma InterfaceType_code_inject: "InterfaceType_code a = InterfaceType_code b \<Longrightarrow> a = b"
  by (cases a; cases b) simp_all

lemma Ownership_code_inject: "Ownership_code a = Ownership_code b \<Longrightarrow> a = b"
  by (cases a; cases b) simp_all

lemma Aggregation_code_inject: "Aggregation_code a = Aggregation_code b \<Longrightarrow> a = b"
  by (cases a; cases b) simp_all

lemma Reliability_code_inject: "Reliability_code a = Reliability_code b \<Longrightarrow> a = b"
  by (cases a; cases b) simp_all

lemma Retention_code_inject: "Retention_code a = Retention_code b \<Longrightarrow> a = b"
  by (cases a; cases b) simp_all

lemma DatabaseRetentionPolicy_code_inject: "DatabaseRetentionPolicy_code a = DatabaseRetentionPolicy_code b \<Longrightarrow> a = b"
  by (cases a; cases b) simp_all

lemma ValueType_of_code: "ValueType_of (ValueType_code v) = Some v"
  by (cases v) (simp_all add: ValueType_of_def ValueType_values_def)

lemma ValueType_code_inject: "ValueType_code a = ValueType_code b \<Longrightarrow> a = b"
  by (metis ValueType_of_code option.inject)

instantiation InterfaceType :: linorder
begin
definition less_eq_InterfaceType :: "InterfaceType \<Rightarrow> InterfaceType \<Rightarrow> bool" where
  "less_eq_InterfaceType a b = (InterfaceType_code a \<le> InterfaceType_code b)"
definition less_InterfaceType :: "InterfaceType \<Rightarrow> InterfaceType \<Rightarrow> bool" where
  "less_InterfaceType a b = (InterfaceType_code a < InterfaceType_code b)"
instance
  by standard (auto simp: less_eq_InterfaceType_def less_InterfaceType_def intro: InterfaceType_code_inject)
end

instantiation Ownership :: linorder
begin
definition less_eq_Ownership :: "Ownership \<Rightarrow> Ownership \<Rightarrow> bool" where
  "less_eq_Ownership a b = (Ownership_code a \<le> Ownership_code b)"
definition less_Ownership :: "Ownership \<Rightarrow> Ownership \<Rightarrow> bool" where
  "less_Ownership a b = (Ownership_code a < Ownership_code b)"
instance
  by standard (auto simp: less_eq_Ownership_def less_Ownership_def intro: Ownership_code_inject)
end

instantiation Aggregation :: linorder
begin
definition less_eq_Aggregation :: "Aggregation \<Rightarrow> Aggregation \<Rightarrow> bool" where
  "less_eq_Aggregation a b = (Aggregation_code a \<le> Aggregation_code b)"
definition less_Aggregation :: "Aggregation \<Rightarrow> Aggregation \<Rightarrow> bool" where
  "less_Aggregation a b = (Aggregation_code a < Aggregation_code b)"
instance
  by standard (auto simp: less_eq_Aggregation_def less_Aggregation_def intro: Aggregation_code_inject)
end

instantiation Reliability :: linorder
begin
definition less_eq_Reliability :: "Reliability \<Rightarrow> Reliability \<Rightarrow> bool" where
  "less_eq_Reliability a b = (Reliability_code a \<le> Reliability_code b)"
definition less_Reliability :: "Reliability \<Rightarrow> Reliability \<Rightarrow> bool" where
  "less_Reliability a b = (Reliability_code a < Reliability_code b)"
instance
  by standard (auto simp: less_eq_Reliability_def less_Reliability_def intro: Reliability_code_inject)
end

instantiation Retention :: linorder
begin
definition less_eq_Retention :: "Retention \<Rightarrow> Retention \<Rightarrow> bool" where
  "less_eq_Retention a b = (Retention_code a \<le> Retention_code b)"
definition less_Retention :: "Retention \<Rightarrow> Retention \<Rightarrow> bool" where
  "less_Retention a b = (Retention_code a < Retention_code b)"
instance
  by standard (auto simp: less_eq_Retention_def less_Retention_def intro: Retention_code_inject)
end

instantiation DatabaseRetentionPolicy :: linorder
begin
definition less_eq_DatabaseRetentionPolicy :: "DatabaseRetentionPolicy \<Rightarrow> DatabaseRetentionPolicy \<Rightarrow> bool" where
  "less_eq_DatabaseRetentionPolicy a b = (DatabaseRetentionPolicy_code a \<le> DatabaseRetentionPolicy_code b)"
definition less_DatabaseRetentionPolicy :: "DatabaseRetentionPolicy \<Rightarrow> DatabaseRetentionPolicy \<Rightarrow> bool" where
  "less_DatabaseRetentionPolicy a b = (DatabaseRetentionPolicy_code a < DatabaseRetentionPolicy_code b)"
instance
  by standard (auto simp: less_eq_DatabaseRetentionPolicy_def less_DatabaseRetentionPolicy_def intro: DatabaseRetentionPolicy_code_inject)
end

instantiation ValueType :: linorder
begin
definition less_eq_ValueType :: "ValueType \<Rightarrow> ValueType \<Rightarrow> bool" where
  "less_eq_ValueType a b = (ValueType_code a \<le> ValueType_code b)"
definition less_ValueType :: "ValueType \<Rightarrow> ValueType \<Rightarrow> bool" where
  "less_ValueType a b = (ValueType_code a < ValueType_code b)"
instance
  by standard (auto simp: less_eq_ValueType_def less_ValueType_def intro: ValueType_code_inject)
end

section \<open>Parsing and printing the wire strings\<close>

definition ParseInterfaceType :: "string \<Rightarrow> enum_error + InterfaceType" where
  "ParseInterfaceType s =
    (if s = ''datastream'' then Inr Datastream
     else if s = ''properties'' then Inr Properties
     else Inl (UnknownEnum ''interface type'' s))"

fun InterfaceType_String :: "InterfaceType \<Rightarrow> string" where
  "InterfaceType_String Datastream = ''datastream''"
| "InterfaceType_String Properties = ''properties''"

definition ParseOwnership :: "string \<Rightarrow> enum_error + Ownership" where
  "ParseOwnership s =
    (if s = ''device'' then Inr OwnershipDevice
     else if s = ''server'' then Inr OwnershipServer
     else Inl (UnknownEnum ''ownership'' s))"

fun Ownership_String :: "Ownership \<Rightarrow> string" where
  "Ownership_String OwnershipDevice = ''device''"
| "Ownership_String OwnershipServer = ''server''"

definition ParseAggregation :: "string \<Rightarrow> enum_error + Aggregation" where
  "ParseAggregation s =
    (if s = ''individual'' then Inr AggregationIndividual
     else if s = ''object'' then Inr AggregationObject
     else Inl (UnknownEnum ''aggregation'' s))"

fun Aggregation_String :: "Aggregation \<Rightarrow> string" where
  "Aggregation_String AggregationIndividual = ''individual''"
| "Aggregation_String AggregationObject = ''object''"

definition ParseReliability :: "string \<Rightarrow> enum_error + Reliability" where
  "ParseReliability s =
    (if s = ''unreliable'' then Inr ReliabilityUnreliable
     else if s = ''guaranteed'' then Inr ReliabilityGuaranteed
     else if s = ''unique'' then Inr ReliabilityUnique
     else Inl (UnknownEnum ''reliability'' s))"

fun Reliability_String :: "Reliability \<Rightarrow> string" where
  "Reliability_String ReliabilityUnreliable = ''unreliable''"
| "Reliability_String ReliabilityGuaranteed = ''guaranteed''"
| "Reliability_String ReliabilityUnique = ''unique''"

definition ParseRetention :: "string \<Rightarrow> enum_error + Retention" where
  "ParseRetention s =
    (if s = ''discard'' then Inr RetentionDiscard
     else if s = ''volatile'' then Inr RetentionVolatile
     else if s = ''stored'' then Inr RetentionStored
     else Inl (UnknownEnum ''retention'' s))"

fun Retention_String :: "Retention \<Rightarrow> string" where
  "Retention_String RetentionDiscard = ''discard''"
| "Retention_String RetentionVolatile = ''volatile''"
| "Retention_String RetentionStored = ''stored''"

definition ParseDatabaseRetentionPolicy :: "string \<Rightarrow> enum_error + DatabaseRetentionPolicy" where
  "ParseDatabaseRetentionPolicy s =
    (if s = ''no_ttl'' then Inr NoTTL
     else if s = ''use_ttl'' then Inr UseTTL
     else Inl (UnknownEnum ''database_retention_policy'' s))"

fun DatabaseRetentionPolicy_String :: "DatabaseRetentionPolicy \<Rightarrow> string" where
  "DatabaseRetentionPolicy_String NoTTL = ''no_ttl''"
| "DatabaseRetentionPolicy_String UseTTL = ''use_ttl''"

text \<open>Reliability.QoS: the MQTT quality of service of a reliability.\<close>

definition QoS :: "Reliability \<Rightarrow> byte" where
  "QoS r = Reliability_code r"

definition valueTypeNames :: "string list" where
  "valueTypeNames =
    [''double'', ''integer'', ''boolean'', ''longinteger'', ''string'', ''binaryblob'', ''datetime'',
     ''doublearray'', ''integerarray'', ''booleanarray'', ''longintegerarray'', ''stringarray'',
     ''binaryblobarray'', ''datetimearray'']"

text \<open>The loop of ParseValueType: the index of the first name equal to the input.\<close>

fun name_index :: "string \<Rightarrow> string list \<Rightarrow> nat \<Rightarrow> nat option" where
  "name_index s [] i = None"
| "name_index s (n # ns) i = (if s = n then Some i else name_index s ns (Suc i))"

definition ParseValueType :: "string \<Rightarrow> enum_error + ValueType" where
  "ParseValueType s =
    (case name_index s valueTypeNames 0 of
       Some i \<Rightarrow> (case ValueType_of (of_nat (i + 1)) of
                    Some v \<Rightarrow> Inr v
                  | None \<Rightarrow> Inl (UnknownEnum ''value type'' s))
     | None \<Rightarrow> Inl (UnknownEnum ''value type'' s))"

definition ValueType_String :: "ValueType \<Rightarrow> string" where
  "ValueType_String v = valueTypeNames ! unat (ValueType_code v - 1)"

definition IsArray :: "ValueType \<Rightarrow> bool" where
  "IsArray v = (v \<ge> DoubleArray \<and> v \<le> DateTimeArray)"

definition Elem :: "ValueType \<Rightarrow> ValueType" where
  "Elem v =
    (if IsArray v
     then the (ValueType_of (ValueType_code v - ValueType_code DoubleArray + ValueType_code Double))
     else v)"

section \<open>The generic JSON helpers\<close>

definition unmarshalEnum :: "(string \<Rightarrow> enum_error + 'a) \<Rightarrow> json \<Rightarrow> enum_error + 'a" where
  "unmarshalEnum parse b =
    (case unmarshal_string b of
       None \<Rightarrow> Inl ExpectedString
     | Some s \<Rightarrow> parse s)"

definition marshalEnum :: "('a::linorder \<Rightarrow> string) \<Rightarrow> 'a \<Rightarrow> 'a \<Rightarrow> 'a \<Rightarrow> enum_error + json" where
  "marshalEnum str v lo hi =
    (if v < lo \<or> v > hi then Inl (CannotMarshal (str v)) else Inr (JString (str v)))"

section \<open>The contract of a wire enum\<close>

locale wire_enum =
  fixes parse :: "string \<Rightarrow> enum_error + 'a::linorder"
    and str :: "'a \<Rightarrow> string"
    and lo hi :: 'a
  assumes parse_str: "parse (str v) = Inr v"
    and str_parse: "parse s = Inr v \<Longrightarrow> str v = s"
    and lo_least: "lo \<le> v"
    and hi_greatest: "v \<le> hi"
    and empty_refused: "\<not> is_ok (parse [])"
begin

lemma str_inj: "str a = str b \<Longrightarrow> a = b"
  by (metis parse_str sum.inject(2))

lemma marshal_total: "marshalEnum str v lo hi = Inr (JString (str v))"
  using lo_least [of v] hi_greatest [of v] by (auto simp: marshalEnum_def)

lemma unmarshal_marshal:
  "marshalEnum str v lo hi = Inr j \<Longrightarrow> unmarshalEnum parse j = Inr v"
  by (auto simp: marshal_total unmarshalEnum_def parse_str)

lemma unmarshal_accepts:
  "unmarshalEnum parse j = Inr v \<longleftrightarrow> j = JString (str v)"
  using empty_refused
  by (cases j) (auto simp: unmarshalEnum_def parse_str str_parse is_ok_def split: sum.splits)

lemma wire_roundtrip:
  "marshalEnum str v lo hi = Inr j \<longleftrightarrow> unmarshalEnum parse j = Inr v"
  by (auto simp: marshal_total unmarshal_accepts)

end

lemma InterfaceType_le_iff: "Datastream \<le> v \<and> v \<le> Properties"
  by (cases v) (simp_all add: less_eq_InterfaceType_def)

interpretation it: wire_enum ParseInterfaceType InterfaceType_String Datastream Properties
proof
  show "ParseInterfaceType (InterfaceType_String v) = Inr v" for v
    by (cases v) (simp_all add: ParseInterfaceType_def)
  show "ParseInterfaceType s = Inr v \<Longrightarrow> InterfaceType_String v = s" for s v
    by (auto simp: ParseInterfaceType_def split: if_splits)
qed (simp_all add: InterfaceType_le_iff ParseInterfaceType_def)

lemma Ownership_le_iff: "OwnershipDevice \<le> v \<and> v \<le> OwnershipServer"
  by (cases v) (simp_all add: less_eq_Ownership_def)

interpretation ow: wire_enum ParseOwnership Ownership_String OwnershipDevice OwnershipServer
proof
  show "ParseOwnership (Ownership_String v) = Inr v" for v
    by (cases v) (simp_all add: ParseOwnership_def)
  show "ParseOwnership s = Inr v \<Longrightarrow> Ownership_String v = s" for s v
    by (auto simp: ParseOwnership_def split: if_splits)
qed (simp_all add: Ownership_le_iff ParseOwnership_def)

lemma Aggregation_le_iff: "AggregationIndividual \<le> v \<and> v \<le> AggregationObject"
  by (cases v) (simp_all add: less_eq_Aggregation_def)

interpretation ag: wire_enum ParseAggregation Aggregation_String AggregationIndividual AggregationObject
proof
  show "ParseAggregation (Aggregation_String v) = Inr v" for v
    by (cases v) (simp_all add: ParseAggregation_def)
  show "ParseAggregation s = Inr v \<Longrightarrow> Aggregation_String v = s" for s v
    by (auto simp: ParseAggregation_def split: if_splits)
qed (simp_all add: Aggregation_le_iff ParseAggregation_def)

lemma Reliability_le_iff: "ReliabilityUnreliable \<le> v \<and> v \<le> ReliabilityUnique"
  by (cases v) (simp_all add: less_eq_Reliability_def)

interpretation re: wire_enum ParseReliability Reliability_String ReliabilityUnreliable ReliabilityUnique
proof
  show "ParseReliability (Reliability_String v) = Inr v" for v
    by (cases v) (simp_all add: ParseReliability_def)
  show "ParseReliability s = Inr v \<Longrightarrow> Reliability_String v = s" for s v
    by (auto simp: ParseReliability_def split: if_splits)
qed (simp_all add: Reliability_le_iff ParseReliability_def)

lemma Retention_le_iff: "RetentionDiscard \<le> v \<and> v \<le> RetentionStored"
  by (cases v) (simp_all add: less_eq_Retention_def)

interpretation rt: wire_enum ParseRetention Retention_String RetentionDiscard RetentionStored
proof
  show "ParseRetention (Retention_String v) = Inr v" for v
    by (cases v) (simp_all add: ParseRetention_def)
  show "ParseRetention s = Inr v \<Longrightarrow> Retention_String v = s" for s v
    by (auto simp: ParseRetention_def split: if_splits)
qed (simp_all add: Retention_le_iff ParseRetention_def)

lemma DatabaseRetentionPolicy_le_iff: "NoTTL \<le> v \<and> v \<le> UseTTL"
  by (cases v) (simp_all add: less_eq_DatabaseRetentionPolicy_def)

interpretation dp: wire_enum ParseDatabaseRetentionPolicy DatabaseRetentionPolicy_String NoTTL UseTTL
proof
  show "ParseDatabaseRetentionPolicy (DatabaseRetentionPolicy_String v) = Inr v" for v
    by (cases v) (simp_all add: ParseDatabaseRetentionPolicy_def)
  show "ParseDatabaseRetentionPolicy s = Inr v \<Longrightarrow> DatabaseRetentionPolicy_String v = s" for s v
    by (auto simp: ParseDatabaseRetentionPolicy_def split: if_splits)
qed (simp_all add: DatabaseRetentionPolicy_le_iff ParseDatabaseRetentionPolicy_def)

lemma ValueType_le_iff: "Double \<le> v \<and> v \<le> DateTimeArray"
  by (cases v) (simp_all add: less_eq_ValueType_def)

lemma ValueType_values_all: "v \<in> set ValueType_values"
  by (cases v) (simp_all add: ValueType_values_def)

lemma name_index_Some:
  "name_index s ns k = Some i \<Longrightarrow> k \<le> i \<and> i < k + length ns \<and> ns ! (i - k) = s"
proof (induction s ns k rule: name_index.induct)
  case (2 s n ns k)
  show ?case
  proof (cases "s = n")
    case False
    with 2 have "Suc k \<le> i \<and> i < Suc k + length ns \<and> ns ! (i - Suc k) = s" by simp
    moreover from this have "i - k = Suc (i - Suc k)" by (simp add: Suc_diff_Suc Suc_le_lessD)
    ultimately show ?thesis by simp
  qed (use 2 in auto)
qed simp

lemma ValueType_of_Some: "ValueType_of c = Some v \<Longrightarrow> ValueType_code v = c"
  by (auto simp: ValueType_of_def find_Some_iff)

lemma ValueType_String_parse: "ParseValueType (ValueType_String v) = Inr v"
  by (cases v)
    (simp_all add: ParseValueType_def ValueType_String_def valueTypeNames_def ValueType_of_def
      ValueType_values_def)

lemma ParseValueType_String:
  assumes "ParseValueType s = Inr v"
  shows "ValueType_String v = s"
proof -
  from assms obtain i where i: "name_index s valueTypeNames 0 = Some i"
    and v: "ValueType_of (of_nat (i + 1)) = Some v"
    by (auto simp: ParseValueType_def split: option.splits)
  have "length valueTypeNames = 14" by (simp add: valueTypeNames_def)
  with name_index_Some [OF i] have n: "i < 14" "valueTypeNames ! i = s" by auto
  have "unat (ValueType_code v - 1) = i"
    using ValueType_of_Some [OF v] n(1) by (simp add: unat_of_nat)
  then show ?thesis using n by (simp add: ValueType_String_def)
qed

lemma ParseValueType_empty: "ParseValueType [] = Inl (UnknownEnum ''value type'' [])"
  by (simp add: ParseValueType_def valueTypeNames_def)

interpretation vt: wire_enum ParseValueType ValueType_String Double DateTimeArray
proof
  show "ParseValueType (ValueType_String v) = Inr v" for v by (rule ValueType_String_parse)
  show "ValueType_String v = s" if "ParseValueType s = Inr v" for s v
    using that by (rule ParseValueType_String)
qed (simp_all add: ValueType_le_iff ParseValueType_empty)

section \<open>Properties\<close>

text \<open>For every enum of the schema the JSON encoding of a value is the only JSON token that
  decodes to it: encoding never refuses a declared constant, and decoding accepts nothing else.\<close>

theorem enum_wire_roundtrip:
  "(marshalEnum InterfaceType_String it Datastream Properties = Inr j1
     \<longleftrightarrow> unmarshalEnum ParseInterfaceType j1 = Inr it) \<and>
   (marshalEnum Ownership_String ow OwnershipDevice OwnershipServer = Inr j2
     \<longleftrightarrow> unmarshalEnum ParseOwnership j2 = Inr ow) \<and>
   (marshalEnum Aggregation_String ag AggregationIndividual AggregationObject = Inr j3
     \<longleftrightarrow> unmarshalEnum ParseAggregation j3 = Inr ag) \<and>
   (marshalEnum Reliability_String re ReliabilityUnreliable ReliabilityUnique = Inr j4
     \<longleftrightarrow> unmarshalEnum ParseReliability j4 = Inr re) \<and>
   (marshalEnum Retention_String rt RetentionDiscard RetentionStored = Inr j5
     \<longleftrightarrow> unmarshalEnum ParseRetention j5 = Inr rt) \<and>
   (marshalEnum DatabaseRetentionPolicy_String dp NoTTL UseTTL = Inr j6
     \<longleftrightarrow> unmarshalEnum ParseDatabaseRetentionPolicy j6 = Inr dp) \<and>
   (marshalEnum ValueType_String vt Double DateTimeArray = Inr j7
     \<longleftrightarrow> unmarshalEnum ParseValueType j7 = Inr vt)"
  by (intro conjI it.wire_roundtrip ow.wire_roundtrip ag.wire_roundtrip re.wire_roundtrip
      rt.wire_roundtrip dp.wire_roundtrip vt.wire_roundtrip)

text \<open>The element type of an array type is the scalar whose wire name it extends by
  the suffix array; a scalar is its own element type.\<close>

theorem value_type_elem_names:
  "ValueType_String v = ValueType_String (Elem v) @ (if IsArray v then ''array'' else [])"
proof -
  have "list_all (\<lambda>v. ValueType_String v =
      ValueType_String (Elem v) @ (if IsArray v then ''array'' else [])) ValueType_values"
    by code_simp
  then show ?thesis using ValueType_values_all [of v] by (simp add: list_all_iff)
qed

end
