(* ===== verification/Schema_Endpoint.thy ===== *)
theory Schema_Endpoint
  imports Schema_Types
begin

text \<open>
  The endpoint grammar of pkg/interfaceschema/parse.go with the limits, the error
  values and the violation accumulator of violations.go.  The group of lemmas at
  the end shows that splitEndpoint is exactly the inverse of printing a list of
  well-formed segments, and that normalizeEndpoint identifies two endpoints
  precisely when they differ in placeholder names only.
\<close>

section \<open>Limits and data\<close>

definition MaxNameLength :: nat where "MaxNameLength = 128"
definition MaxMappings :: nat where "MaxMappings = 1024"
definition MaxEndpointDepth :: nat where "MaxEndpointDepth = 64"
definition MaxDescriptionLength :: nat where "MaxDescriptionLength = 1000"
definition MaxDocLength :: nat where "MaxDocLength = 100000"
definition MinDatabaseRetentionTTL :: int where "MinDatabaseRetentionTTL = 60"
definition MaxDatabaseRetentionTTL :: int where "MaxDatabaseRetentionTTL = 630720000"

record endpointSegment =
  es_literal :: string
  es_param :: bool

record Violation =
  v_Field :: string
  v_Messages :: "string list"
  v_MappingIndex :: int

datatype schema_error =
    MissingField string
  | NameTooLong
  | InvalidName string
  | MajorNegative
  | MinorNegative
  | VersionsBothZero
  | PropertiesWithObject
  | NoMappings
  | TooManyMappings nat
  | MappingMissingEndpoint
  | MappingMissingType string
  | EndpointNotRooted string
  | EndpointEmptySegment string
  | EndpointTooDeep string
  | MalformedPlaceholder string string
  | InvalidPlaceholderName string string
  | PlaceholderNotWhole string
  | InvalidSegment string string
  | NotAllowedOnProperties string string
  | AllowUnsetOnDatastream string
  | ExpiryNegative string
  | UseTTLRequiresTTL string
  | TTLRequiresUseTTL string
  | DuplicateEndpoint string string
  | ConflictingEndpoints string string
  | ObjectDepthDiffers string nat string nat
  | ObjectPrefixDiffers string string
  | ObjectLeafParametric string
  | ObjectAttributeDiffers string string string
  | Violations "Violation list" nat

section \<open>Violations\<close>

definition add_violation :: "Violation list \<Rightarrow> string \<Rightarrow> string list \<Rightarrow> Violation list" where
  "add_violation vc field msgs = vc @ [\<lparr>v_Field = field, v_Messages = msgs, v_MappingIndex = -1\<rparr>]"

definition addMapping :: "Violation list \<Rightarrow> nat \<Rightarrow> string \<Rightarrow> string list \<Rightarrow> Violation list" where
  "addMapping vc index field msgs =
     vc @ [\<lparr>v_Field = field, v_Messages = msgs, v_MappingIndex = int index\<rparr>]"

definition errOrNil :: "Violation list \<Rightarrow> nat \<Rightarrow> schema_error + unit" where
  "errOrNil vc mappingCount = (if vc = [] then Inr () else Inl (Violations vc mappingCount))"

text \<open>ViolationsError.Error.\<close>

definition renderViolation :: "Violation \<Rightarrow> string" where
  "renderViolation v =
    (if v_MappingIndex v \<ge> 0 then ''mappings['' @ Itoa (v_MappingIndex v) @ ''].'' else []) @
    v_Field v @ '': '' @ Join (v_Messages v) '', ''"

definition ViolationsError_Error :: "Violation list \<Rightarrow> string" where
  "ViolationsError_Error vs = ''invalid interface: '' @ Join (map renderViolation vs) ''; ''"

definition tooLongMessage :: "nat \<Rightarrow> string" where
  "tooLongMessage bound = ''should be at most '' @ Itoa (int bound) @ '' character(s)''"

section \<open>The endpoint grammar\<close>

text \<open>The loop of validIdentifier at byte index i.\<close>

fun identLoop :: "nat \<Rightarrow> string \<Rightarrow> bool" where
  "identLoop i [] = True"
| "identLoop i (c # cs) =
     (if (CHR ''a'' \<le> c \<and> c \<le> CHR ''z'') \<or> (CHR ''A'' \<le> c \<and> c \<le> CHR ''Z'') \<or> c = CHR ''_''
      then identLoop (Suc i) cs
      else if CHR ''0'' \<le> c \<and> c \<le> CHR ''9'' then (if i = 0 then False else identLoop (Suc i) cs)
      else False)"

definition validIdentifier :: "string \<Rightarrow> bool" where
  "validIdentifier s = (if s = [] then False else identLoop 0 s)"

definition endsWithSlash :: "string \<Rightarrow> bool" where
  "endsWithSlash endpoint = (length endpoint > 0 \<and> endpoint ! (length endpoint - 1) = CHR ''/'')"

definition parseSegment :: "string \<Rightarrow> string \<Rightarrow> schema_error + endpointSegment" where
  "parseSegment endpoint raw =
    (if raw = [] then Inl (EndpointEmptySegment endpoint)
     else if raw ! 0 = CHR ''%'' then
       (if length raw < 4 \<or> raw ! 1 \<noteq> CHR ''{'' \<or> raw ! (length raw - 1) \<noteq> CHR ''}''
        then Inl (MalformedPlaceholder endpoint raw)
        else let name = drop 2 (take (length raw - 1) raw)
             in if \<not> validIdentifier name then Inl (InvalidPlaceholderName endpoint name)
                else Inr \<lparr>es_literal = name, es_param = True\<rparr>)
     else if \<not> validIdentifier raw then
       (if ContainsAny raw ''%{}'' then Inl (PlaceholderNotWhole endpoint)
        else Inl (InvalidSegment endpoint raw))
     else Inr \<lparr>es_literal = raw, es_param = False\<rparr>)"

text \<open>The cut of rest at the first slash, shared by the loops over path levels.\<close>

definition cutSegment :: "string \<Rightarrow> string \<times> string" where
  "cutSegment rest = (case IndexByte rest CHR ''/'' of
      Some i \<Rightarrow> (take i rest, drop (Suc i) rest)
    | None \<Rightarrow> (rest, []))"

lemma cutSegment_shorter: "snd (cutSegment rest) \<noteq> [] \<Longrightarrow> length (snd (cutSegment rest)) < length rest"
  by (auto simp: cutSegment_def split: option.splits)

function splitLoop :: "string \<Rightarrow> string \<Rightarrow> schema_error + endpointSegment list" where
  "splitLoop endpoint rest =
    bindR (parseSegment endpoint (fst (cutSegment rest))) (\<lambda>seg.
      if snd (cutSegment rest) = [] \<and> \<not> endsWithSlash endpoint then Inr [seg]
      else if snd (cutSegment rest) = [] then Inl (EndpointEmptySegment endpoint)
      else bindR (splitLoop endpoint (snd (cutSegment rest))) (\<lambda>segs. Inr (seg # segs)))"
  by auto
termination
  by (relation "measure (\<lambda>(e, r). length r)") (auto simp: cutSegment_shorter)

declare splitLoop.simps [simp del]

definition splitEndpoint :: "string \<Rightarrow> schema_error + endpointSegment list" where
  "splitEndpoint endpoint =
    (if endpoint = [] \<or> endpoint ! 0 \<noteq> CHR ''/'' then Inl (EndpointNotRooted endpoint)
     else bindR (splitLoop endpoint (drop 1 endpoint)) (\<lambda>segs.
       if length segs > MaxEndpointDepth then Inl (EndpointTooDeep endpoint) else Inr segs))"

fun normalizeEndpoint :: "endpointSegment list \<Rightarrow> string" where
  "normalizeEndpoint [] = []"
| "normalizeEndpoint (s # ss) =
     CHR ''/'' # (if es_param s then ''%{}'' else es_literal s) @ normalizeEndpoint ss"

section \<open>What the grammar accepts\<close>

definition identChar :: "char \<Rightarrow> bool" where
  "identChar c = ((CHR ''a'' \<le> c \<and> c \<le> CHR ''z'') \<or> (CHR ''A'' \<le> c \<and> c \<le> CHR ''Z'')
     \<or> c = CHR ''_'' \<or> (CHR ''0'' \<le> c \<and> c \<le> CHR ''9''))"

definition renderSegment :: "endpointSegment \<Rightarrow> string" where
  "renderSegment s = (if es_param s then ''%{'' @ es_literal s @ ''}'' else es_literal s)"

definition renderEndpoint :: "endpointSegment list \<Rightarrow> string" where
  "renderEndpoint segs = concat (map (\<lambda>s. CHR ''/'' # renderSegment s) segs)"

definition segment_ok :: "endpointSegment \<Rightarrow> bool" where
  "segment_ok s = validIdentifier (es_literal s)"

lemma identLoop_chars: "identLoop i s \<Longrightarrow> list_all identChar s"
  by (induction i s rule: identLoop.induct) (auto simp: identChar_def split: if_splits)

lemma validIdentifier_chars: "validIdentifier s \<Longrightarrow> c \<in> set s \<Longrightarrow> identChar c"
  by (auto simp: validIdentifier_def list_all_iff dest: identLoop_chars split: if_splits)

lemma validIdentifier_ne: "validIdentifier s \<Longrightarrow> s \<noteq> []"
  by (auto simp: validIdentifier_def)

lemma identChar_excludes:
  "\<not> identChar (CHR ''/'')" "\<not> identChar (CHR ''%'')" "\<not> identChar (CHR ''{'')"
  "\<not> identChar (CHR ''}'')" "\<not> identChar (CHR ''+'')" "\<not> identChar (CHR ''#'')"
  by (simp_all add: identChar_def less_eq_char_def)

lemma validIdentifier_notin:
  "validIdentifier s \<Longrightarrow> \<not> identChar c \<Longrightarrow> c \<notin> set s"
  using validIdentifier_chars by blast

lemma validIdentifier_hd: "validIdentifier s \<Longrightarrow> s ! 0 \<noteq> CHR ''%''"
  by (metis identChar_excludes(2) length_greater_0_conv nth_mem validIdentifier_chars validIdentifier_ne)

lemma renderSegment_noslash: "segment_ok s \<Longrightarrow> CHR ''/'' \<notin> set (renderSegment s)"
  by (auto simp: renderSegment_def segment_ok_def
      dest: validIdentifier_notin [OF _ identChar_excludes(1)])

lemma renderSegment_ne: "segment_ok s \<Longrightarrow> renderSegment s \<noteq> []"
  by (auto simp: renderSegment_def segment_ok_def validIdentifier_def split: if_splits)

lemma placeholder_shape:
  assumes "4 \<le> length raw" "raw ! 0 = CHR ''%''" "raw ! 1 = CHR ''{''" "raw ! (length raw - 1) = CHR ''}''"
  shows "raw = ''%{'' @ drop 2 (take (length raw - 1) raw) @ ''}''"
proof -
  obtain a b r where r: "raw = a # b # r" using assms(1) by (cases raw; cases "tl raw") auto
  with assms have ab: "a = CHR ''%''" "b = CHR ''{''" and rn: "r \<noteq> []" by auto
  then obtain q z where q: "r = q @ [z]" by (cases r rule: rev_cases) auto
  with assms r have "z = CHR ''}''" by (simp add: nth_append nth_Cons')
  then show ?thesis using r ab q by simp
qed

lemma parseSegment_iff:
  "parseSegment ep raw = Inr seg \<longleftrightarrow> raw = renderSegment seg \<and> segment_ok seg"
proof
  assume h: "parseSegment ep raw = Inr seg"
  show "raw = renderSegment seg \<and> segment_ok seg"
  proof (cases "raw ! 0 = CHR ''%''")
    case True
    with h have "4 \<le> length raw" "raw ! 1 = CHR ''{''" "raw ! (length raw - 1) = CHR ''}''"
      and s: "seg = \<lparr>es_literal = drop 2 (take (length raw - 1) raw), es_param = True\<rparr>"
             "validIdentifier (drop 2 (take (length raw - 1) raw))"
      by (auto simp: parseSegment_def Let_def split: if_splits)
    with True have "raw = ''%{'' @ drop 2 (take (length raw - 1) raw) @ ''}''"
      by (intro placeholder_shape)
    with s show ?thesis by (simp add: renderSegment_def segment_ok_def)
  qed (use h in \<open>auto simp: parseSegment_def renderSegment_def segment_ok_def split: if_splits\<close>)
next
  assume h: "raw = renderSegment seg \<and> segment_ok seg"
  show "parseSegment ep raw = Inr seg"
  proof (cases "es_param seg")
    case True
    with h have raw: "raw = ''%{'' @ es_literal seg @ ''}''" and v: "validIdentifier (es_literal seg)"
      and seg: "seg = \<lparr>es_literal = es_literal seg, es_param = True\<rparr>"
      by (auto simp: renderSegment_def segment_ok_def)
    obtain a l where "es_literal seg = a # l" using v by (cases "es_literal seg") (auto simp: validIdentifier_def)
    then have "parseSegment ep raw = Inr \<lparr>es_literal = es_literal seg, es_param = True\<rparr>"
      using v unfolding raw by (simp add: parseSegment_def nth_append)
    with seg show ?thesis by simp
  next
    case False
    with h show ?thesis using validIdentifier_hd validIdentifier_ne
      by (auto simp: parseSegment_def segment_ok_def renderSegment_def)
  qed
qed

lemma cutSegment_slash: "CHR ''/'' \<notin> set a \<Longrightarrow> cutSegment (a @ CHR ''/'' # b) = (a, b)"
  by (simp add: cutSegment_def IndexByte_app)

lemma cutSegment_noslash: "CHR ''/'' \<notin> set a \<Longrightarrow> cutSegment a = (a, [])"
  by (simp add: cutSegment_def)

lemma cutSegment_cases:
  obtains (noslash) "CHR ''/'' \<notin> set rest" "cutSegment rest = (rest, [])"
  | (slash) a b where "rest = a @ CHR ''/'' # b" "CHR ''/'' \<notin> set a" "cutSegment rest = (a, b)"
proof (cases "IndexByte rest CHR ''/''")
  case None
  then show ?thesis using noslash cutSegment_noslash by (auto simp: IndexByte_None)
next
  case (Some i)
  then show ?thesis by (elim IndexByte_split) (metis slash cutSegment_slash)
qed

lemma endsWithSlash_snoc [simp]: "endsWithSlash (s @ [c]) \<longleftrightarrow> c = CHR ''/''"
  by (simp add: endsWithSlash_def)

lemma endsWithSlash_app [simp]: "t \<noteq> [] \<Longrightarrow> endsWithSlash (s @ t) = endsWithSlash t"
  by (cases t rule: rev_cases) (simp_all flip: append_assoc)

lemma endsWithSlash_Cons [simp]: "t \<noteq> [] \<Longrightarrow> endsWithSlash (c # t) = endsWithSlash t"
  using endsWithSlash_app [of t "[c]"] by simp

lemma endsWithSlash_set: "endsWithSlash s \<Longrightarrow> CHR ''/'' \<in> set s"
  by (cases s rule: rev_cases) (auto simp: endsWithSlash_def)

lemma renderEndpoint_Cons [simp]:
  "renderEndpoint (s # ss) = CHR ''/'' # renderSegment s @ renderEndpoint ss"
  "renderEndpoint [] = []"
  by (simp_all add: renderEndpoint_def)

lemma renderEndpoint_no_trailing:
  "segs \<noteq> [] \<Longrightarrow> list_all segment_ok segs \<Longrightarrow> \<not> endsWithSlash (renderEndpoint segs)"
proof (induction segs)
  case (Cons s ss)
  then show ?case
  proof (cases ss)
    case Nil
    with Cons show ?thesis
      using renderSegment_noslash [of s] renderSegment_ne [of s] endsWithSlash_set by auto
  qed (auto simp: renderSegment_ne)
qed simp

lemma splitLoop_sound:
  "splitLoop ep rest = Inr segs \<Longrightarrow> (rest \<noteq> [] \<longrightarrow> endsWithSlash ep = endsWithSlash rest) \<Longrightarrow>
   segs \<noteq> [] \<and> list_all segment_ok segs \<and> CHR ''/'' # rest = renderEndpoint segs"
proof (induction ep rest arbitrary: segs rule: splitLoop.induct)
  case (1 ep rest)
  note split = splitLoop.simps [of ep rest]
  from 1(2) have ne: "rest \<noteq> []"
    by (auto simp: split cutSegment_noslash parseSegment_def)
  show ?case
  proof (cases rest rule: cutSegment_cases)
    case noslash
    then show ?thesis using 1(2,3) ne
      by (auto simp: split parseSegment_iff split: if_splits dest: endsWithSlash_set)
  next
    case (slash a b)
    show ?thesis
    proof (cases "b = []")
      case True
      then have "endsWithSlash ep" using 1(3) ne slash by simp
      then show ?thesis using 1(2) slash(3) True by (simp add: split)
    next
      case False
      from 1(2) slash(3) False obtain s ss where s: "parseSegment ep a = Inr s"
        "splitLoop ep b = Inr ss" "segs = s # ss" by (auto simp: split split: if_splits)
      have "endsWithSlash ep = endsWithSlash b" using 1(3) ne slash False by simp
      then have "ss \<noteq> [] \<and> list_all segment_ok ss \<and> CHR ''/'' # b = renderEndpoint ss"
        using 1(1) [of s ss] s slash(3) False by simp
      then show ?thesis using s slash by (simp add: parseSegment_iff)
    qed
  qed
qed

lemma splitLoop_complete:
  "segs \<noteq> [] \<Longrightarrow> list_all segment_ok segs \<Longrightarrow> CHR ''/'' # rest = renderEndpoint segs \<Longrightarrow>
   \<not> endsWithSlash ep \<Longrightarrow> splitLoop ep rest = Inr segs"
proof (induction segs arbitrary: rest)
  case (Cons s ss)
  then have rest: "rest = renderSegment s @ renderEndpoint ss" and s: "segment_ok s" by auto
  have p: "parseSegment ep (renderSegment s) = Inr s" using s by (simp add: parseSegment_iff)
  show ?case
  proof (cases ss)
    case Nil
    then show ?thesis using rest p Cons.prems s
      by (subst splitLoop.simps) (simp add: cutSegment_noslash renderSegment_noslash)
  next
    case (Cons t tt)
    define b where "b = renderSegment t @ renderEndpoint tt"
    have t: "segment_ok t" using Cons.prems Cons by simp
    have b: "CHR ''/'' # b = renderEndpoint ss" "b \<noteq> []"
      using Cons renderSegment_ne [OF t] by (auto simp: b_def)
    have "cutSegment rest = (renderSegment s, b)"
      using rest b s by (metis cutSegment_slash renderSegment_noslash)
    moreover have "splitLoop ep b = Inr ss"
      using Cons.IH [of b] Cons.prems Cons b by simp
    ultimately show ?thesis using b p by (simp add: splitLoop.simps [of ep rest])
  qed
qed simp

lemma splitEndpoint_iff:
  "splitEndpoint ep = Inr segs \<longleftrightarrow>
     ep = renderEndpoint segs \<and> segs \<noteq> [] \<and> length segs \<le> MaxEndpointDepth \<and> list_all segment_ok segs"
proof
  assume h: "splitEndpoint ep = Inr segs"
  then obtain rest where ep: "ep = CHR ''/'' # rest"
    by (cases ep) (auto simp: splitEndpoint_def split: if_splits)
  with h have "splitLoop ep rest = Inr segs" "length segs \<le> MaxEndpointDepth"
    by (auto simp: splitEndpoint_def split: if_splits)
  moreover have "rest \<noteq> [] \<longrightarrow> endsWithSlash ep = endsWithSlash rest" using ep by simp
  ultimately show "ep = renderEndpoint segs \<and> segs \<noteq> [] \<and> length segs \<le> MaxEndpointDepth \<and> list_all segment_ok segs"
    using splitLoop_sound ep by blast
next
  assume h: "ep = renderEndpoint segs \<and> segs \<noteq> [] \<and> length segs \<le> MaxEndpointDepth \<and> list_all segment_ok segs"
  then obtain rest where ep: "ep = CHR ''/'' # rest" by (cases segs) auto
  with h have "splitLoop ep rest = Inr segs"
    by (intro splitLoop_complete) (auto simp: renderEndpoint_no_trailing)
  moreover from h have "length segs \<le> MaxEndpointDepth" by simp
  ultimately show "splitEndpoint ep = Inr segs" unfolding ep by (simp add: splitEndpoint_def)
qed

lemma splitEndpoint_render:
  "segs \<noteq> [] \<Longrightarrow> length segs \<le> MaxEndpointDepth \<Longrightarrow> list_all segment_ok segs \<Longrightarrow>
   splitEndpoint (renderEndpoint segs) = Inr segs"
  by (simp add: splitEndpoint_iff)

lemma renderEndpoint_inj:
  assumes "segs \<noteq> []" "list_all segment_ok segs" "renderEndpoint segs = renderEndpoint segs'"
    "segs' \<noteq> []" "list_all segment_ok segs'"
  shows "segs = segs'"
proof -
  obtain rest where r: "CHR ''/'' # rest = renderEndpoint segs" using assms(1) by (cases segs) auto
  have "splitLoop (renderEndpoint segs) rest = Inr segs"
    using splitLoop_complete assms r renderEndpoint_no_trailing by blast
  moreover have "splitLoop (renderEndpoint segs) rest = Inr segs'"
    using splitLoop_complete assms r renderEndpoint_no_trailing by metis
  ultimately show ?thesis by simp
qed

section \<open>Placeholder names are not semantic\<close>

definition sameLevel :: "endpointSegment \<Rightarrow> endpointSegment \<Rightarrow> bool" where
  "sameLevel a b = (es_param a = es_param b \<and> (es_param a \<or> es_literal a = es_literal b))"

abbreviation sameShape :: "endpointSegment list \<Rightarrow> endpointSegment list \<Rightarrow> bool" where
  "sameShape \<equiv> list_all2 sameLevel"

definition erased :: "endpointSegment \<Rightarrow> string" where
  "erased s = (if es_param s then ''%{}'' else es_literal s)"

lemma erased_noslash: "segment_ok s \<Longrightarrow> CHR ''/'' \<notin> set (erased s)"
  by (auto simp: erased_def segment_ok_def dest: validIdentifier_notin [OF _ identChar_excludes(1)])

lemma erased_eq_iff:
  assumes "segment_ok a" "segment_ok b"
  shows "erased a = erased b \<longleftrightarrow> sameLevel a b"
proof -
  have e: "es_literal s \<noteq> ''%{}''" if "segment_ok s" for s
    using that validIdentifier_notin [OF _ identChar_excludes(2)] by (fastforce simp: segment_ok_def)
  show ?thesis using e [OF assms(1)] e [OF assms(2)] by (auto simp: erased_def sameLevel_def)
qed

lemma normalizeEndpoint_split:
  "list_all segment_ok segs \<Longrightarrow> SplitByte CHR ''/'' (normalizeEndpoint segs) = [] # map erased segs"
proof (induction segs)
  case (Cons s ss)
  have e: "normalizeEndpoint (s # ss) = CHR ''/'' # erased s @ normalizeEndpoint ss"
    by (simp add: erased_def)
  have s: "CHR ''/'' \<notin> set (erased s)" using Cons.prems erased_noslash by simp
  have "SplitByte CHR ''/'' (erased s @ normalizeEndpoint ss) = erased s # map erased ss"
  proof (cases ss)
    case Nil
    then show ?thesis using s by simp
  next
    case (Cons t tt)
    then obtain r where r: "normalizeEndpoint ss = CHR ''/'' # r" by simp
    then show ?thesis using Cons.IH Cons.prems Cons s by (simp add: SplitByte_app)
  qed
  then show ?case unfolding e by simp
qed simp

lemma normalizeEndpoint_eq_iff:
  assumes "list_all segment_ok a" "list_all segment_ok b"
  shows "normalizeEndpoint a = normalizeEndpoint b \<longleftrightarrow> sameShape a b"
proof
  assume "normalizeEndpoint a = normalizeEndpoint b"
  then have e: "map erased a = map erased b"
    using normalizeEndpoint_split assms by (metis list.inject)
  then have l: "length a = length b" by (metis length_map)
  have "erased (a ! i) = erased (b ! i)" if "i < length a" for i
    using e l that by (metis nth_map)
  then show "sameShape a b"
    using assms l by (simp add: list_all2_conv_all_nth list_all_length erased_eq_iff)
next
  assume "sameShape a b"
  then show "normalizeEndpoint a = normalizeEndpoint b"
    by (induction rule: list_all2_induct) (auto simp: sameLevel_def)
qed

lemma sameLevel_equiv:
  "sameLevel a a" "sameLevel a b \<Longrightarrow> sameLevel b a"
  "sameLevel a b \<Longrightarrow> sameLevel b c \<Longrightarrow> sameLevel a c"
  by (auto simp: sameLevel_def)

lemma sameShape_sym: "sameShape a b \<Longrightarrow> sameShape b a"
  by (auto simp: list_all2_conv_all_nth intro: sameLevel_equiv(2))

lemma sameShape_trans: "sameShape a b \<Longrightarrow> sameShape b c \<Longrightarrow> sameShape a c"
  by (rule list_all2_trans [of sameLevel sameLevel sameLevel]) (rule sameLevel_equiv(3))

section \<open>Properties\<close>

text \<open>C26. splitEndpoint accepts exactly the printed forms of one to sixty-four well-formed
  levels, and returns those levels: the endpoint parser is the inverse of the printer.\<close>

theorem endpoint_grammar:
  "splitEndpoint ep = Inr segs \<longleftrightarrow>
     ep = renderEndpoint segs \<and> segs \<noteq> [] \<and> length segs \<le> MaxEndpointDepth \<and> list_all segment_ok segs"
  by (rule splitEndpoint_iff)

end
