(* ===== verification/Go_Regexp.thy ===== *)
theory Go_Regexp
  imports Go_Prelude
begin

text \<open>
  The part of the package regexp the sources use: anchored patterns built from
  bytes, byte classes, concatenation, alternation, repetition and option.
  MatchString runs a derivative matcher; the theory proves that it decides the
  language of the pattern.
\<close>

datatype regex =
    RNone
  | REps
  | RClass "(char \<times> char) list"
  | RAlt regex regex
  | RCat regex regex
  | RStar regex

definition RLit :: "char \<Rightarrow> regex" where
  "RLit c = RClass [(c, c)]"

definition ROpt :: "regex \<Rightarrow> regex" where
  "ROpt r = RAlt r REps"

definition in_class :: "(char \<times> char) list \<Rightarrow> char \<Rightarrow> bool" where
  "in_class cs c = list_ex (\<lambda>(lo, hi). lo \<le> c \<and> c \<le> hi) cs"

fun nullable :: "regex \<Rightarrow> bool" where
  "nullable RNone = False"
| "nullable REps = True"
| "nullable (RClass _) = False"
| "nullable (RAlt r s) = (nullable r \<or> nullable s)"
| "nullable (RCat r s) = (nullable r \<and> nullable s)"
| "nullable (RStar r) = True"

fun deriv :: "char \<Rightarrow> regex \<Rightarrow> regex" where
  "deriv c RNone = RNone"
| "deriv c REps = RNone"
| "deriv c (RClass cs) = (if in_class cs c then REps else RNone)"
| "deriv c (RAlt r s) = RAlt (deriv c r) (deriv c s)"
| "deriv c (RCat r s) =
     (if nullable r then RAlt (RCat (deriv c r) s) (deriv c s) else RCat (deriv c r) s)"
| "deriv c (RStar r) = RCat (deriv c r) (RStar r)"

fun MatchString :: "regex \<Rightarrow> string \<Rightarrow> bool" where
  "MatchString r [] = nullable r"
| "MatchString r (c # cs) = MatchString (deriv c r) cs"

fun lang :: "regex \<Rightarrow> string set" where
  "lang RNone = {}"
| "lang REps = {[]}"
| "lang (RClass cs) = {[c] | c. in_class cs c}"
| "lang (RAlt r s) = lang r \<union> lang s"
| "lang (RCat r s) = {u @ v | u v. u \<in> lang r \<and> v \<in> lang s}"
| "lang (RStar r) = {concat ws | ws. set ws \<subseteq> lang r}"

lemma nullable_iff: "nullable r \<longleftrightarrow> [] \<in> lang r"
  by (induction r) (auto intro: exI [of _ "[]"])

lemma star_Cons_iff:
  "c # w \<in> lang (RStar r) \<longleftrightarrow> (\<exists>u v. w = u @ v \<and> c # u \<in> lang r \<and> v \<in> lang (RStar r))"
proof
  assume "c # w \<in> lang (RStar r)"
  then obtain ws where ws: "c # w = concat ws" "set ws \<subseteq> lang r" by auto
  then show "\<exists>u v. w = u @ v \<and> c # u \<in> lang r \<and> v \<in> lang (RStar r)"
  proof (induction ws)
    case (Cons x xs)
    then show ?case by (cases x) auto
  qed simp
next
  assume "\<exists>u v. w = u @ v \<and> c # u \<in> lang r \<and> v \<in> lang (RStar r)"
  then obtain u ws where "w = u @ concat ws" "c # u \<in> lang r" "set ws \<subseteq> lang r" by auto
  then show "c # w \<in> lang (RStar r)" by (auto intro!: exI [of _ "(c # u) # ws"])
qed

lemma cat_Cons_iff:
  "c # w \<in> lang (RCat r s) \<longleftrightarrow>
     (\<exists>u v. w = u @ v \<and> c # u \<in> lang r \<and> v \<in> lang s) \<or> ([] \<in> lang r \<and> c # w \<in> lang s)"
  by (auto simp: Cons_eq_append_conv)

lemma lang_deriv: "w \<in> lang (deriv c r) \<longleftrightarrow> c # w \<in> lang r"
proof (induction r arbitrary: w)
  case (RCat r s)
  then show ?case unfolding cat_Cons_iff by (auto simp: nullable_iff)
next
  case (RStar r)
  then show ?case unfolding star_Cons_iff by auto
qed auto

theorem MatchString_lang: "MatchString r w \<longleftrightarrow> w \<in> lang r"
  by (induction w arbitrary: r) (auto simp: nullable_iff lang_deriv)

section \<open>Languages of the pattern shapes in use\<close>

lemma lang_star_class: "w \<in> lang (RStar (RClass cs)) \<longleftrightarrow> list_all (in_class cs) w"
proof
  assume "w \<in> lang (RStar (RClass cs))"
  then obtain ws where "w = concat ws" "\<forall>u\<in>set ws. \<exists>c. u = [c] \<and> in_class cs c" by auto
  then show "list_all (in_class cs) w" by (induction ws arbitrary: w) auto
next
  assume "list_all (in_class cs) w"
  then show "w \<in> lang (RStar (RClass cs))"
    by (auto simp: list_all_iff intro!: exI [of _ "map (\<lambda>c. [c]) w"])
qed

lemma lang_cat: "w \<in> lang (RCat r t) \<longleftrightarrow> (\<exists>u v. w = u @ v \<and> u \<in> lang r \<and> v \<in> lang t)"
  by simp

lemma lang_class: "w \<in> lang (RClass cs) \<longleftrightarrow> (\<exists>c. w = [c] \<and> in_class cs c)"
  by simp

lemma lang_lit: "w \<in> lang (RLit c) \<longleftrightarrow> w = [c]"
  by (auto simp: RLit_def in_class_def)

lemma lang_head_star:
  "w \<in> lang (RCat (RClass cs) (RStar (RClass ds))) \<longleftrightarrow>
     w \<noteq> [] \<and> in_class cs (hd w) \<and> list_all (in_class ds) (tl w)"
proof -
  have "w \<in> lang (RCat (RClass cs) (RStar (RClass ds))) \<longleftrightarrow>
      (\<exists>c v. w = c # v \<and> in_class cs c \<and> list_all (in_class ds) v)"
    unfolding lang_cat lang_class lang_star_class by (metis append_Cons append_Nil)
  then show ?thesis by (cases w) auto
qed

lemma lang_star_terminated:
  "w \<in> lang (RStar (RCat r (RLit c))) \<longleftrightarrow>
     (\<exists>ls. set ls \<subseteq> lang r \<and> w = concat (map (\<lambda>l. l @ [c]) ls))"
proof
  assume "w \<in> lang (RStar (RCat r (RLit c)))"
  then obtain ws where ws: "w = concat ws" "set ws \<subseteq> lang (RCat r (RLit c))"
    unfolding lang.simps(6) by blast
  then show "\<exists>ls. set ls \<subseteq> lang r \<and> w = concat (map (\<lambda>l. l @ [c]) ls)"
  proof (induction ws arbitrary: w)
    case (Cons u us)
    from Cons.prems(2) have u: "u \<in> lang (RCat r (RLit c))" and us: "set us \<subseteq> lang (RCat r (RLit c))"
      by simp_all
    from u obtain l where l: "u = l @ [c]" "l \<in> lang r" unfolding lang_cat lang_lit by blast
    from Cons.IH [OF refl us] obtain ls where "set ls \<subseteq> lang r"
      "concat us = concat (map (\<lambda>l. l @ [c]) ls)" by blast
    with l Cons.prems(1) show ?case by (intro exI [of _ "l # ls"]) simp
  qed simp
next
  assume "\<exists>ls. set ls \<subseteq> lang r \<and> w = concat (map (\<lambda>l. l @ [c]) ls)"
  then obtain ls where "set ls \<subseteq> lang r" "w = concat (map (\<lambda>l. l @ [c]) ls)" by blast
  then show "w \<in> lang (RStar (RCat r (RLit c)))"
    unfolding lang.simps(6) using lang_cat lang_lit
    by (auto simp: subset_iff intro!: exI [of _ "map (\<lambda>l. l @ [c]) ls"] simp del: lang.simps(5))
qed

end
