(* ===== verification/Schema_Parse.thy ===== *)
theory Schema_Parse
  imports Schema_Endpoint Go_Regexp
begin

text \<open>
  Model of pkg/interfaceschema/parse.go from the decoded document on: the per-type
  field rules of a mapping, the legacy aliases, the uniqueness and
  object-aggregation checks, and the canonical document.  Fields of the decoding
  targets are options (the pointers of the source); the source's error messages are
  constructors carrying what the message prints.
\<close>

section \<open>Data\<close>

record Mapping =
  m_Endpoint :: string
  m_Type :: ValueType
  m_Reliability :: Reliability
  m_Retention :: Retention
  m_Expiry :: int64
  m_DatabaseRetentionPolicy :: DatabaseRetentionPolicy
  m_DatabaseRetentionTTL :: int64
  m_AllowUnset :: bool
  m_ExplicitTimestamp :: bool
  m_Required :: bool
  m_Encrypted :: bool
  m_Description :: string
  m_Doc :: string

record Interface =
  i_Name :: string
  i_Major :: int
  i_Minor :: int
  i_Type :: InterfaceType
  i_Ownership :: Ownership
  i_Aggregation :: Aggregation
  i_Description :: string
  i_Doc :: string
  i_Mappings :: "Mapping list"

record mappingJSON =
  mj_Endpoint :: "string option"
  mj_Path :: "string option"
  mj_Type :: "ValueType option"
  mj_Reliability :: "Reliability option"
  mj_Retention :: "Retention option"
  mj_Expiry :: "int64 option"
  mj_DatabaseRetentionPolicy :: "DatabaseRetentionPolicy option"
  mj_DatabaseRetentionTTL :: "int64 option"
  mj_AllowUnset :: "bool option"
  mj_ExplicitTimestamp :: "bool option"
  mj_Required :: "bool option"
  mj_Encrypted :: "bool option"
  mj_Description :: string
  mj_Doc :: string

record interfaceJSON =
  ij_InterfaceName :: "string option"
  ij_VersionMajor :: "int option"
  ij_VersionMinor :: "int option"
  ij_Type :: "InterfaceType option"
  ij_Ownership :: "Ownership option"
  ij_Quality :: "Ownership option"
  ij_Aggregate :: "bool option"
  ij_Aggregation :: "Aggregation option"
  ij_Description :: string
  ij_Doc :: string
  ij_Mappings :: "mappingJSON list"
  ij_aliases :: bool

section \<open>Mappings\<close>

definition zeroMapping :: Mapping where
  "zeroMapping = \<lparr>m_Endpoint = [], m_Type = Double, m_Reliability = ReliabilityUnreliable,
     m_Retention = RetentionDiscard, m_Expiry = 0, m_DatabaseRetentionPolicy = NoTTL,
     m_DatabaseRetentionTTL = 0, m_AllowUnset = False, m_ExplicitTimestamp = False,
     m_Required = False, m_Encrypted = False, m_Description = [], m_Doc = []\<rparr>"

definition opt :: "'a option \<Rightarrow> 'a \<Rightarrow> 'a" where
  "opt p d = (case p of None \<Rightarrow> d | Some v \<Rightarrow> v)"

text \<open>The Properties branch of buildMapping: datastream attributes are refused in
  the order of the switch.\<close>

definition buildPropertiesMapping ::
  "mappingJSON \<Rightarrow> Mapping \<Rightarrow> schema_error + Mapping" where
  "buildPropertiesMapping raw m =
    (if mj_Reliability raw \<noteq> None then Inl (NotAllowedOnProperties (m_Endpoint m) ''reliability'')
     else if mj_Retention raw \<noteq> None then Inl (NotAllowedOnProperties (m_Endpoint m) ''retention'')
     else if mj_Expiry raw \<noteq> None then Inl (NotAllowedOnProperties (m_Endpoint m) ''expiry'')
     else if mj_ExplicitTimestamp raw \<noteq> None
       then Inl (NotAllowedOnProperties (m_Endpoint m) ''explicit_timestamp'')
     else if mj_DatabaseRetentionPolicy raw \<noteq> None
       then Inl (NotAllowedOnProperties (m_Endpoint m) ''database_retention_policy'')
     else if mj_DatabaseRetentionTTL raw \<noteq> None
       then Inl (NotAllowedOnProperties (m_Endpoint m) ''database_retention_ttl'')
     else if mj_Required raw \<noteq> None then Inl (NotAllowedOnProperties (m_Endpoint m) ''required'')
     else if mj_Encrypted raw \<noteq> None then Inl (NotAllowedOnProperties (m_Endpoint m) ''encrypted'')
     else Inr (m\<lparr>m_AllowUnset := opt (mj_AllowUnset raw) (m_AllowUnset m)\<rparr>))"

text \<open>The database retention switch of buildMapping.\<close>

definition buildRetentionTTL ::
  "mappingJSON \<Rightarrow> nat \<Rightarrow> Violation list \<Rightarrow> Mapping \<Rightarrow> schema_error + (Mapping \<times> Violation list)" where
  "buildRetentionTTL raw index vc m =
    (case m_DatabaseRetentionPolicy m of
       UseTTL \<Rightarrow>
        (case mj_DatabaseRetentionTTL raw of
           None \<Rightarrow> Inl (UseTTLRequiresTTL (m_Endpoint m))
         | Some ttl \<Rightarrow>
            if sint ttl < MinDatabaseRetentionTTL then
              Inr (m, addMapping vc index ''database_retention_ttl''
                [''must be greater than or equal to '' @ Itoa MinDatabaseRetentionTTL])
            else if sint ttl \<ge> MaxDatabaseRetentionTTL then
              Inr (m, addMapping vc index ''database_retention_ttl''
                [''must be less than '' @ Itoa MaxDatabaseRetentionTTL])
            else Inr (m\<lparr>m_DatabaseRetentionTTL := ttl\<rparr>, vc))
     | NoTTL \<Rightarrow>
        if mj_DatabaseRetentionTTL raw \<noteq> None then Inl (TTLRequiresUseTTL (m_Endpoint m))
        else Inr (m, vc))"

text \<open>The Datastream branch of buildMapping.\<close>

definition buildDatastreamMapping ::
  "mappingJSON \<Rightarrow> nat \<Rightarrow> Violation list \<Rightarrow> Mapping \<Rightarrow> schema_error + (Mapping \<times> Violation list)" where
  "buildDatastreamMapping raw index vc m =
    (if mj_AllowUnset raw \<noteq> None then Inl (AllowUnsetOnDatastream (m_Endpoint m))
     else
       let m1 = m\<lparr>m_Required := opt (mj_Required raw) (m_Required m),
                  m_Encrypted := opt (mj_Encrypted raw) (m_Encrypted m),
                  m_Reliability := opt (mj_Reliability raw) (m_Reliability m),
                  m_Retention := opt (mj_Retention raw) (m_Retention m)\<rparr>
       in if (case mj_Expiry raw of Some e \<Rightarrow> sint e < 0 | None \<Rightarrow> False)
          then Inl (ExpiryNegative (m_Endpoint m))
          else
            let m2 = m1\<lparr>m_Expiry := opt (mj_Expiry raw) (m_Expiry m1),
                        m_DatabaseRetentionPolicy :=
                          opt (mj_DatabaseRetentionPolicy raw) (m_DatabaseRetentionPolicy m1)\<rparr>
            in bindR (buildRetentionTTL raw index vc m2) (\<lambda>(m3, vc').
                 Inr (m3\<lparr>m_ExplicitTimestamp := opt (mj_ExplicitTimestamp raw) (m_ExplicitTimestamp m3)\<rparr>,
                      vc')))"

definition buildMapping ::
  "mappingJSON \<Rightarrow> InterfaceType \<Rightarrow> nat \<Rightarrow> Violation list \<Rightarrow>
   schema_error + (Mapping \<times> endpointSegment list \<times> Violation list)" where
  "buildMapping raw ifaceType index vc =
    (case mj_Endpoint raw of
       None \<Rightarrow> Inl MappingMissingEndpoint
     | Some ep \<Rightarrow>
      (case mj_Type raw of
         None \<Rightarrow> Inl (MappingMissingType ep)
       | Some ty \<Rightarrow>
          bindR (splitEndpoint ep) (\<lambda>segs.
            let m = zeroMapping\<lparr>m_Endpoint := ep, m_Type := ty,
                      m_Description := mj_Description raw, m_Doc := mj_Doc raw\<rparr>;
                vc1 = (if length (mj_Description raw) > MaxDescriptionLength
                       then addMapping vc index ''description'' [tooLongMessage MaxDescriptionLength]
                       else vc);
                vc2 = (if length (mj_Doc raw) > MaxDocLength
                       then addMapping vc1 index ''doc'' [tooLongMessage MaxDocLength]
                       else vc1)
            in if ifaceType = Properties
               then bindR (buildPropertiesMapping raw m) (\<lambda>m'. Inr (m', segs, vc2))
               else bindR (buildDatastreamMapping raw index vc2 m) (\<lambda>(m', vc3). Inr (m', segs, vc3)))))"

section \<open>Checks across the mappings\<close>

text \<open>The inner loop of checkEndpointUniqueness over two endpoints of equal depth:
  the flags overlap and identical when it ends.\<close>

fun overlapLoop :: "endpointSegment list \<Rightarrow> endpointSegment list \<Rightarrow> bool \<Rightarrow> bool \<times> bool" where
  "overlapLoop (a # as) (b # bs) identical =
    (if es_param a \<and> es_param b then overlapLoop as bs identical
     else if es_param a \<noteq> es_param b then overlapLoop as bs False
     else if es_literal a \<noteq> es_literal b then (False, False)
     else overlapLoop as bs identical)"
| "overlapLoop _ _ identical = (True, identical)"

text \<open>One pair i < j of checkEndpointUniqueness, with the endpoints of both mappings.\<close>

definition checkPair ::
  "string \<times> endpointSegment list \<Rightarrow> string \<times> endpointSegment list \<Rightarrow> schema_error + unit" where
  "checkPair p q =
    (if length (snd p) \<noteq> length (snd q) then Inr ()
     else let (overlap, identical) = overlapLoop (snd p) (snd q) True
          in if identical then Inl (DuplicateEndpoint (fst q) (fst p))
             else if overlap then Inl (ConflictingEndpoints (fst p) (fst q))
             else Inr ())"

fun checkAgainst ::
  "string \<times> endpointSegment list \<Rightarrow> (string \<times> endpointSegment list) list \<Rightarrow> schema_error + unit" where
  "checkAgainst p [] = Inr ()"
| "checkAgainst p (q # qs) = bindR (checkPair p q) (\<lambda>_. checkAgainst p qs)"

fun checkEndpointUniqueness :: "(string \<times> endpointSegment list) list \<Rightarrow> schema_error + unit" where
  "checkEndpointUniqueness [] = Inr ()"
| "checkEndpointUniqueness (p # ps) = bindR (checkAgainst p ps) (\<lambda>_. checkEndpointUniqueness ps)"

definition sameObjectAttributes :: "Mapping \<Rightarrow> Mapping \<Rightarrow> schema_error + unit" where
  "sameObjectAttributes ref m =
    (let attr =
       (if m_Reliability m \<noteq> m_Reliability ref then ''reliability''
        else if m_Retention m \<noteq> m_Retention ref then ''retention''
        else if m_Expiry m \<noteq> m_Expiry ref then ''expiry''
        else if m_ExplicitTimestamp m \<noteq> m_ExplicitTimestamp ref then ''explicit_timestamp''
        else if m_DatabaseRetentionPolicy m \<noteq> m_DatabaseRetentionPolicy ref
          then ''database_retention_policy''
        else if m_DatabaseRetentionTTL m \<noteq> m_DatabaseRetentionTTL ref
          then ''database_retention_ttl''
        else [])
     in if attr \<noteq> [] then Inl (ObjectAttributeDiffers attr (m_Endpoint m) (m_Endpoint ref))
        else Inr ())"

text \<open>The loop body of checkObjectAggregation for one mapping, and the loop.\<close>

definition checkObjectMapping ::
  "Mapping \<times> endpointSegment list \<Rightarrow> Mapping \<times> endpointSegment list \<Rightarrow> schema_error + unit" where
  "checkObjectMapping first cur =
    (let ref = fst first; m = fst cur; segs = snd cur
     in if length segs \<noteq> length (snd first)
        then Inl (ObjectDepthDiffers (m_Endpoint m) (length segs) (m_Endpoint ref) (length (snd first)))
        else if \<not> list_all2 (=) (take (length segs - 1) segs) (take (length segs - 1) (snd first))
        then Inl (ObjectPrefixDiffers (m_Endpoint m) (m_Endpoint ref))
        else if es_param (last segs) then Inl (ObjectLeafParametric (m_Endpoint m))
        else sameObjectAttributes ref m)"

fun checkObjectLoop ::
  "Mapping \<times> endpointSegment list \<Rightarrow> (Mapping \<times> endpointSegment list) list \<Rightarrow> schema_error + unit" where
  "checkObjectLoop first [] = Inr ()"
| "checkObjectLoop first (x # xs) = bindR (checkObjectMapping first x) (\<lambda>_. checkObjectLoop first xs)"

definition checkObjectAggregation :: "(Mapping \<times> endpointSegment list) list \<Rightarrow> schema_error + unit" where
  "checkObjectAggregation ms = (case ms of [] \<Rightarrow> Inr () | first # _ \<Rightarrow> checkObjectLoop first ms)"

section \<open>The document\<close>

definition interfaceNameRe :: regex where
  "interfaceNameRe =
    (let alpha = [(CHR ''a'', CHR ''z''), (CHR ''A'', CHR ''Z'')];
         alnum = alpha @ [(CHR ''0'', CHR ''9'')];
         edge = RCat (RClass alpha) (RStar (RClass alnum));
         middle = RCat (RClass alnum) (RStar (RClass (alnum @ [(CHR ''-'', CHR ''-'')])))
     in RCat (ROpt (RCat (RCat edge (RLit CHR ''.'')) (RStar (RCat middle (RLit CHR ''.''))))) edge)"

text \<open>The two alias normalisations at the head of buildInterface.\<close>

definition normalizeQuality ::
  "interfaceJSON \<Rightarrow> Violation list \<Rightarrow> interfaceJSON \<times> Violation list" where
  "normalizeQuality raw vc =
    (case ij_Quality raw of
       None \<Rightarrow> (raw, vc)
     | Some q \<Rightarrow>
        if ij_Ownership raw \<noteq> None
        then (raw\<lparr>ij_aliases := True, ij_Quality := None\<rparr>,
              add_violation vc ''ownership'' [''ownership and quality are mutually exclusive''])
        else (raw\<lparr>ij_aliases := True, ij_Ownership := Some q, ij_Quality := None\<rparr>, vc))"

definition normalizeAggregate ::
  "interfaceJSON \<Rightarrow> Violation list \<Rightarrow> interfaceJSON \<times> Violation list" where
  "normalizeAggregate raw vc =
    (case ij_Aggregate raw of
       None \<Rightarrow> (raw, vc)
     | Some a \<Rightarrow>
        if ij_Aggregation raw \<noteq> None
        then (raw\<lparr>ij_aliases := True, ij_Aggregate := None\<rparr>,
              add_violation vc ''aggregation'' [''aggregation and aggregate are mutually exclusive''])
        else (raw\<lparr>ij_aliases := True,
                  ij_Aggregation := Some (if a then AggregationObject else AggregationIndividual),
                  ij_Aggregate := None\<rparr>, vc))"

text \<open>The path alias of one mapping.\<close>

definition normalizePath :: "mappingJSON \<Rightarrow> mappingJSON" where
  "normalizePath mj =
    (case mj_Path mj of
       None \<Rightarrow> mj
     | Some p \<Rightarrow> mj\<lparr>mj_Endpoint := Some (opt (mj_Endpoint mj) p), mj_Path := None\<rparr>)"

text \<open>The loop over the raw mappings from index i on.\<close>

fun buildMappings ::
  "InterfaceType \<Rightarrow> nat \<Rightarrow> mappingJSON list \<Rightarrow> Violation list \<Rightarrow>
   schema_error + ((Mapping \<times> endpointSegment list) list \<times> Violation list)" where
  "buildMappings ty i [] vc = Inr ([], vc)"
| "buildMappings ty i (mj # mjs) vc =
     bindR (buildMapping (normalizePath mj) ty i vc) (\<lambda>(m, segs, vc1).
     bindR (buildMappings ty (Suc i) mjs vc1) (\<lambda>(ms, vc2). Inr ((m, segs) # ms, vc2)))"

text \<open>The rules on the interface fields, before the mappings are looked at.\<close>

definition buildHeader :: "interfaceJSON \<Rightarrow> schema_error + Interface" where
  "buildHeader raw =
    (case ij_InterfaceName raw of None \<Rightarrow> Inl (MissingField ''interface_name'') | Some name \<Rightarrow>
    (case ij_VersionMajor raw of None \<Rightarrow> Inl (MissingField ''version_major'') | Some major \<Rightarrow>
    (case ij_VersionMinor raw of None \<Rightarrow> Inl (MissingField ''version_minor'') | Some minor \<Rightarrow>
    (case ij_Type raw of None \<Rightarrow> Inl (MissingField ''type'') | Some ty \<Rightarrow>
    (case ij_Ownership raw of None \<Rightarrow> Inl (MissingField ''ownership'') | Some ow \<Rightarrow>
      if length name > MaxNameLength then Inl NameTooLong
      else if \<not> MatchString interfaceNameRe name then Inl (InvalidName name)
      else if major < 0 then Inl MajorNegative
      else if minor < 0 then Inl MinorNegative
      else if major = 0 \<and> minor = 0 then Inl VersionsBothZero
      else
        let iface = \<lparr>i_Name = name, i_Major = major, i_Minor = minor, i_Type = ty,
                     i_Ownership = ow, i_Aggregation = opt (ij_Aggregation raw) AggregationIndividual,
                     i_Description = ij_Description raw, i_Doc = ij_Doc raw, i_Mappings = []\<rparr>
        in if i_Type iface = Properties \<and> i_Aggregation iface = AggregationObject
           then Inl PropertiesWithObject
           else if ij_Mappings raw = [] then Inl NoMappings
           else if length (ij_Mappings raw) > MaxMappings
           then Inl (TooManyMappings (length (ij_Mappings raw)))
           else Inr iface)))))"

definition headerViolations :: "interfaceJSON \<Rightarrow> Violation list \<Rightarrow> Violation list" where
  "headerViolations raw vc =
    (let vc1 = (if length (ij_Description raw) > MaxDescriptionLength
                then add_violation vc ''description'' [tooLongMessage MaxDescriptionLength] else vc)
     in if length (ij_Doc raw) > MaxDocLength
        then add_violation vc1 ''doc'' [tooLongMessage MaxDocLength] else vc1)"

text \<open>buildInterface: the validated interface and the normalised document.\<close>

definition buildInterface :: "interfaceJSON \<Rightarrow> schema_error + (Interface \<times> interfaceJSON)" where
  "buildInterface raw0 =
    (let (raw1, vc1) = normalizeQuality raw0 [];
         (raw2, vc2) = normalizeAggregate raw1 vc1
     in bindR (buildHeader raw2) (\<lambda>iface0.
        bindR (buildMappings (i_Type iface0) 0 (ij_Mappings raw2) (headerViolations raw2 vc2)) (\<lambda>(ms, vc3).
        let raw3 = raw2\<lparr>ij_aliases := (ij_aliases raw2 \<or> list_ex (\<lambda>mj. mj_Path mj \<noteq> None) (ij_Mappings raw2)),
                        ij_Mappings := map normalizePath (ij_Mappings raw2)\<rparr>;
            iface = iface0\<lparr>i_Mappings := map fst ms\<rparr>
        in bindR (errOrNil vc3 (length (ij_Mappings raw2))) (\<lambda>_.
           bindR (checkEndpointUniqueness (map (\<lambda>(m, segs). (m_Endpoint m, segs)) ms)) (\<lambda>_.
           bindR (if i_Aggregation iface = AggregationObject
                  then checkObjectAggregation ms else Inr ()) (\<lambda>_.
           Inr (iface, raw3)))))))"

text \<open>ParseInterfaceCanonical on a decoded document: the interface, and the canonical
  document when an alias was consumed.\<close>

definition ParseInterfaceCanonical ::
  "interfaceJSON \<Rightarrow> schema_error + (Interface \<times> interfaceJSON option)" where
  "ParseInterfaceCanonical raw =
    bindR (buildInterface raw) (\<lambda>(iface, raw').
      Inr (iface, if ij_aliases raw' then Some (raw'\<lparr>ij_aliases := False\<rparr>) else None))"

definition ParseInterface :: "interfaceJSON \<Rightarrow> schema_error + Interface" where
  "ParseInterface raw = bindR (ParseInterfaceCanonical raw) (\<lambda>(iface, _). Inr iface)"

section \<open>The uniqueness check\<close>

definition levelsMeet :: "endpointSegment \<Rightarrow> endpointSegment \<Rightarrow> bool" where
  "levelsMeet a b = (es_param a \<or> es_param b \<or> es_literal a = es_literal b)"

abbreviation overlaps :: "endpointSegment list \<Rightarrow> endpointSegment list \<Rightarrow> bool" where
  "overlaps \<equiv> list_all2 levelsMeet"

lemma overlapLoop_spec:
  "length a = length b \<Longrightarrow> overlapLoop a b idt = (overlaps a b, idt \<and> sameShape a b)"
  by (induction a b idt rule: overlapLoop.induct)
    (auto simp: levelsMeet_def sameLevel_def)

lemma sameShape_overlaps: "sameShape a b \<Longrightarrow> overlaps a b"
  by (erule list_all2_mono) (auto simp: sameLevel_def levelsMeet_def)

lemma checkPair_ok: "checkPair p q = Inr u \<longleftrightarrow> \<not> overlaps (snd p) (snd q)"
proof (cases "length (snd p) = length (snd q)")
  case True
  then show ?thesis by (auto simp: checkPair_def overlapLoop_spec sameShape_overlaps)
next
  case False
  then show ?thesis using list_all2_lengthD by (auto simp: checkPair_def)
qed

lemma checkAgainst_ok: "checkAgainst p qs = Inr u \<longleftrightarrow> (\<forall>q\<in>set qs. \<not> overlaps (snd p) (snd q))"
  by (induction qs) (auto simp: checkPair_ok)

lemma checkEndpointUniqueness_ok:
  "checkEndpointUniqueness ps = Inr u \<longleftrightarrow> sorted_wrt (\<lambda>p q. \<not> overlaps (snd p) (snd q)) ps"
  by (induction ps) (auto simp: checkAgainst_ok)

lemma overlaps_sym: "overlaps a b \<Longrightarrow> overlaps b a"
  by (auto simp: list_all2_conv_all_nth levelsMeet_def)

section \<open>Object aggregation\<close>

definition object_uniform :: "Mapping \<Rightarrow> Mapping \<Rightarrow> bool" where
  "object_uniform a b =
    (m_Reliability a = m_Reliability b \<and> m_Retention a = m_Retention b \<and> m_Expiry a = m_Expiry b \<and>
     m_ExplicitTimestamp a = m_ExplicitTimestamp b \<and>
     m_DatabaseRetentionPolicy a = m_DatabaseRetentionPolicy b \<and>
     m_DatabaseRetentionTTL a = m_DatabaseRetentionTTL b)"

lemma sameObjectAttributes_ok: "sameObjectAttributes r m = Inr u \<longleftrightarrow> object_uniform m r"
  by (auto simp: sameObjectAttributes_def object_uniform_def Let_def)

definition object_peer ::
  "Mapping \<times> endpointSegment list \<Rightarrow> Mapping \<times> endpointSegment list \<Rightarrow> bool" where
  "object_peer a b =
    (length (snd b) = length (snd a) \<and> butlast (snd b) = butlast (snd a) \<and>
     \<not> es_param (last (snd b)) \<and> object_uniform (fst b) (fst a))"

lemma checkObjectMapping_ok: "checkObjectMapping a b = Inr u \<longleftrightarrow> object_peer a b"
  by (auto simp: checkObjectMapping_def Let_def object_peer_def sameObjectAttributes_ok
      list.rel_eq butlast_conv_take)

lemma checkObjectLoop_ok: "checkObjectLoop a xs = Inr u \<longleftrightarrow> (\<forall>x\<in>set xs. object_peer a x)"
  by (induction xs) (auto simp: checkObjectMapping_ok)

lemma checkObjectAggregation_ok:
  "checkObjectAggregation ms = Inr u \<longleftrightarrow> (\<forall>x\<in>set ms. object_peer (hd ms) x)"
  by (cases ms) (simp_all add: checkObjectAggregation_def checkObjectLoop_ok checkObjectMapping_ok)

section \<open>The invariant of a parsed interface\<close>

definition mapping_ok :: "InterfaceType \<Rightarrow> Mapping \<Rightarrow> bool" where
  "mapping_ok ty m =
    (is_ok (splitEndpoint (m_Endpoint m)) \<and>
     length (m_Description m) \<le> MaxDescriptionLength \<and> length (m_Doc m) \<le> MaxDocLength \<and>
     (case ty of
        Properties \<Rightarrow>
          m_Reliability m = ReliabilityUnreliable \<and> m_Retention m = RetentionDiscard \<and>
          m_Expiry m = 0 \<and> m_DatabaseRetentionPolicy m = NoTTL \<and> m_DatabaseRetentionTTL m = 0 \<and>
          \<not> m_ExplicitTimestamp m \<and> \<not> m_Required m \<and> \<not> m_Encrypted m
      | Datastream \<Rightarrow>
          \<not> m_AllowUnset m \<and> 0 \<le> sint (m_Expiry m) \<and>
          (case m_DatabaseRetentionPolicy m of
             UseTTL \<Rightarrow> MinDatabaseRetentionTTL \<le> sint (m_DatabaseRetentionTTL m) \<and>
                       sint (m_DatabaseRetentionTTL m) < MaxDatabaseRetentionTTL
           | NoTTL \<Rightarrow> m_DatabaseRetentionTTL m = 0)))"

definition segments :: "Mapping \<Rightarrow> endpointSegment list" where
  "segments m = (case splitEndpoint (m_Endpoint m) of Inr segs \<Rightarrow> segs | Inl _ \<Rightarrow> [])"

definition interface_ok :: "Interface \<Rightarrow> bool" where
  "interface_ok i =
    (length (i_Name i) \<le> MaxNameLength \<and> MatchString interfaceNameRe (i_Name i) \<and>
     0 \<le> i_Major i \<and> 0 \<le> i_Minor i \<and> 0 < i_Major i + i_Minor i \<and>
     \<not> (i_Type i = Properties \<and> i_Aggregation i = AggregationObject) \<and>
     i_Mappings i \<noteq> [] \<and> length (i_Mappings i) \<le> MaxMappings \<and>
     length (i_Description i) \<le> MaxDescriptionLength \<and> length (i_Doc i) \<le> MaxDocLength \<and>
     list_all (mapping_ok (i_Type i)) (i_Mappings i) \<and>
     sorted_wrt (\<lambda>a b. \<not> overlaps (segments a) (segments b)) (i_Mappings i) \<and>
     (i_Aggregation i = AggregationObject \<longrightarrow>
       (\<forall>m\<in>set (i_Mappings i).
         object_peer (hd (i_Mappings i), segments (hd (i_Mappings i))) (m, segments m))))"

section \<open>Violations only accumulate\<close>

lemma buildRetentionTTL_ok:
  "buildRetentionTTL raw i vc m = Inr (m', []) \<longleftrightarrow>
     vc = [] \<and>
     (case m_DatabaseRetentionPolicy m of
        UseTTL \<Rightarrow> (\<exists>ttl. mj_DatabaseRetentionTTL raw = Some ttl \<and>
            MinDatabaseRetentionTTL \<le> sint ttl \<and> sint ttl < MaxDatabaseRetentionTTL \<and>
            m' = m\<lparr>m_DatabaseRetentionTTL := ttl\<rparr>)
      | NoTTL \<Rightarrow> mj_DatabaseRetentionTTL raw = None \<and> m' = m)"
  by (auto simp: buildRetentionTTL_def addMapping_def split: DatabaseRetentionPolicy.splits option.splits)

lemma buildDatastreamMapping_ok:
  assumes b: "buildDatastreamMapping raw i vc m = Inr (m', [])"
    and m: "m = zeroMapping\<lparr>m_Endpoint := ep, m_Type := ty, m_Description := d, m_Doc := dc\<rparr>"
  shows "vc = [] \<and> m_Endpoint m' = ep \<and> m_Description m' = d \<and> m_Doc m' = dc \<and>
    \<not> m_AllowUnset m' \<and> 0 \<le> sint (m_Expiry m') \<and>
    (case m_DatabaseRetentionPolicy m' of
       UseTTL \<Rightarrow> MinDatabaseRetentionTTL \<le> sint (m_DatabaseRetentionTTL m') \<and>
                 sint (m_DatabaseRetentionTTL m') < MaxDatabaseRetentionTTL
     | NoTTL \<Rightarrow> m_DatabaseRetentionTTL m' = 0)"
proof -
  define m2 where "m2 = m\<lparr>m_Required := opt (mj_Required raw) (m_Required m),
    m_Encrypted := opt (mj_Encrypted raw) (m_Encrypted m),
    m_Reliability := opt (mj_Reliability raw) (m_Reliability m),
    m_Retention := opt (mj_Retention raw) (m_Retention m),
    m_Expiry := opt (mj_Expiry raw) (m_Expiry m),
    m_DatabaseRetentionPolicy := opt (mj_DatabaseRetentionPolicy raw) (m_DatabaseRetentionPolicy m)\<rparr>"
  from b obtain m3 where e: "\<not> (case mj_Expiry raw of Some e \<Rightarrow> sint e < 0 | None \<Rightarrow> False)"
    and r: "buildRetentionTTL raw i vc m2 = Inr (m3, [])"
    and m': "m' = m3\<lparr>m_ExplicitTimestamp := opt (mj_ExplicitTimestamp raw) (m_ExplicitTimestamp m3)\<rparr>"
    unfolding buildDatastreamMapping_def Let_def m2_def by (auto split: if_split_asm)
  have x: "0 \<le> sint (m_Expiry m2)" using e m by (auto simp: m2_def zeroMapping_def opt_def split: option.splits)
  have f: "m_Endpoint m2 = ep" "m_Description m2 = d" "m_Doc m2 = dc" "\<not> m_AllowUnset m2"
    "m_DatabaseRetentionTTL m2 = 0" using m by (simp_all add: m2_def zeroMapping_def)
  show ?thesis
    using r x f m' unfolding buildRetentionTTL_ok
    by (cases "m_DatabaseRetentionPolicy m2") auto
qed

lemma buildPropertiesMapping_ok:
  assumes "buildPropertiesMapping raw m = Inr m'"
    and "m = zeroMapping\<lparr>m_Endpoint := ep, m_Type := ty, m_Description := d, m_Doc := dc\<rparr>"
  shows "m_Endpoint m' = ep \<and> m_Description m' = d \<and> m_Doc m' = dc \<and>
    m_Reliability m' = ReliabilityUnreliable \<and> m_Retention m' = RetentionDiscard \<and>
    m_Expiry m' = 0 \<and> m_DatabaseRetentionPolicy m' = NoTTL \<and> m_DatabaseRetentionTTL m' = 0 \<and>
    \<not> m_ExplicitTimestamp m' \<and> \<not> m_Required m' \<and> \<not> m_Encrypted m'"
  using assms by (auto simp: buildPropertiesMapping_def zeroMapping_def split: if_splits)

lemma buildMapping_ok:
  assumes "buildMapping raw ty i vc = Inr (m, segs, [])"
  shows "vc = [] \<and> mapping_ok ty m \<and> splitEndpoint (m_Endpoint m) = Inr segs"
proof -
  from assms obtain ep vt where ep: "mj_Endpoint raw = Some ep" and vt: "mj_Type raw = Some vt"
    by (auto simp: buildMapping_def split: option.splits)
  from assms ep vt have segs: "splitEndpoint ep = Inr segs"
    by (auto simp: buildMapping_def Let_def split: if_splits)
  define m0 where "m0 = zeroMapping\<lparr>m_Endpoint := ep, m_Type := vt,
    m_Description := mj_Description raw, m_Doc := mj_Doc raw\<rparr>"
  define vc1 where "vc1 = (if length (mj_Description raw) > MaxDescriptionLength
     then addMapping vc i ''description'' [tooLongMessage MaxDescriptionLength] else vc)"
  define vc2 where "vc2 = (if length (mj_Doc raw) > MaxDocLength
     then addMapping vc1 i ''doc'' [tooLongMessage MaxDocLength] else vc1)"
  have len: "vc2 = [] \<Longrightarrow> vc = [] \<and> length (mj_Description raw) \<le> MaxDescriptionLength
      \<and> length (mj_Doc raw) \<le> MaxDocLength"
    by (auto simp: vc1_def vc2_def addMapping_def split: if_splits)
  show ?thesis
  proof (cases ty)
    case Properties
    with assms ep vt segs have "buildPropertiesMapping raw m0 = Inr m" "vc2 = []"
      by (auto simp: buildMapping_def Let_def m0_def vc1_def vc2_def)
    with buildPropertiesMapping_ok [OF this(1) m0_def] len segs Properties show ?thesis
      by (simp add: mapping_ok_def)
  next
    case Datastream
    with assms ep vt segs have "buildDatastreamMapping raw i vc2 m0 = Inr (m, [])"
      by (auto simp: buildMapping_def Let_def m0_def vc1_def vc2_def)
    with buildDatastreamMapping_ok [OF this m0_def] len segs Datastream show ?thesis
      by (simp add: mapping_ok_def)
  qed
qed

lemma buildMappings_ok:
  assumes "buildMappings ty i mjs vc = Inr (ms, [])"
  shows "vc = [] \<and> length ms = length mjs \<and> list_all (mapping_ok ty) (map fst ms) \<and>
    ms = map (\<lambda>m. (m, segments m)) (map fst ms)"
  using assms
proof (induction ty i mjs vc arbitrary: ms rule: buildMappings.induct)
  case (2 ty i mj mjs vc)
  then obtain m segs vc1 ms' where h: "buildMapping (normalizePath mj) ty i vc = Inr (m, segs, vc1)"
    "buildMappings ty (Suc i) mjs vc1 = Inr (ms', [])" "ms = (m, segs) # ms'" by auto
  from 2(1) [OF h(1) refl refl h(2)]
  have "vc1 = []" "length ms' = length mjs" "list_all (mapping_ok ty) (map fst ms')"
    "ms' = map (\<lambda>m. (m, segments m)) (map fst ms')" by auto
  moreover from buildMapping_ok [OF h(1) [unfolded \<open>vc1 = []\<close>]]
  have "vc = []" "mapping_ok ty m" "segs = segments m" by (auto simp: segments_def)
  ultimately show ?case using h(3) by simp
qed simp

lemma headerViolations_empty:
  "headerViolations raw vc = [] \<longleftrightarrow>
     vc = [] \<and> length (ij_Description raw) \<le> MaxDescriptionLength \<and> length (ij_Doc raw) \<le> MaxDocLength"
  by (auto simp: headerViolations_def add_violation_def Let_def)

lemma buildHeader_ok:
  assumes "buildHeader raw = Inr i"
  shows "length (i_Name i) \<le> MaxNameLength \<and> MatchString interfaceNameRe (i_Name i) \<and>
     0 \<le> i_Major i \<and> 0 \<le> i_Minor i \<and> 0 < i_Major i + i_Minor i \<and>
     \<not> (i_Type i = Properties \<and> i_Aggregation i = AggregationObject) \<and>
     ij_Mappings raw \<noteq> [] \<and> length (ij_Mappings raw) \<le> MaxMappings \<and>
     i_Description i = ij_Description raw \<and> i_Doc i = ij_Doc raw"
  using assms by (auto simp: buildHeader_def Let_def split: option.splits if_splits)

lemma uniqueness_of_segments:
  assumes "ms = map (\<lambda>m. (m, segments m)) ns"
  shows "checkEndpointUniqueness (map (\<lambda>(m, segs). (m_Endpoint m, segs)) ms) = Inr u \<longleftrightarrow>
    sorted_wrt (\<lambda>a b. \<not> overlaps (segments a) (segments b)) ns"
  by (simp add: assms checkEndpointUniqueness_ok sorted_wrt_map comp_def)

lemma buildInterface_sound:
  assumes "buildInterface raw = Inr (i, raw')"
  shows "interface_ok i"
proof -
  obtain raw1 vc1 where n1: "normalizeQuality raw [] = (raw1, vc1)" by (cases "normalizeQuality raw []")
  obtain raw2 vc2 where n2: "normalizeAggregate raw1 vc1 = (raw2, vc2)"
    by (cases "normalizeAggregate raw1 vc1")
  from assms n1 n2 obtain i0 ms where
    h: "buildHeader raw2 = Inr i0" and
    b: "buildMappings (i_Type i0) 0 (ij_Mappings raw2) (headerViolations raw2 vc2) = Inr (ms, [])" and
    u: "checkEndpointUniqueness (map (\<lambda>(m, segs). (m_Endpoint m, segs)) ms) = Inr ()" and
    a: "i_Aggregation i0 = AggregationObject \<Longrightarrow> checkObjectAggregation ms = Inr ()" and
    i: "i = i0\<lparr>i_Mappings := map fst ms\<rparr>"
    by (auto simp: buildInterface_def Let_def errOrNil_def split: if_splits)
  define ns where "ns = map fst ms"
  note bm = buildMappings_ok [OF b]
  have ms: "ms = map (\<lambda>m. (m, segments m)) ns" using bm ns_def by simp
  have hv: "headerViolations raw2 vc2 = []" using bm by simp
  have ne: "ns \<noteq> []" using bm buildHeader_ok [OF h] by (auto simp: ns_def)
  have "sorted_wrt (\<lambda>a b. \<not> overlaps (segments a) (segments b)) ns"
    using u uniqueness_of_segments [OF ms] by simp
  moreover have "i_Aggregation i0 = AggregationObject \<Longrightarrow>
      \<forall>m\<in>set ns. object_peer (hd ns, segments (hd ns)) (m, segments m)"
    using a ne by (auto simp: checkObjectAggregation_ok ms hd_map)
  ultimately show ?thesis
    using buildHeader_ok [OF h] hv bm ne i
    by (auto simp: interface_ok_def headerViolations_empty ns_def)
qed

section \<open>Every interface with the invariant has a document\<close>

definition mappingDocument :: "InterfaceType \<Rightarrow> Mapping \<Rightarrow> mappingJSON" where
  "mappingDocument ty m =
    \<lparr>mj_Endpoint = Some (m_Endpoint m), mj_Path = None, mj_Type = Some (m_Type m),
     mj_Reliability = (if ty = Properties then None else Some (m_Reliability m)),
     mj_Retention = (if ty = Properties then None else Some (m_Retention m)),
     mj_Expiry = (if ty = Properties then None else Some (m_Expiry m)),
     mj_DatabaseRetentionPolicy = (if ty = Properties then None else Some (m_DatabaseRetentionPolicy m)),
     mj_DatabaseRetentionTTL =
       (if m_DatabaseRetentionPolicy m = UseTTL then Some (m_DatabaseRetentionTTL m) else None),
     mj_AllowUnset = (if ty = Properties then Some (m_AllowUnset m) else None),
     mj_ExplicitTimestamp = (if ty = Properties then None else Some (m_ExplicitTimestamp m)),
     mj_Required = (if ty = Properties then None else Some (m_Required m)),
     mj_Encrypted = (if ty = Properties then None else Some (m_Encrypted m)),
     mj_Description = m_Description m, mj_Doc = m_Doc m\<rparr>"

definition document :: "Interface \<Rightarrow> interfaceJSON" where
  "document i =
    \<lparr>ij_InterfaceName = Some (i_Name i), ij_VersionMajor = Some (i_Major i),
     ij_VersionMinor = Some (i_Minor i), ij_Type = Some (i_Type i),
     ij_Ownership = Some (i_Ownership i), ij_Quality = None, ij_Aggregate = None,
     ij_Aggregation = Some (i_Aggregation i), ij_Description = i_Description i, ij_Doc = i_Doc i,
     ij_Mappings = map (mappingDocument (i_Type i)) (i_Mappings i), ij_aliases = False\<rparr>"

lemma buildPropertiesMapping_document:
  assumes "mapping_ok Properties m"
  shows "buildPropertiesMapping (mappingDocument Properties m)
    (zeroMapping\<lparr>m_Endpoint := m_Endpoint m, m_Type := m_Type m,
       m_Description := m_Description m, m_Doc := m_Doc m\<rparr>) = Inr m"
  using assms by (cases m) (simp add: mapping_ok_def buildPropertiesMapping_def mappingDocument_def
      zeroMapping_def opt_def)

lemma buildDatastreamMapping_document:
  assumes "mapping_ok Datastream m"
  shows "buildDatastreamMapping (mappingDocument Datastream m) i []
    (zeroMapping\<lparr>m_Endpoint := m_Endpoint m, m_Type := m_Type m,
       m_Description := m_Description m, m_Doc := m_Doc m\<rparr>) = Inr (m, [])"
  using assms by (cases m; cases "m_DatabaseRetentionPolicy m")
    (simp_all add: mapping_ok_def buildDatastreamMapping_def mappingDocument_def buildRetentionTTL_def
      zeroMapping_def opt_def Let_def)

lemma buildMapping_document:
  assumes "mapping_ok ty m"
  shows "buildMapping (mappingDocument ty m) ty i [] = Inr (m, segments m, [])"
proof -
  have d: "mj_Endpoint (mappingDocument t m) = Some (m_Endpoint m)"
    "mj_Type (mappingDocument t m) = Some (m_Type m)"
    "mj_Description (mappingDocument t m) = m_Description m" "mj_Doc (mappingDocument t m) = m_Doc m" for t
    by (simp_all add: mappingDocument_def)
  have s: "splitEndpoint (m_Endpoint m) = Inr (segments m)"
    using assms by (auto simp: mapping_ok_def segments_def is_ok_ex)
  have l: "\<not> length (m_Description m) > MaxDescriptionLength" "\<not> length (m_Doc m) > MaxDocLength"
    using assms by (auto simp: mapping_ok_def)
  show ?thesis
    by (cases ty)
      (use assms in \<open>simp_all add: buildMapping_def d s l Let_def buildPropertiesMapping_document
        buildDatastreamMapping_document\<close>)
qed

lemma normalizePath_none: "mj_Path mj = None \<Longrightarrow> normalizePath mj = mj"
  by (simp add: normalizePath_def)

lemma normalizePath_clears [simp]: "mj_Path (normalizePath mj) = None"
  by (simp add: normalizePath_def split: option.split)

lemma normalizePath_idem [simp]: "normalizePath (normalizePath mj) = normalizePath mj"
  by (rule normalizePath_none) simp

lemma buildMappings_document:
  "list_all (mapping_ok ty) ms \<Longrightarrow>
   buildMappings ty i (map (mappingDocument ty) ms) [] = Inr (map (\<lambda>m. (m, segments m)) ms, [])"
proof (induction ms arbitrary: i)
  case (Cons m ms)
  have "normalizePath (mappingDocument ty m) = mappingDocument ty m"
    by (rule normalizePath_none) (simp add: mappingDocument_def)
  with Cons show ?case by (simp add: buildMapping_document)
qed simp

lemma buildHeader_document:
  "interface_ok i \<Longrightarrow> buildHeader (document i) = Inr (i\<lparr>i_Mappings := []\<rparr>)"
  by (auto simp: buildHeader_def document_def interface_ok_def opt_def Let_def)

lemma buildInterface_document:
  assumes "interface_ok i"
  shows "buildInterface (document i) = Inr (i, document i)"
proof -
  let ?ms = "map (\<lambda>m. (m, segments m)) (i_Mappings i)"
  have d: "ij_Quality (document i) = None" "ij_Aggregate (document i) = None"
    "ij_Mappings (document i) = map (mappingDocument (i_Type i)) (i_Mappings i)"
    "\<not> ij_aliases (document i)"
    by (simp_all add: document_def)
  have v: "headerViolations (document i) [] = []"
    using assms by (auto simp: headerViolations_empty document_def interface_ok_def)
  have p: "map normalizePath (ij_Mappings (document i)) = ij_Mappings (document i)"
    "\<not> list_ex (\<lambda>mj. \<exists>y. mj_Path mj = Some y) (ij_Mappings (document i))"
    by (auto simp: d list_ex_iff mappingDocument_def normalizePath_def)
  have u: "checkEndpointUniqueness (map (\<lambda>(m, segs). (m_Endpoint m, segs)) ?ms) = Inr ()"
    using assms uniqueness_of_segments [OF refl] by (simp add: interface_ok_def)
  have ne: "i_Mappings i \<noteq> []" using assms by (simp add: interface_ok_def)
  have a: "(if i_Aggregation i = AggregationObject then checkObjectAggregation ?ms else Inr ()) = Inr ()"
    using assms ne by (auto simp: checkObjectAggregation_ok interface_ok_def hd_map)
  have bm: "buildMappings (i_Type i) 0 (map (mappingDocument (i_Type i)) (i_Mappings i)) [] = Inr (?ms, [])"
    using assms by (intro buildMappings_document) (simp add: interface_ok_def)
  have m: "map fst ?ms = i_Mappings i" by (simp add: comp_def)
  have r: "(document i)\<lparr>ij_aliases := False\<rparr> = document i"
    using d(4) by simp
  show ?thesis
    using r u a m unfolding buildInterface_def
    by (simp add: normalizeQuality_def normalizeAggregate_def d(1,2,4) buildHeader_document [OF assms] v p
        bm [folded d(3)] errOrNil_def Let_def)
qed

section \<open>The canonical document\<close>

lemma errOrNil_ok: "errOrNil vc n = Inr u \<longleftrightarrow> vc = []"
  by (simp add: errOrNil_def)

lemma buildMappings_normalized:
  "buildMappings ty i (map normalizePath mjs) vc = buildMappings ty i mjs vc"
proof (induction mjs arbitrary: i vc)
  case (Cons mj mjs)
  then show ?case by simp
qed simp

lemma buildHeader_cong:
  "buildHeader (raw\<lparr>ij_Mappings := map f (ij_Mappings raw), ij_aliases := b\<rparr>) = buildHeader raw"
  by (simp add: buildHeader_def Let_def cong: option.case_cong if_cong)

lemma normalize_aliases_clear:
  assumes "normalizeQuality raw [] = (raw1, vc1)" "normalizeAggregate raw1 vc1 = (raw2, vc2)"
  shows "ij_Quality raw2 = None \<and> ij_Aggregate raw2 = None"
  using assms
  by (auto simp: normalizeQuality_def normalizeAggregate_def split: option.splits if_splits)

lemma buildInterface_canonical:
  assumes "buildInterface raw = Inr (i, raw')"
  shows "buildInterface (raw'\<lparr>ij_aliases := False\<rparr>) = Inr (i, raw'\<lparr>ij_aliases := False\<rparr>)"
proof -
  obtain raw1 vc1 where n1: "normalizeQuality raw [] = (raw1, vc1)" by (cases "normalizeQuality raw []")
  obtain raw2 vc2 where n2: "normalizeAggregate raw1 vc1 = (raw2, vc2)"
    by (cases "normalizeAggregate raw1 vc1")
  define mjs where "mjs = map normalizePath (ij_Mappings raw2)"
  define al where "al = (ij_aliases raw2 \<or> list_ex (\<lambda>mj. mj_Path mj \<noteq> None) (ij_Mappings raw2))"
  from assms n1 n2 obtain i0 ms where
    h: "buildHeader raw2 = Inr i0" and
    b: "buildMappings (i_Type i0) 0 (ij_Mappings raw2) (headerViolations raw2 vc2) = Inr (ms, [])" and
    u: "checkEndpointUniqueness (map (\<lambda>(m, segs). (m_Endpoint m, segs)) ms) = Inr ()" and
    a: "(if i_Aggregation i0 = AggregationObject then checkObjectAggregation ms else Inr ()) = Inr ()" and
    i: "i = i0\<lparr>i_Mappings := map fst ms\<rparr>" and
    r: "raw' = raw2\<lparr>ij_aliases := al, ij_Mappings := mjs\<rparr>"
    by (auto simp: buildInterface_def Let_def errOrNil_ok al_def mjs_def)
  define c where "c = raw'\<lparr>ij_aliases := False\<rparr>"
  have hv: "headerViolations raw2 vc2 = []" using buildMappings_ok [OF b] by simp
  have c: "headerViolations c [] = []" "ij_Quality c = None" "ij_Aggregate c = None" "\<not> ij_aliases c"
    "map normalizePath (ij_Mappings c) = ij_Mappings c"
    "\<not> list_ex (\<lambda>mj. \<exists>y. mj_Path mj = Some y) (ij_Mappings c)"
    "c\<lparr>ij_aliases := False\<rparr> = c"
    using hv normalize_aliases_clear [OF n1 n2]
    by (simp_all add: headerViolations_empty c_def r mjs_def list_ex_iff)
  have h': "buildHeader c = Inr i0"
    using h buildHeader_cong [where raw = raw2 and b = False and f = normalizePath] by (simp add: c_def r mjs_def)
  have b': "buildMappings (i_Type i0) 0 (ij_Mappings c) [] = Inr (ms, [])"
    using b hv by (simp add: c_def r mjs_def buildMappings_normalized)
  have n: "normalizeQuality c [] = (c, [])" "normalizeAggregate c [] = (c, [])"
    using c by (simp_all add: normalizeQuality_def normalizeAggregate_def)
  have a': "i_Aggregation i0 = AggregationObject \<longrightarrow> checkObjectAggregation ms = Inr ()"
    using a by (simp split: if_splits)
  show ?thesis
    unfolding c_def [symmetric] buildInterface_def n Let_def split h' bindR_simps b' c(1)
    by (simp add: errOrNil_def u a' i c)
qed

section \<open>Interface names\<close>

definition alpha_char :: "char \<Rightarrow> bool" where
  "alpha_char c = ((CHR ''a'' \<le> c \<and> c \<le> CHR ''z'') \<or> (CHR ''A'' \<le> c \<and> c \<le> CHR ''Z''))"

definition alnum_char :: "char \<Rightarrow> bool" where
  "alnum_char c = (alpha_char c \<or> (CHR ''0'' \<le> c \<and> c \<le> CHR ''9''))"

definition edgeLabel :: "string \<Rightarrow> bool" where
  "edgeLabel l = (l \<noteq> [] \<and> alpha_char (hd l) \<and> list_all alnum_char (tl l))"

definition middleLabel :: "string \<Rightarrow> bool" where
  "middleLabel l =
    (l \<noteq> [] \<and> alnum_char (hd l) \<and> list_all (\<lambda>c. alnum_char c \<or> c = CHR ''-'') (tl l))"

text \<open>A reverse domain name: the first and the last label start with a letter and are
  alphanumeric, the labels between may carry hyphens after their first byte.\<close>

definition reverseDomain :: "string \<Rightarrow> bool" where
  "reverseDomain s =
    (let ls = SplitByte CHR ''.'' s
     in edgeLabel (hd ls) \<and> edgeLabel (last ls) \<and> list_all middleLabel (butlast (tl ls)))"

lemma alnum_not_dot: "\<not> alnum_char CHR ''.''" "\<not> alpha_char CHR ''.''"
  by (simp_all add: alnum_char_def alpha_char_def less_eq_char_def)

lemma edgeLabel_no_dot: "edgeLabel l \<Longrightarrow> CHR ''.'' \<notin> set l"
  using alnum_not_dot by (cases l) (auto simp: edgeLabel_def list_all_iff)

lemma middleLabel_no_dot: "middleLabel l \<Longrightarrow> CHR ''.'' \<notin> set l"
  using alnum_not_dot by (cases l) (auto simp: middleLabel_def list_all_iff)

lemma interfaceNameRe_shape:
  "MatchString interfaceNameRe s \<longleftrightarrow>
     edgeLabel s \<or>
     (\<exists>a ls b. edgeLabel a \<and> edgeLabel b \<and> list_all middleLabel ls \<and> s = Join (a # ls @ [b]) ''.'')"
proof -
  define alpha where "alpha = [(CHR ''a'', CHR ''z''), (CHR ''A'', CHR ''Z'')]"
  define alnum where "alnum = alpha @ [(CHR ''0'', CHR ''9'')]"
  define hyph where "hyph = alnum @ [(CHR ''-'', CHR ''-'')]"
  define edge where "edge = RCat (RClass alpha) (RStar (RClass alnum))"
  define middle where "middle = RCat (RClass alnum) (RStar (RClass hyph))"
  have c: "in_class alpha = alpha_char" "in_class alnum = alnum_char"
    "in_class hyph = (\<lambda>c. alnum_char c \<or> c = CHR ''-'')"
    by (auto simp: in_class_def alpha_def alnum_def hyph_def alpha_char_def alnum_char_def fun_eq_iff
        intro: antisym)
  have e: "w \<in> lang edge \<longleftrightarrow> edgeLabel w" for w
    by (simp only: edge_def lang_head_star c edgeLabel_def)
  have m: "w \<in> lang middle \<longleftrightarrow> middleLabel w" for w
    by (simp only: middle_def lang_head_star c middleLabel_def)
  define pre where "pre = RCat (RCat edge (RLit CHR ''.'')) (RStar (RCat middle (RLit CHR ''.'')))"
  have pre: "w \<in> lang pre \<longleftrightarrow>
      (\<exists>a ls. edgeLabel a \<and> list_all middleLabel ls \<and> w = concat (map (\<lambda>l. l @ ''.'') (a # ls)))" for w
  proof -
    have "w \<in> lang pre \<longleftrightarrow> (\<exists>a v. edgeLabel a \<and> w = (a @ ''.'') @ v \<and>
        v \<in> lang (RStar (RCat middle (RLit CHR ''.''))))"
      unfolding pre_def lang_cat lang_lit e by blast
    also have "\<dots> \<longleftrightarrow> (\<exists>a ls. edgeLabel a \<and> set ls \<subseteq> lang middle \<and>
        w = concat (map (\<lambda>l. l @ ''.'') (a # ls)))"
      unfolding lang_star_terminated by auto
    also have "\<dots> \<longleftrightarrow> (\<exists>a ls. edgeLabel a \<and> list_all middleLabel ls \<and>
        w = concat (map (\<lambda>l. l @ ''.'') (a # ls)))"
      using m by (simp add: subset_iff list_all_iff Ball_def)
    finally show ?thesis .
  qed
  have re: "interfaceNameRe = RCat (ROpt pre) edge"
    by (simp add: interfaceNameRe_def Let_def pre_def edge_def middle_def hyph_def alnum_def alpha_def)
  have "MatchString interfaceNameRe s \<longleftrightarrow>
      edgeLabel s \<or> (\<exists>p b. p \<in> lang pre \<and> edgeLabel b \<and> s = p @ b)"
    unfolding MatchString_lang re lang_cat e ROpt_def lang.simps(2,4) by auto
  also have "(\<exists>p b. p \<in> lang pre \<and> edgeLabel b \<and> s = p @ b) \<longleftrightarrow>
     (\<exists>a ls b. edgeLabel a \<and> edgeLabel b \<and> list_all middleLabel ls \<and> s = Join ((a # ls) @ [b]) ''.'')"
    unfolding pre Join_snoc by blast
  finally show ?thesis by simp
qed

lemma interfaceNameRe_iff: "MatchString interfaceNameRe s \<longleftrightarrow> reverseDomain s"
proof
  assume "MatchString interfaceNameRe s"
  then consider "edgeLabel s" | a ls b where "edgeLabel a" "edgeLabel b" "list_all middleLabel ls"
    "s = Join (a # ls @ [b]) ''.''"
    unfolding interfaceNameRe_shape by blast
  then show "reverseDomain s"
  proof cases
    case 1
    then show ?thesis by (simp add: reverseDomain_def edgeLabel_no_dot)
  next
    case 2
    have "SplitByte CHR ''.'' s = a # ls @ [b]"
      unfolding 2(4) using 2(1-3) edgeLabel_no_dot middleLabel_no_dot
      by (intro SplitByte_Join) (auto simp: list_all_iff)
    with 2 show ?thesis by (simp add: reverseDomain_def)
  qed
next
  assume r: "reverseDomain s"
  obtain a t where s: "SplitByte CHR ''.'' s = a # t" by (cases "SplitByte CHR ''.'' s") auto
  then have j: "s = Join (a # t) ''.''" using Join_SplitByte by metis
  show "MatchString interfaceNameRe s"
  proof (cases t rule: rev_cases)
    case Nil
    with r s j show ?thesis by (simp add: reverseDomain_def interfaceNameRe_shape)
  next
    case (snoc ls b)
    with r s j show ?thesis unfolding interfaceNameRe_shape
      by (auto simp: reverseDomain_def butlast_append)
  qed
qed

definition nameChar :: "char \<Rightarrow> bool" where
  "nameChar c = (alnum_char c \<or> c = CHR ''.'' \<or> c = CHR ''-'')"

lemma label_chars: "edgeLabel l \<or> middleLabel l \<Longrightarrow> c \<in> set l \<Longrightarrow> nameChar c"
  by (cases l) (auto simp: edgeLabel_def middleLabel_def nameChar_def alnum_char_def list_all_iff)

lemma reverseDomain_labels:
  assumes "reverseDomain s" "l \<in> set (SplitByte CHR ''.'' s)"
  shows "edgeLabel l \<or> middleLabel l"
proof -
  obtain a t where s: "SplitByte CHR ''.'' s = a # t" by (cases "SplitByte CHR ''.'' s") auto
  with assms show ?thesis
    by (cases t rule: rev_cases) (auto simp: reverseDomain_def list_all_iff butlast_append)
qed

lemma interface_name_chars:
  assumes "MatchString interfaceNameRe s" "c \<in> set s"
  shows "nameChar c"
proof (cases "c = CHR ''.''")
  case False
  with assms SplitByte_covers obtain l where "l \<in> set (SplitByte CHR ''.'' s)" "c \<in> set l" by blast
  then show ?thesis using assms reverseDomain_labels label_chars by (auto simp: interfaceNameRe_iff)
qed (simp add: nameChar_def)

lemma nameChar_excludes:
  "\<not> nameChar CHR ''/''" "\<not> nameChar CHR ''+''" "\<not> nameChar CHR ''#''" "\<not> nameChar CHR '':''"
  "\<not> nameChar CHR '';''" "\<not> nameChar CHR ''%''"
  by (simp_all add: nameChar_def alnum_char_def alpha_char_def less_eq_char_def)

lemma interface_name_ne: "MatchString interfaceNameRe s \<Longrightarrow> s \<noteq> []"
  by (auto simp: interfaceNameRe_iff reverseDomain_def edgeLabel_def)


section \<open>Properties\<close>

text \<open>C13. ParseInterface accepts a document if and only if some interface satisfies the
  whole contract of a validated interface: an interface value is the result of a
  successful parse exactly when its name, versions, mapping count, per-type attributes,
  retention window, unambiguous endpoints and object shape are all in order.\<close>

theorem parse_interface_exact: "(\<exists>raw. ParseInterface raw = Inr i) \<longleftrightarrow> interface_ok i"
proof
  assume "\<exists>raw. ParseInterface raw = Inr i"
  then obtain raw raw' where "buildInterface raw = Inr (i, raw')"
    by (auto simp: ParseInterface_def ParseInterfaceCanonical_def)
  then show "interface_ok i" by (rule buildInterface_sound)
next
  assume "interface_ok i"
  then have "ParseInterface (document i) = Inr i"
    by (simp add: ParseInterface_def ParseInterfaceCanonical_def buildInterface_document)
  then show "\<exists>raw. ParseInterface raw = Inr i" ..
qed

text \<open>C23. Storing the canonical document is safe: whenever legacy alias fields were consumed,
  the canonical document parses to the same interface and needs no further normalisation.\<close>

theorem canonical_document_reparses:
  assumes "ParseInterfaceCanonical raw = Inr (i, Some canon)"
  shows "ParseInterfaceCanonical canon = Inr (i, None)"
proof -
  from assms obtain raw' where b: "buildInterface raw = Inr (i, raw')"
    and c: "canon = raw'\<lparr>ij_aliases := False\<rparr>"
    by (auto simp: ParseInterfaceCanonical_def split: if_splits)
  from buildInterface_canonical [OF b] show ?thesis
    by (simp add: ParseInterfaceCanonical_def c)
qed

definition aliasMapping :: mappingJSON where
  "aliasMapping = \<lparr>mj_Endpoint = None, mj_Path = Some ''/a'', mj_Type = Some Double,
     mj_Reliability = None, mj_Retention = None, mj_Expiry = None, mj_DatabaseRetentionPolicy = None,
     mj_DatabaseRetentionTTL = None, mj_AllowUnset = None, mj_ExplicitTimestamp = None,
     mj_Required = None, mj_Encrypted = None, mj_Description = [], mj_Doc = []\<rparr>"

definition aliasDocument :: interfaceJSON where
  "aliasDocument = \<lparr>ij_InterfaceName = Some ''a.B'', ij_VersionMajor = Some 1, ij_VersionMinor = Some 0,
     ij_Type = Some Datastream, ij_Ownership = None, ij_Quality = Some OwnershipDevice,
     ij_Aggregate = Some False, ij_Aggregation = None, ij_Description = [], ij_Doc = [],
     ij_Mappings = [aliasMapping], ij_aliases = False\<rparr>"

theorem canonical_document_reparses_witness:
  "\<exists>i canon. ParseInterfaceCanonical aliasDocument = Inr (i, Some canon) \<and>
     ParseInterfaceCanonical canon = Inr (i, None)"
proof -
  have "case ParseInterfaceCanonical aliasDocument of Inr (i, Some canon) \<Rightarrow> True | _ \<Rightarrow> False"
    by code_simp
  then obtain i canon where "ParseInterfaceCanonical aliasDocument = Inr (i, Some canon)"
    by (auto split: sum.splits option.splits prod.splits)
  then show ?thesis using canonical_document_reparses by blast
qed

text \<open>The name pattern of parse.go accepts exactly the reverse domain names: labels
  separated by dots, the first and the last starting with a letter and alphanumeric, the
  labels between starting with an alphanumeric byte and then allowing hyphens.\<close>

theorem interface_name_language: "MatchString interfaceNameRe s \<longleftrightarrow> reverseDomain s"
  by (rule interfaceNameRe_iff)

end
