(* ===== verification/Schema_Trie.thy ===== *)
theory Schema_Trie
  imports Schema_Parse
begin

text \<open>
  Model of pkg/interfaceschema/trie.go.  A trie node holds its literal children as a
  map, its single parametric child with the placeholder name, and a mapping.  The
  lemmas describe a trie by the table of patterns it holds: Add extends the table or
  refuses and leaves it alone, and Match finds a mapping exactly when some pattern of
  the table matches the levels of the path.  The locale pattern_table is the contract
  Compile relies on.
\<close>

section \<open>Data\<close>

definition MaxPlaceholderValueLen :: nat where "MaxPlaceholderValueLen = 256"

text \<open>CompiledMapping; durations are int64 nanoseconds.\<close>

record CompiledMapping =
  cm_EndpointID :: int
  cm_ValueType :: ValueType
  cm_Reliability :: byte
  cm_Retention :: Retention
  cm_Expiry :: int64
  cm_ExplicitTimestamp :: bool
  cm_AllowUnset :: bool
  cm_DBRetentionTTL :: int64
  cm_Required :: bool
  cm_Encrypted :: bool

datatype trieNode = TrieNode
  (tn_children: "string \<Rightarrow> trieNode option")
  (tn_param: "trieNode option")
  (tn_paramName: string)
  (tn_mapping: "CompiledMapping option")

datatype trie_error =
    AddNilMapping string
  | AddEndpoint schema_error
  | AddPlaceholderConflict string string string
  | AddDuplicate string

definition emptyNode :: trieNode where
  "emptyNode = TrieNode (\<lambda>_. None) None [] None"

definition NewEndpointTrie :: trieNode where
  "NewEndpointTrie = emptyNode"

section \<open>Insertion\<close>

text \<open>The walk of EndpointTrie.Add from a node: the error, and the node after the walk.
  Nodes created before a failing step stay in the trie.\<close>

fun addSegs :: "string \<Rightarrow> endpointSegment list \<Rightarrow> CompiledMapping \<Rightarrow> trieNode \<Rightarrow> trie_error option \<times> trieNode" where
  "addSegs ep [] m (TrieNode ch p pn mp) =
    (case mp of
       Some _ \<Rightarrow> (Some (AddDuplicate ep), TrieNode ch p pn mp)
     | None \<Rightarrow> (None, TrieNode ch p pn (Some m)))"
| "addSegs ep (seg # segs) m (TrieNode ch p pn mp) =
    (if es_param seg then
       (case p of
          None \<Rightarrow>
            (let (e, c) = addSegs ep segs m emptyNode
             in (e, TrieNode ch (Some c) (es_literal seg) mp))
        | Some c0 \<Rightarrow>
            if pn \<noteq> es_literal seg
            then (Some (AddPlaceholderConflict ep (es_literal seg) pn), TrieNode ch p pn mp)
            else (let (e, c) = addSegs ep segs m c0 in (e, TrieNode ch (Some c) pn mp)))
     else
       (let c0 = (case ch (es_literal seg) of Some c \<Rightarrow> c | None \<Rightarrow> emptyNode);
            (e, c) = addSegs ep segs m c0
        in (e, TrieNode (ch(es_literal seg \<mapsto> c)) p pn mp)))"

definition Add :: "trieNode \<Rightarrow> string \<Rightarrow> CompiledMapping option \<Rightarrow> trie_error option \<times> trieNode" where
  "Add t endpoint mo =
    (case mo of
       None \<Rightarrow> (Some (AddNilMapping endpoint), t)
     | Some m \<Rightarrow>
        (case splitEndpoint endpoint of
           Inl e \<Rightarrow> (Some (AddEndpoint e), t)
         | Inr segs \<Rightarrow> addSegs endpoint segs m t))"

section \<open>Matching\<close>

definition placeholderValueOK :: "string \<Rightarrow> bool" where
  "placeholderValueOK seg =
    (if length seg > MaxPlaceholderValueLen then False
     else IndexByte seg CHR ''+'' = None \<and> IndexByte seg CHR ''#'' = None)"

text \<open>The cut at the head of matchNode: segment, tail, and whether it was the last one.\<close>

definition cutLevel :: "string \<Rightarrow> string \<times> string \<times> bool" where
  "cutLevel rest = (case IndexByte rest CHR ''/'' of
      None \<Rightarrow> (rest, [], True)
    | Some i \<Rightarrow> (take i rest, drop (Suc i) rest, False))"

lemma cutLevel_shorter: "cutLevel rest = (seg, tail, False) \<Longrightarrow> length tail < length rest"
  by (auto simp: cutLevel_def IndexByte_Some_iff split: option.splits)

function matchNode :: "trieNode \<Rightarrow> string \<Rightarrow> CompiledMapping option" where
  "matchNode n rest =
    (case cutLevel rest of (seg, tail, isLast) \<Rightarrow>
      if seg = [] then None
      else
        (case (case tn_children n seg of
                 None \<Rightarrow> None
               | Some child \<Rightarrow> if isLast then tn_mapping child else matchNode child tail) of
           Some m \<Rightarrow> Some m
         | None \<Rightarrow>
            (case tn_param n of
               None \<Rightarrow> None
             | Some p \<Rightarrow>
                if placeholderValueOK seg
                then (if isLast then tn_mapping p else matchNode p tail)
                else None)))"
  by auto
termination
  by (relation "measure (\<lambda>(n, r). length r)") (auto dest: cutLevel_shorter [OF sym])

declare matchNode.simps [simp del]

text \<open>EndpointTrie.Match; a nil trie is None.\<close>

definition Match :: "trieNode option \<Rightarrow> string \<Rightarrow> CompiledMapping option" where
  "Match t path =
    (case t of
       None \<Rightarrow> None
     | Some root \<Rightarrow>
        if length path < 2 \<or> path ! 0 \<noteq> CHR ''/'' then None
        else matchNode root (drop 1 path))"

section \<open>The trie as a table of patterns\<close>

text \<open>Looking a declared pattern up, placeholder names ignored.\<close>

fun lookupPattern :: "trieNode \<Rightarrow> endpointSegment list \<Rightarrow> CompiledMapping option" where
  "lookupPattern n [] = tn_mapping n"
| "lookupPattern n (s # ss) =
    (case (if es_param s then tn_param n else tn_children n (es_literal s)) of
       None \<Rightarrow> None
     | Some c \<Rightarrow> lookupPattern c ss)"

lemma lookupPattern_empty [simp]: "lookupPattern emptyNode q = None"
  by (cases q) (auto simp: emptyNode_def)

lemma lookupPattern_shape: "sameShape a b \<Longrightarrow> lookupPattern n a = lookupPattern n b"
proof (induction a arbitrary: b n)
  case (Cons s ss)
  then obtain t ts where b: "b = t # ts" "sameLevel s t" "sameShape ss ts"
    by (auto simp: list_all2_Cons1)
  then have "(if es_param s then tn_param n else tn_children n (es_literal s)) =
      (if es_param t then tn_param n else tn_children n (es_literal t))"
    by (auto simp: sameLevel_def)
  then show ?case using Cons.IH [OF b(3)] b(1) by (auto split: option.splits)
qed simp

lemma addSegs_fail:
  "addSegs ep segs m n = (Some e, n') \<Longrightarrow> lookupPattern n' q = lookupPattern n q"
proof (induction ep segs m n arbitrary: n' q e rule: addSegs.induct)
  case (1 ep m ch p pn mp)
  then show ?case by (auto split: option.splits)
next
  case (2 ep seg segs m ch p pn mp)
  show ?case
  proof (cases "es_param seg")
    case True
    note param = True
    show ?thesis
    proof (cases p)
      case None
      obtain e' c where r: "addSegs ep segs m emptyNode = (e', c)" by (cases "addSegs ep segs m emptyNode")
      with 2(4) param None have n': "e' = Some e" "n' = TrieNode ch (Some c) (es_literal seg) mp" by auto
      have "lookupPattern c q' = None" for q'
        using 2(1) [OF param None] r n' by (metis lookupPattern_empty)
      then show ?thesis using n' None by (cases q) auto
    next
      case (Some c0)
      show ?thesis
      proof (cases "pn = es_literal seg")
        case True
        obtain e' c where r: "addSegs ep segs m c0 = (e', c)" by (cases "addSegs ep segs m c0")
        with 2(4) param Some True have n': "e' = Some e" "n' = TrieNode ch (Some c) pn mp" by auto
        have "lookupPattern c q' = lookupPattern c0 q'" for q'
          using 2(2) [OF param Some] True r n' by blast
        then show ?thesis using n' Some by (cases q) auto
      qed (use 2(4) param Some in auto)
    qed
  next
    case False
    define c0 where "c0 = (case ch (es_literal seg) of Some c \<Rightarrow> c | None \<Rightarrow> emptyNode)"
    obtain e' c where r: "addSegs ep segs m c0 = (e', c)" by (cases "addSegs ep segs m c0")
    with 2(4) False have n': "e' = Some e" "n' = TrieNode (ch(es_literal seg \<mapsto> c)) p pn mp"
      by (auto simp: c0_def Let_def)
    have l: "lookupPattern c q' = lookupPattern c0 q'" for q'
      using 2(3) [OF False c0_def] r n' by blast
    then show ?thesis using n'
      by (cases q) (auto simp: c0_def l split: option.splits)
  qed
qed

lemma addSegs_ok:
  "addSegs ep segs m n = (None, n') \<Longrightarrow>
   lookupPattern n segs = None \<and>
   lookupPattern n' q = (if sameShape segs q then Some m else lookupPattern n q)"
proof (induction ep segs m n arbitrary: n' q rule: addSegs.induct)
  case (1 ep m ch p pn mp)
  then show ?case by (cases q) (auto split: option.splits)
next
  case (2 ep seg segs m ch p pn mp)
  show ?case
  proof (cases "es_param seg")
    case True
    note param = True
    show ?thesis
    proof (cases p)
      case None
      obtain e' c where r: "addSegs ep segs m emptyNode = (e', c)" by (cases "addSegs ep segs m emptyNode")
      with 2(4) param None have n': "e' = None" "n' = TrieNode ch (Some c) (es_literal seg) mp" by auto
      have "lookupPattern c q' = (if sameShape segs q' then Some m else None)" for q'
        using 2(1) [OF param None] r n' by (metis lookupPattern_empty)
      then show ?thesis using n' None param
        by (cases q) (auto simp: sameLevel_def [of seg])
    next
      case (Some c0)
      with 2(4) param have pn: "pn = es_literal seg" by (auto split: if_splits)
      obtain e' c where r: "addSegs ep segs m c0 = (e', c)" by (cases "addSegs ep segs m c0")
      with 2(4) param Some pn have n': "e' = None" "n' = TrieNode ch (Some c) pn mp" by auto
      have "lookupPattern c0 segs = None"
        "lookupPattern c q' = (if sameShape segs q' then Some m else lookupPattern c0 q')" for q'
        using 2(2) [OF param Some] pn r n' by blast+
      then show ?thesis using n' Some param
        by (cases q) (auto simp: sameLevel_def [of seg])
    qed
  next
    case False
    define c0 where "c0 = (case ch (es_literal seg) of Some c \<Rightarrow> c | None \<Rightarrow> emptyNode)"
    obtain e' c where r: "addSegs ep segs m c0 = (e', c)" by (cases "addSegs ep segs m c0")
    with 2(4) False have n': "e' = None" "n' = TrieNode (ch(es_literal seg \<mapsto> c)) p pn mp"
      by (auto simp: c0_def Let_def)
    have l: "lookupPattern c0 segs = None"
      "lookupPattern c q' = (if sameShape segs q' then Some m else lookupPattern c0 q')" for q'
      using 2(3) [OF False c0_def] r n' by blast+
    have c: "ch (es_literal seg) = Some c1 \<Longrightarrow> c0 = c1" "ch (es_literal seg) = None \<Longrightarrow> c0 = emptyNode" for c1
      by (simp_all add: c0_def)
    have "lookupPattern (TrieNode ch p pn mp) (seg # segs) = None"
      using l(1) c False by (auto split: option.splits)
    moreover have "lookupPattern n' q =
        (if sameShape (seg # segs) q then Some m else lookupPattern (TrieNode ch p pn mp) q)"
      unfolding n'(2) using l(2) c False
      by (cases q) (auto simp: sameLevel_def [of seg] split: option.splits)
    ultimately show ?thesis by simp
  qed
qed

section \<open>Matching against patterns\<close>

definition segMatches :: "endpointSegment \<Rightarrow> string \<Rightarrow> bool" where
  "segMatches s p = (p \<noteq> [] \<and> (if es_param s then placeholderValueOK p else es_literal s = p))"

abbreviation pathMatches :: "endpointSegment list \<Rightarrow> string list \<Rightarrow> bool" where
  "pathMatches \<equiv> list_all2 segMatches"

text \<open>The search of matchNode on a path already cut into its levels.\<close>

fun matchSegs :: "trieNode \<Rightarrow> string list \<Rightarrow> CompiledMapping option" where
  "matchSegs n [] = tn_mapping n"
| "matchSegs n (p # ps) =
    (if p = [] then None
     else case (case tn_children n p of None \<Rightarrow> None | Some c \<Rightarrow> matchSegs c ps) of
       Some m \<Rightarrow> Some m
     | None \<Rightarrow>
        (case tn_param n of
           None \<Rightarrow> None
         | Some c \<Rightarrow> if placeholderValueOK p then matchSegs c ps else None))"

lemma cutLevel_cases:
  obtains (final) "cutLevel rest = (rest, [], True)" "SplitByte CHR ''/'' rest = [rest]"
  | (more) seg tail where "cutLevel rest = (seg, tail, False)"
      "SplitByte CHR ''/'' rest = seg # SplitByte CHR ''/'' tail"
proof (cases "IndexByte rest CHR ''/''")
  case None
  then show ?thesis using final by (auto simp: cutLevel_def IndexByte_None)
next
  case (Some i)
  then obtain a b where "rest = a @ CHR ''/'' # b" "CHR ''/'' \<notin> set a" by (rule IndexByte_split)
  then show ?thesis using more by (simp add: cutLevel_def IndexByte_app SplitByte_app)
qed

lemma matchNode_segs: "matchNode n rest = matchSegs n (SplitByte CHR ''/'' rest)"
proof (induction n rest rule: matchNode.induct)
  case (1 n rest)
  show ?case
  proof (cases rest rule: cutLevel_cases)
    case final
    then show ?thesis by (subst matchNode.simps) (simp split: option.split)
  next
    case (more seg tail)
    show ?thesis
    proof (cases "seg = []")
      case False
      have a: "matchNode c tail = matchSegs c (SplitByte CHR ''/'' tail)"
        if "tn_children n seg = Some c" for c
        using 1(1) [OF more(1) [symmetric] refl False that] by simp
      have b: "matchNode p tail = matchSegs p (SplitByte CHR ''/'' tail)"
        if "tn_param n = Some p" "placeholderValueOK seg"
          "(case tn_children n seg of None \<Rightarrow> None | Some child \<Rightarrow> matchNode child tail) = None" for p
        using 1(2) [OF more(1) [symmetric] refl False _ that(1,2)] that(3) by (simp only: if_False simp_thms)
      show ?thesis
        using False a b by (subst matchNode.simps) (auto simp: more split: option.splits)
    qed (subst matchNode.simps, simp add: more)
  qed
qed

lemma matchSegs_sound:
  "matchSegs n ps = Some m \<Longrightarrow> \<exists>q. pathMatches q ps \<and> lookupPattern n q = Some m"
proof (induction n ps rule: matchSegs.induct)
  case (2 n p ps)
  from 2(3) have p: "p \<noteq> []" by (auto split: if_splits)
  consider c where "tn_children n p = Some c" "matchSegs c ps = Some m"
    | c where "tn_param n = Some c" "placeholderValueOK p" "matchSegs c ps = Some m"
      "(case tn_children n p of None \<Rightarrow> None | Some c \<Rightarrow> matchSegs c ps) = None"
    using 2(3) p by (auto split: option.splits if_splits)
  then show ?case
  proof cases
    case 1
    then obtain q where q: "pathMatches q ps" "lookupPattern c q = Some m" using 2(1) p by blast
    then show ?thesis using 1 p
      by (intro exI [of _ "\<lparr>es_literal = p, es_param = False\<rparr> # q"]) (simp add: segMatches_def [where p = p])
  next
    case c: 2
    then obtain q where q: "pathMatches q ps" "lookupPattern c q = Some m" using 2(2) p by blast
    then show ?thesis using c p
      by (intro exI [of _ "\<lparr>es_literal = p, es_param = True\<rparr> # q"]) (simp add: segMatches_def [where p = p])
  qed
qed simp

lemma matchSegs_complete:
  "pathMatches q ps \<Longrightarrow> lookupPattern n q = Some m \<Longrightarrow> \<exists>m'. matchSegs n ps = Some m'"
proof (induction q arbitrary: ps n)
  case (Cons s q)
  then obtain p ps' where ps: "ps = p # ps'" "segMatches s p" "pathMatches q ps'"
    by (auto simp: list_all2_Cons1)
  obtain c where c: "(if es_param s then tn_param n else tn_children n (es_literal s)) = Some c"
    "lookupPattern c q = Some m"
    using Cons.prems(2) by (auto split: option.splits)
  obtain m' where "matchSegs c ps' = Some m'" using Cons.IH [OF ps(3) c(2)] by blast
  then show ?case using ps c by (auto simp: segMatches_def split: if_splits option.splits)
qed simp

lemma segMatches_meet: "segMatches a p \<Longrightarrow> segMatches b p \<Longrightarrow> levelsMeet a b"
  by (auto simp: segMatches_def levelsMeet_def split: if_splits)

lemma pathMatches_overlaps: "pathMatches a ps \<Longrightarrow> pathMatches b ps \<Longrightarrow> overlaps a b"
  by (simp add: list_all2_conv_all_nth) (metis segMatches_meet)

lemma segMatches_shape: "sameLevel a b \<Longrightarrow> segMatches a p = segMatches b p"
  by (auto simp: sameLevel_def segMatches_def)

lemma pathMatches_shape:
  assumes "sameShape a b"
  shows "pathMatches a ps = pathMatches b ps"
proof -
  have "segMatches (a ! i) (ps ! i) = segMatches (b ! i) (ps ! i)" if "i < length a" for i
    using assms that by (intro segMatches_shape) (simp add: list_all2_conv_all_nth)
  moreover have "length a = length b" using assms by (rule list_all2_lengthD)
  ultimately show ?thesis by (simp add: list_all2_conv_all_nth)
qed

section \<open>Placeholder names in the trie\<close>

fun nodeName :: "trieNode \<Rightarrow> endpointSegment list \<Rightarrow> string option" where
  "nodeName n [] = (case tn_param n of None \<Rightarrow> None | Some _ \<Rightarrow> Some (tn_paramName n))"
| "nodeName n (s # ss) =
    (case (if es_param s then tn_param n else tn_children n (es_literal s)) of
       None \<Rightarrow> None
     | Some c \<Rightarrow> nodeName c ss)"

text \<open>The placeholder name a pattern declares after a prefix.\<close>

fun nameAfter :: "endpointSegment list \<Rightarrow> endpointSegment list \<Rightarrow> string option" where
  "nameAfter (s # ss) [] = (if es_param s then Some (es_literal s) else None)"
| "nameAfter (s # ss) (q # qs) = (if sameLevel s q then nameAfter ss qs else None)"
| "nameAfter [] _ = None"

fun namesAgree :: "endpointSegment list \<Rightarrow> endpointSegment list \<Rightarrow> bool" where
  "namesAgree (a # as) (b # bs) =
    (if es_param a \<and> es_param b then es_literal a = es_literal b \<and> namesAgree as bs
     else if sameLevel a b then namesAgree as bs else True)"
| "namesAgree _ _ = True"

lemma sameLevel_cong: "sameLevel a b \<Longrightarrow> sameLevel a c = sameLevel b c"
  by (auto simp: sameLevel_def)

lemma namesAgree_sound:
  "namesAgree a b \<Longrightarrow> nameAfter a q = Some x \<Longrightarrow> nameAfter b q = Some y \<Longrightarrow> x = y"
proof (induction a b arbitrary: q rule: namesAgree.induct)
  case (1 a as b bs)
  show ?case
  proof (cases q)
    case Nil
    then show ?thesis using 1 by (auto split: if_splits)
  next
    case (Cons c cs)
    then have c: "sameLevel a c" "sameLevel b c" "nameAfter as cs = Some x" "nameAfter bs cs = Some y"
      using 1 by (auto split: if_splits)
    then have "sameLevel a b" using sameLevel_equiv by blast
    then have "namesAgree as bs" using 1(3) by (auto split: if_splits)
    then show ?thesis using 1(1,2) c(3,4) \<open>sameLevel a b\<close> by blast
  qed
qed auto

lemma namesAgree_complete:
  "(\<And>q x y. nameAfter a q = Some x \<Longrightarrow> nameAfter b q = Some y \<Longrightarrow> x = y) \<Longrightarrow> namesAgree a b"
proof (induction a b rule: namesAgree.induct)
  case (1 a as b bs)
  have step: "namesAgree as bs" if "sameLevel a b"
  proof -
    have "x = y" if "nameAfter as q = Some x" "nameAfter bs q = Some y" for q x y
      using 1(3) [of "a # q" x y] that sameLevel_equiv(1) [of a] sameLevel_equiv(2) [OF \<open>sameLevel a b\<close>]
      by simp
    then show ?thesis using 1(1,2) that by blast
  qed
  have "es_literal a = es_literal b" if "es_param a" "es_param b"
    using 1(3) [of "[]"] that by simp
  moreover have "sameLevel a b" if "es_param a" "es_param b" using that by (simp add: sameLevel_def)
  ultimately show ?case using step by auto
qed simp_all

lemma namesAgree_sym: "namesAgree a b \<Longrightarrow> namesAgree b a"
  by (metis namesAgree_complete namesAgree_sound)

lemma nodeName_empty [simp]: "nodeName emptyNode q = None"
  by (cases q) (auto simp: emptyNode_def)

lemma nodeName_Cons: "nodeName n (s # ss) =
    (case (if es_param s then tn_param n else tn_children n (es_literal s)) of
       None \<Rightarrow> None | Some c \<Rightarrow> nodeName c ss)"
  by simp

lemma addSegs_names:
  "addSegs ep segs m n = (None, n') \<Longrightarrow>
   nodeName n' q = (case nodeName n q of Some x \<Rightarrow> Some x | None \<Rightarrow> nameAfter segs q)"
proof (induction ep segs m n arbitrary: n' q rule: addSegs.induct)
  case (1 ep m ch p pn mp)
  then show ?case by (cases q) (auto split: option.splits)
next
  case (2 ep seg segs m ch p pn mp)
  show ?case
  proof (cases "es_param seg")
    case True
    note param = True
    show ?thesis
    proof (cases p)
      case None
      obtain e' c where r: "addSegs ep segs m emptyNode = (e', c)" by (cases "addSegs ep segs m emptyNode")
      with 2(4) param None have n': "e' = None" "n' = TrieNode ch (Some c) (es_literal seg) mp" by auto
      have "nodeName c q' = nameAfter segs q'" for q'
        using 2(1) [OF param None] r n' by simp
      then show ?thesis using n' None param
        by (cases q) (auto simp: sameLevel_def [of seg] split: option.splits)
    next
      case (Some c0)
      with 2(4) param have pn: "pn = es_literal seg" by (auto split: if_splits)
      obtain e' c where r: "addSegs ep segs m c0 = (e', c)" by (cases "addSegs ep segs m c0")
      with 2(4) param Some pn have n': "e' = None" "n' = TrieNode ch (Some c) pn mp" by auto
      have "nodeName c q' = (case nodeName c0 q' of Some x \<Rightarrow> Some x | None \<Rightarrow> nameAfter segs q')" for q'
        using 2(2) [OF param Some] pn r n' by blast
      then show ?thesis using n' Some param
        by (cases q) (auto simp: sameLevel_def [of seg] split: option.splits)
    qed
  next
    case False
    define c0 where "c0 = (case ch (es_literal seg) of Some c \<Rightarrow> c | None \<Rightarrow> emptyNode)"
    obtain e' c where r: "addSegs ep segs m c0 = (e', c)" by (cases "addSegs ep segs m c0")
    with 2(4) False have n': "e' = None" "n' = TrieNode (ch(es_literal seg \<mapsto> c)) p pn mp"
      by (auto simp: c0_def Let_def)
    have l: "nodeName c q' = (case nodeName c0 q' of Some x \<Rightarrow> Some x | None \<Rightarrow> nameAfter segs q')" for q'
      using 2(3) [OF False c0_def] r n' by blast
    have c: "ch (es_literal seg) = Some c1 \<Longrightarrow> c0 = c1" "ch (es_literal seg) = None \<Longrightarrow> c0 = emptyNode" for c1
      by (simp_all add: c0_def)
    show ?thesis unfolding n'(2) using l c False
      by (cases q) (auto simp: sameLevel_def [of seg] split: option.splits)
  qed
qed

text \<open>What an insertion needs: the pattern is new, and the placeholder names along it agree
  with those already in the trie.\<close>

definition insertable :: "trieNode \<Rightarrow> endpointSegment list \<Rightarrow> bool" where
  "insertable n segs = (lookupPattern n segs = None \<and>
     (\<forall>q x y. nodeName n q = Some x \<longrightarrow> nameAfter segs q = Some y \<longrightarrow> x = y))"

lemma insertable_empty [simp]: "insertable emptyNode segs"
  by (simp add: insertable_def)

lemma insertable_child:
  assumes "insertable n (seg # segs)"
    and "(if es_param seg then tn_param n else tn_children n (es_literal seg)) = Some c"
  shows "insertable c segs"
proof -
  have "x = y" if "nodeName c q = Some x" "nameAfter segs q = Some y" for q x y
  proof -
    have "nodeName n (seg # q) = Some x" using assms(2) that by simp
    moreover have "nameAfter (seg # segs) (seg # q) = Some y" using that sameLevel_equiv(1) by simp
    ultimately show ?thesis using assms(1) unfolding insertable_def by blast
  qed
  moreover have "lookupPattern c segs = None" using assms by (simp add: insertable_def)
  ultimately show ?thesis by (simp add: insertable_def)
qed

lemma insertable_name:
  assumes "insertable n (seg # segs)" "es_param seg" "tn_param n = Some c"
  shows "tn_paramName n = es_literal seg"
proof -
  have "nodeName n [] = Some (tn_paramName n)" "nameAfter (seg # segs) [] = Some (es_literal seg)"
    using assms by auto
  then show ?thesis using assms(1) unfolding insertable_def by blast
qed

lemma addSegs_insertable: "insertable n segs \<Longrightarrow> fst (addSegs ep segs m n) = None"
proof (induction ep segs m n rule: addSegs.induct)
  case (1 ep m ch p pn mp)
  then show ?case by (auto simp: insertable_def split: option.splits)
next
  case (2 ep seg segs m ch p pn mp)
  show ?case
  proof (cases "es_param seg")
    case True
    then show ?thesis
    proof (cases p)
      case None
      then show ?thesis using 2(1) [OF True None] True by (simp add: case_prod_beta)
    next
      case (Some c0)
      have "pn = es_literal seg" using insertable_name [OF 2(4) True] Some by simp
      then show ?thesis using 2(2) [OF True Some] True Some insertable_child [OF 2(4), of c0]
        by (simp add: case_prod_beta)
    qed
  next
    case False
    define c0 where "c0 = (case ch (es_literal seg) of Some c \<Rightarrow> c | None \<Rightarrow> emptyNode)"
    have "insertable c0 segs"
      using insertable_child [OF 2(4)] False by (auto simp: c0_def split: option.splits)
    then show ?thesis using 2(3) [OF False c0_def] False by (simp add: case_prod_beta Let_def c0_def)
  qed
qed

lemma addSegs_conflict:
  "nodeName n q = Some x \<Longrightarrow> nameAfter segs q = Some y \<Longrightarrow> x \<noteq> y \<Longrightarrow> fst (addSegs ep segs m n) \<noteq> None"
proof (induction ep segs m n arbitrary: q rule: addSegs.induct)
  case (2 ep seg segs m ch p pn mp)
  show ?case
  proof (cases q)
    case Nil
    then show ?thesis using 2(4-6) by (auto split: option.splits if_splits)
  next
    case (Cons s q')
    then have s: "sameLevel seg s" "nameAfter segs q' = Some y" using 2(5) by (auto split: if_splits)
    show ?thesis
    proof (cases "es_param seg")
      case True
      with s have sp: "es_param s" by (simp add: sameLevel_def)
      show ?thesis
      proof (cases p)
        case None
        then show ?thesis using 2(4) Cons sp by simp
      next
        case (Some c0)
        then have "nodeName c0 q' = Some x" using 2(4) Cons sp by simp
        then show ?thesis using 2(2) [OF True Some, of q'] s True Some 2(6)
          by (auto simp: case_prod_beta)
      qed
    next
      case False
      with s have sp: "\<not> es_param s" "es_literal s = es_literal seg" by (auto simp: sameLevel_def)
      then obtain c0 where c0: "ch (es_literal seg) = Some c0" "nodeName c0 q' = Some x"
        using 2(4) Cons by (auto split: option.splits)
      then show ?thesis using 2(3) [OF False refl, of q'] s False 2(6)
        by (simp add: case_prod_beta Let_def)
    qed
  qed
qed simp

lemma addSegs_succeeds_iff: "fst (addSegs ep segs m n) = None \<longleftrightarrow> insertable n segs"
proof
  assume h: "fst (addSegs ep segs m n) = None"
  then obtain n' where "addSegs ep segs m n = (None, n')" by (cases "addSegs ep segs m n") auto
  then have "lookupPattern n segs = None" using addSegs_ok by blast
  then show "insertable n segs" using addSegs_conflict h unfolding insertable_def by blast
qed (rule addSegs_insertable)

section \<open>Matching depends on the table only\<close>

lemma matchSegs_none: "(\<And>q. lookupPattern n q = None) \<Longrightarrow> matchSegs n ps = None"
  using matchSegs_sound by (metis option.exhaust option.simps(3))

lemma branch_cong:
  assumes IH: "\<And>c c'. (\<And>q. lookupPattern c q = lookupPattern c' q) \<Longrightarrow> matchSegs c ps = matchSegs c' ps"
    and eq: "\<And>q. (case a of None \<Rightarrow> None | Some c \<Rightarrow> lookupPattern c q) =
        (case b of None \<Rightarrow> None | Some c \<Rightarrow> lookupPattern c q)"
  shows "(case a of None \<Rightarrow> None | Some c \<Rightarrow> matchSegs c ps) =
      (case b of None \<Rightarrow> None | Some c \<Rightarrow> matchSegs c ps)"
proof (cases a; cases b)
  show ?thesis if "a = None" "b = None" using that by simp
  show ?thesis if "a = None" "b = Some c" for c
    using that matchSegs_none [of c ps] eq by simp
  show ?thesis if "a = Some c" "b = None" for c
    using that matchSegs_none [of c ps] eq by simp
  show ?thesis if "a = Some c" "b = Some d" for c d
    using that IH [of c d] eq by simp
qed

lemma matchSegs_cong:
  "(\<And>q. lookupPattern n q = lookupPattern n' q) \<Longrightarrow> matchSegs n ps = matchSegs n' ps"
proof (induction ps arbitrary: n n')
  case Nil
  from Nil [of "[]"] show ?case by simp
next
  case (Cons p ps)
  have l: "(case tn_children n p of None \<Rightarrow> None | Some c \<Rightarrow> lookupPattern c q) =
      (case tn_children n' p of None \<Rightarrow> None | Some c \<Rightarrow> lookupPattern c q)" for q
    using Cons.prems [of "\<lparr>es_literal = p, es_param = False\<rparr> # q"] by simp
  have r: "(case tn_param n of None \<Rightarrow> None | Some c \<Rightarrow> lookupPattern c q) =
      (case tn_param n' of None \<Rightarrow> None | Some c \<Rightarrow> lookupPattern c q)" for q
    using Cons.prems [of "\<lparr>es_literal = p, es_param = True\<rparr> # q"] by simp
  have f: "(case t of None \<Rightarrow> None | Some c \<Rightarrow> if placeholderValueOK p then matchSegs c ps else None) =
      (if placeholderValueOK p then (case t of None \<Rightarrow> None | Some c \<Rightarrow> matchSegs c ps) else None)" for t
    by (simp split: option.split)
  have "(case tn_children n p of None \<Rightarrow> None | Some c \<Rightarrow> matchSegs c ps) =
      (case tn_children n' p of None \<Rightarrow> None | Some c \<Rightarrow> matchSegs c ps)"
    by (rule branch_cong [OF Cons.IH l])
  moreover have "(case tn_param n of None \<Rightarrow> None | Some c \<Rightarrow> matchSegs c ps) =
      (case tn_param n' of None \<Rightarrow> None | Some c \<Rightarrow> matchSegs c ps)"
    by (rule branch_cong [OF Cons.IH r])
  ultimately show ?case unfolding matchSegs.simps f by (simp only:)
qed

section \<open>The trie as a provider of pattern tables\<close>

text \<open>Adding a list of patterns one after the other, stopping at the first refusal.\<close>

fun addAll ::
  "(string \<Rightarrow> endpointSegment list \<Rightarrow> 'v \<Rightarrow> 't \<Rightarrow> 'e option \<times> 't) \<Rightarrow> 't \<Rightarrow>
   (string \<times> endpointSegment list \<times> 'v) list \<Rightarrow> 't option" where
  "addAll add t [] = Some t"
| "addAll add t ((ep, segs, v) # xs) =
    (case add ep segs v t of (None, t') \<Rightarrow> addAll add t' xs | (Some e, t') \<Rightarrow> None)"

locale pattern_table =
  fixes empty :: 't
    and add :: "string \<Rightarrow> endpointSegment list \<Rightarrow> 'v \<Rightarrow> 't \<Rightarrow> 'e option \<times> 't"
    and lookup :: "'t \<Rightarrow> endpointSegment list \<Rightarrow> 'v option"
  assumes lookup_empty: "lookup empty q = None"
    and lookup_shape: "sameShape a b \<Longrightarrow> lookup t a = lookup t b"
    and add_fresh: "add ep segs v t = (None, t') \<Longrightarrow> lookup t segs = None"
    and add_lookup: "add ep segs v t = (None, t') \<Longrightarrow>
      lookup t' q = (if sameShape segs q then Some v else lookup t q)"
    and add_refused: "add ep segs v t = (Some e, t') \<Longrightarrow> lookup t' q = lookup t q"
begin

lemma addAll_step:
  assumes "addAll add t ((ep, segs, w) # xs) = Some t'"
  obtains t1 where "add ep segs w t = (None, t1)" "addAll add t1 xs = Some t'"
proof (cases "add ep segs w t")
  case (Pair o1 t1)
  with assms that show ?thesis by (cases o1) simp_all
qed

lemma addAll_keeps:
  "addAll add t xs = Some t' \<Longrightarrow> lookup t q = Some v \<Longrightarrow>
   lookup t' q = Some v \<and> (\<forall>x\<in>set xs. \<not> sameShape (fst (snd x)) q)"
proof (induction xs arbitrary: t)
  case (Cons x xs)
  obtain ep segs w where x: "x = (ep, segs, w)" by (cases x)
  with Cons.prems obtain t1 where t1: "add ep segs w t = (None, t1)" "addAll add t1 xs = Some t'"
    using addAll_step [of t ep segs w xs t'] by blast
  have "\<not> sameShape segs q" using add_fresh [OF t1(1)] lookup_shape Cons.prems(2) by fastforce
  then have "lookup t1 q = Some v" using add_lookup [OF t1(1)] Cons.prems(2) by simp
  then show ?case using Cons.IH [OF t1(2)] \<open>\<not> sameShape segs q\<close> x by simp
qed simp

lemma addAll_lookup:
  "addAll add t xs = Some t' \<Longrightarrow>
   lookup t' q = Some v \<longleftrightarrow> lookup t q = Some v \<or> (\<exists>ep segs. (ep, segs, v) \<in> set xs \<and> sameShape segs q)"
proof (induction xs arbitrary: t)
  case (Cons x xs)
  obtain ep segs w where x: "x = (ep, segs, w)" by (cases x)
  with Cons.prems obtain t1 where t1: "add ep segs w t = (None, t1)" "addAll add t1 xs = Some t'"
    using addAll_step [of t ep segs w xs t'] by blast
  show ?case
  proof (cases "sameShape segs q")
    case True
    then have l: "lookup t1 q = Some w" using add_lookup [OF t1(1)] by simp
    have n: "lookup t q = None" using add_fresh [OF t1(1)] lookup_shape True by fastforce
    show ?thesis using addAll_keeps [OF t1(2) l] n True x by force
  next
    case False
    then show ?thesis using Cons.IH [OF t1(2)] add_lookup [OF t1(1)] x by auto
  qed
qed simp

lemma addAll_table:
  "addAll add empty xs = Some t \<Longrightarrow>
   lookup t q = Some v \<longleftrightarrow> (\<exists>ep segs. (ep, segs, v) \<in> set xs \<and> sameShape segs q)"
  using addAll_lookup [of empty xs t q v] by (simp add: lookup_empty)

end

interpretation trie: pattern_table NewEndpointTrie addSegs lookupPattern
proof
  show "lookupPattern NewEndpointTrie q = None" for q by (simp add: NewEndpointTrie_def)
  show "sameShape a b \<Longrightarrow> lookupPattern t a = lookupPattern t b" for a b t by (rule lookupPattern_shape)
  show "addSegs ep segs v t = (None, t') \<Longrightarrow> lookupPattern t segs = None" for ep segs v t t'
    using addSegs_ok by blast
  show "addSegs ep segs v t = (None, t') \<Longrightarrow>
      lookupPattern t' q = (if sameShape segs q then Some v else lookupPattern t q)" for ep segs v t t' q
    using addSegs_ok by blast
  show "addSegs ep segs v t = (Some e, t') \<Longrightarrow> lookupPattern t' q = lookupPattern t q" for ep segs v t e t' q
    by (rule addSegs_fail)
qed

section \<open>Properties\<close>

text \<open>A refused insertion is harmless: when Add reports an error, every path still
  resolves to the mapping it resolved to before, even though the walk may have created nodes.\<close>

theorem add_error_keeps_matches:
  assumes "Add t endpoint m = (Some e, t')"
  shows "Match (Some t') path = Match (Some t) path"
proof -
  have "lookupPattern t' q = lookupPattern t q" for q
    using assms addSegs_fail by (auto simp: Add_def split: option.splits sum.splits)
  then show ?thesis by (simp add: Match_def matchNode_segs matchSegs_cong [of t' t])
qed

definition sampleMapping :: CompiledMapping where
  "sampleMapping = \<lparr>cm_EndpointID = 7, cm_ValueType = Double, cm_Reliability = 1,
     cm_Retention = RetentionDiscard, cm_Expiry = 0, cm_ExplicitTimestamp = False,
     cm_AllowUnset = False, cm_DBRetentionTTL = 0, cm_Required = False, cm_Encrypted = False\<rparr>"

definition sampleTrie :: trieNode where
  "sampleTrie = snd (Add NewEndpointTrie ''/%{a}/x'' (Some sampleMapping))"

theorem add_error_keeps_matches_witness:
  "Match (Some (snd (Add sampleTrie ''/%{b}/y'' (Some sampleMapping)))) ''/4/x'' = Match (Some sampleTrie) ''/4/x'' \<and>
   fst (Add sampleTrie ''/%{b}/y'' (Some sampleMapping)) \<noteq> None"
proof -
  have "fst (Add sampleTrie ''/%{b}/y'' (Some sampleMapping)) =
      Some (AddPlaceholderConflict ''/%{b}/y'' ''b'' ''a'')" by code_simp
  then have "Add sampleTrie ''/%{b}/y'' (Some sampleMapping) =
      (Some (AddPlaceholderConflict ''/%{b}/y'' ''b'' ''a''),
       snd (Add sampleTrie ''/%{b}/y'' (Some sampleMapping)))" by (metis prod.collapse)
  from add_error_keeps_matches [OF this, of "''/4/x''"] show ?thesis
    using \<open>fst _ = _\<close> by simp
qed

end
