(* ===== verification/Schema_Compile.thy ===== *)
theory Schema_Compile
  imports Schema_Trie
begin

text \<open>
  Model of pkg/interfaceschema/compile.go, with the resolver methods of
  store.StoredInterface.  The lemmas show that a compiled interface answers exactly
  the paths its declared endpoints match, when compilation succeeds, what the object
  leaf table holds, and how far the int64 durations are exact.
\<close>

section \<open>Resolving storage identifiers\<close>

text \<open>The interface EndpointIDResolver: both methods may fail with a message.\<close>

record EndpointIDResolver =
  ResolveInterface :: "string \<Rightarrow> int \<Rightarrow> string + int"
  ResolveEndpoint :: "string \<Rightarrow> string + int"

text \<open>store.StoredInterface and its two resolver methods.\<close>

record StoredInterface =
  si_ID :: int
  si_RealmID :: int
  si_Name :: string
  si_Major :: int
  si_Minor :: int
  si_Type :: InterfaceType
  si_Ownership :: Ownership
  si_Aggregation :: Aggregation
  si_Definition :: string
  si_Endpoints :: "string \<Rightarrow> int option"

definition Stored_ResolveInterface :: "StoredInterface \<Rightarrow> string \<Rightarrow> int \<Rightarrow> string + int" where
  "Stored_ResolveInterface si name major =
    (if name \<noteq> si_Name si \<or> major \<noteq> si_Major si then Inl ''store: resolver holds another interface''
     else Inr (si_ID si))"

definition Stored_ResolveEndpoint :: "StoredInterface \<Rightarrow> string \<Rightarrow> string + int" where
  "Stored_ResolveEndpoint si endpoint =
    (case si_Endpoints si endpoint of
       None \<Rightarrow> Inl ''store: interface has no such endpoint''
     | Some i \<Rightarrow> Inr i)"

definition storedResolver :: "StoredInterface \<Rightarrow> EndpointIDResolver" where
  "storedResolver si =
    \<lparr>ResolveInterface = Stored_ResolveInterface si, ResolveEndpoint = Stored_ResolveEndpoint si\<rparr>"

section \<open>Compilation\<close>

record CompiledInterface =
  ci_ID :: int
  ci_Name :: string
  ci_Major :: int
  ci_Minor :: int
  ci_Type :: InterfaceType
  ci_Ownership :: Ownership
  ci_Aggregation :: Aggregation
  ci_Trie :: trieNode
  ci_ObjectLeaves :: "(string \<Rightarrow> CompiledMapping option) option"

datatype compile_error =
    CompileNilInterface
  | ResolvingInterface string int string
  | ResolvingEndpoint string string
  | TrieRefused trie_error
  | LeafEndpoint schema_error
  | LeafParametric string
  | DuplicateLeaf string string

definition Second :: int64 where "Second = 1000000000"

text \<open>The CompiledMapping literal of Compile: time.Duration(seconds) * time.Second is a
  multiplication of int64 values.\<close>

definition compiledMapping :: "Mapping \<Rightarrow> int \<Rightarrow> CompiledMapping" where
  "compiledMapping m i =
    \<lparr>cm_EndpointID = i, cm_ValueType = m_Type m, cm_Reliability = QoS (m_Reliability m),
     cm_Retention = m_Retention m, cm_Expiry = m_Expiry m * Second,
     cm_ExplicitTimestamp = m_ExplicitTimestamp m, cm_AllowUnset = m_AllowUnset m,
     cm_DBRetentionTTL = m_DatabaseRetentionTTL m * Second, cm_Required = m_Required m,
     cm_Encrypted = m_Encrypted m\<rparr>"

definition lastLiteralSegment :: "string \<Rightarrow> compile_error + string" where
  "lastLiteralSegment endpoint =
    (case splitEndpoint endpoint of
       Inl e \<Rightarrow> Inl (LeafEndpoint e)
     | Inr segs \<Rightarrow>
        if es_param (last segs) then Inl (LeafParametric endpoint) else Inr (es_literal (last segs)))"

definition resolveEndpointID :: "EndpointIDResolver option \<Rightarrow> string \<Rightarrow> compile_error + int" where
  "resolveEndpointID ids endpoint =
    (case ids of
       None \<Rightarrow> Inr 0
     | Some r \<Rightarrow>
        (case ResolveEndpoint r endpoint of
           Inl e \<Rightarrow> Inl (ResolvingEndpoint endpoint e)
         | Inr i \<Rightarrow> Inr i))"

text \<open>The leaf bookkeeping of one iteration for object aggregation.\<close>

definition addLeaf ::
  "string \<Rightarrow> string \<Rightarrow> CompiledMapping \<Rightarrow> (string \<Rightarrow> CompiledMapping option) option \<Rightarrow>
   compile_error + (string \<Rightarrow> CompiledMapping option) option" where
  "addLeaf name endpoint cm leaves =
    (case leaves of
       None \<Rightarrow> Inr None
     | Some lv \<Rightarrow>
        bindR (lastLiteralSegment endpoint) (\<lambda>leaf.
          if lv leaf \<noteq> None then Inl (DuplicateLeaf leaf name)
          else Inr (Some (lv(leaf \<mapsto> cm)))))"

fun compileLoop ::
  "EndpointIDResolver option \<Rightarrow> string \<Rightarrow> Mapping list \<Rightarrow> trieNode \<Rightarrow>
   (string \<Rightarrow> CompiledMapping option) option \<Rightarrow>
   compile_error + (trieNode \<times> (string \<Rightarrow> CompiledMapping option) option)" where
  "compileLoop ids name [] t leaves = Inr (t, leaves)"
| "compileLoop ids name (m # ms) t leaves =
    bindR (resolveEndpointID ids (m_Endpoint m)) (\<lambda>i.
      (case Add t (m_Endpoint m) (Some (compiledMapping m i)) of
         (Some e, _) \<Rightarrow> Inl (TrieRefused e)
       | (None, t') \<Rightarrow>
          bindR (addLeaf name (m_Endpoint m) (compiledMapping m i) leaves) (\<lambda>leaves'.
            compileLoop ids name ms t' leaves')))"

definition Compile :: "Interface option \<Rightarrow> EndpointIDResolver option \<Rightarrow> compile_error + CompiledInterface" where
  "Compile ifaceo ids =
    (case ifaceo of
       None \<Rightarrow> Inl CompileNilInterface
     | Some iface \<Rightarrow>
        bindR (case ids of
                 None \<Rightarrow> Inr 0
               | Some r \<Rightarrow>
                  (case ResolveInterface r (i_Name iface) (i_Major iface) of
                     Inl e \<Rightarrow> Inl (ResolvingInterface (i_Name iface) (i_Major iface) e)
                   | Inr i \<Rightarrow> Inr i)) (\<lambda>iid.
        bindR (compileLoop ids (i_Name iface) (i_Mappings iface) NewEndpointTrie
                 (if i_Aggregation iface = AggregationObject then Some (\<lambda>_. None) else None)) (\<lambda>(t, leaves).
          Inr \<lparr>ci_ID = iid, ci_Name = i_Name iface, ci_Major = i_Major iface, ci_Minor = i_Minor iface,
               ci_Type = i_Type iface, ci_Ownership = i_Ownership iface,
               ci_Aggregation = i_Aggregation iface, ci_Trie = t, ci_ObjectLeaves = leaves\<rparr>)))"

section \<open>The table a compiled interface holds\<close>

definition endpointID :: "EndpointIDResolver option \<Rightarrow> Mapping \<Rightarrow> int" where
  "endpointID ids m = (case resolveEndpointID ids (m_Endpoint m) of Inr i \<Rightarrow> i | Inl _ \<Rightarrow> 0)"

definition compiledAs :: "EndpointIDResolver option \<Rightarrow> Mapping \<Rightarrow> CompiledMapping" where
  "compiledAs ids m = compiledMapping m (endpointID ids m)"

definition tableEntry ::
  "EndpointIDResolver option \<Rightarrow> Mapping \<Rightarrow> string \<times> endpointSegment list \<times> CompiledMapping" where
  "tableEntry ids m = (m_Endpoint m, segments m, compiledAs ids m)"

lemma mapping_segments: "mapping_ok ty m \<Longrightarrow> splitEndpoint (m_Endpoint m) = Inr (segments m)"
  by (auto simp: mapping_ok_def segments_def is_ok_ex)

lemma Add_segments:
  "mapping_ok ty m \<Longrightarrow> Add t (m_Endpoint m) (Some cm) = addSegs (m_Endpoint m) (segments m) cm t"
  by (simp add: Add_def mapping_segments)

lemma compileLoop_addAll:
  "compileLoop ids name ms t leaves = Inr (t', leaves') \<Longrightarrow> list_all (mapping_ok ty) ms \<Longrightarrow>
   addAll addSegs t (map (tableEntry ids) ms) = Some t'"
proof (induction ms arbitrary: t leaves)
  case (Cons m ms)
  from Cons.prems obtain i where i: "resolveEndpointID ids (m_Endpoint m) = Inr i" by auto
  then have cm: "compiledMapping m i = compiledAs ids m" by (simp add: compiledAs_def endpointID_def)
  obtain e t1 where a: "addSegs (m_Endpoint m) (segments m) (compiledAs ids m) t = (e, t1)"
    by (cases "addSegs (m_Endpoint m) (segments m) (compiledAs ids m) t")
  with Cons.prems i cm have "e = None"
    by (auto simp: Add_segments split: option.splits)
  with Cons.prems i cm a obtain lv where "compileLoop ids name ms t1 lv = Inr (t', leaves')"
    by (auto simp: Add_segments)
  then show ?case using Cons.IH Cons.prems a \<open>e = None\<close> by (simp add: tableEntry_def)
qed simp

lemma Compile_trie:
  assumes "interface_ok i" "Compile (Some i) ids = Inr ci"
  shows "addAll addSegs NewEndpointTrie (map (tableEntry ids) (i_Mappings i)) = Some (ci_Trie ci)"
  using assms compileLoop_addAll [where ty = "i_Type i"]
  by (auto simp: Compile_def interface_ok_def)

lemma Compile_lookup:
  assumes "interface_ok i" "Compile (Some i) ids = Inr ci"
  shows "lookupPattern (ci_Trie ci) q = Some cm \<longleftrightarrow>
    (\<exists>m\<in>set (i_Mappings i). sameShape (segments m) q \<and> cm = compiledAs ids m)"
  using trie.addAll_table [OF Compile_trie [OF assms]] by (auto simp: tableEntry_def)

text \<open>The levels of a concrete path, and when a mapping answers for it.\<close>

definition pathLevels :: "string \<Rightarrow> string list" where
  "pathLevels path =
    (case path of [] \<Rightarrow> [] | c # rest \<Rightarrow> if c = CHR ''/'' then SplitByte CHR ''/'' rest else [])"

definition answers :: "Mapping \<Rightarrow> string \<Rightarrow> bool" where
  "answers m path = pathMatches (segments m) (pathLevels path)"

lemma segments_ne: "mapping_ok ty m \<Longrightarrow> segments m \<noteq> []"
  using mapping_segments [of ty m] by (auto simp: splitEndpoint_iff)

lemma segments_ok: "mapping_ok ty m \<Longrightarrow> list_all segment_ok (segments m)"
  using mapping_segments [of ty m] by (auto simp: splitEndpoint_iff)

lemma Match_levels:
  assumes "pathLevels path \<noteq> []"
  shows "Match (Some t) path = matchSegs t (pathLevels path)"
proof -
  obtain rest where r: "path = CHR ''/'' # rest"
    using assms by (cases path) (auto simp: pathLevels_def split: if_splits)
  then show ?thesis by (cases rest) (auto simp: Match_def pathLevels_def matchNode_segs)
qed

lemma Match_no_levels: "pathLevels path = [] \<Longrightarrow> Match (Some t) path = None"
  by (cases path) (auto simp: Match_def pathLevels_def split: if_splits)

lemma mappings_unambiguous:
  assumes "interface_ok i" "m \<in> set (i_Mappings i)" "m' \<in> set (i_Mappings i)"
    "overlaps (segments m) (segments m')"
  shows "m = m'"
proof -
  obtain a b where ab: "a < length (i_Mappings i)" "b < length (i_Mappings i)"
    "m = i_Mappings i ! a" "m' = i_Mappings i ! b" using assms(2,3) by (metis in_set_conv_nth)
  have s: "sorted_wrt (\<lambda>a b. \<not> overlaps (segments a) (segments b)) (i_Mappings i)"
    using assms(1) by (simp add: interface_ok_def)
  have "\<not> a < b" using s ab assms(4) by (auto dest: sorted_wrt_nth_less)
  moreover have "\<not> b < a" using s ab overlaps_sym [OF assms(4)] by (auto dest: sorted_wrt_nth_less)
  ultimately show ?thesis using ab by simp
qed

lemma answers_unique:
  "interface_ok i \<Longrightarrow> m \<in> set (i_Mappings i) \<Longrightarrow> m' \<in> set (i_Mappings i) \<Longrightarrow>
   answers m path \<Longrightarrow> answers m' path \<Longrightarrow> m = m'"
  using mappings_unambiguous pathMatches_overlaps by (auto simp: answers_def)

lemma Match_Compile:
  assumes ok: "interface_ok i" and c: "Compile (Some i) ids = Inr ci"
  shows "Match (Some (ci_Trie ci)) path = Some cm \<longleftrightarrow>
    (\<exists>m\<in>set (i_Mappings i). answers m path \<and> cm = compiledAs ids m)"
proof (cases "pathLevels path = []")
  case True
  have "segments m \<noteq> []" if "m \<in> set (i_Mappings i)" for m
    using ok that segments_ne by (auto simp: interface_ok_def list_all_iff)
  then show ?thesis using True by (auto simp: Match_no_levels answers_def)
next
  case False
  have sound: "\<exists>m\<in>set (i_Mappings i). answers m path \<and> cm' = compiledAs ids m"
    if "matchSegs (ci_Trie ci) (pathLevels path) = Some cm'" for cm'
  proof -
    from matchSegs_sound [OF that] obtain q where q: "pathMatches q (pathLevels path)"
      "lookupPattern (ci_Trie ci) q = Some cm'" by blast
    with Compile_lookup [OF ok c] obtain m where "m \<in> set (i_Mappings i)" "sameShape (segments m) q"
      "cm' = compiledAs ids m" by blast
    then show ?thesis using q(1) pathMatches_shape by (auto simp: answers_def)
  qed
  have "matchSegs (ci_Trie ci) (pathLevels path) = Some (compiledAs ids m)"
    if m: "m \<in> set (i_Mappings i)" "answers m path" for m
  proof -
    have "lookupPattern (ci_Trie ci) (segments m) = Some (compiledAs ids m)"
      using Compile_lookup [OF ok c] m(1) sameLevel_equiv(1)
      by (metis list_all2_refl)
    then obtain cm' where cm': "matchSegs (ci_Trie ci) (pathLevels path) = Some cm'"
      using matchSegs_complete m(2) unfolding answers_def by blast
    then show ?thesis using sound [OF cm'] answers_unique [OF ok] m by blast
  qed
  then show ?thesis using False sound by (auto simp: Match_levels)
qed

section \<open>When compilation succeeds\<close>

definition compatible :: "endpointSegment list \<Rightarrow> endpointSegment list \<Rightarrow> bool" where
  "compatible a b = (\<not> sameShape a b \<and> namesAgree a b)"

lemma insertable_after_add:
  assumes add: "addSegs ep a m t = (None, t1)" and a: "insertable t a"
  shows "insertable t1 b \<longleftrightarrow> insertable t b \<and> compatible a b"
proof -
  have l: "lookupPattern t1 b = None \<longleftrightarrow> lookupPattern t b = None \<and> \<not> sameShape a b"
    using addSegs_ok [OF add, of b] by auto
  have n: "nodeName t1 q = (case nodeName t q of Some x \<Rightarrow> Some x | None \<Rightarrow> nameAfter a q)" for q
    using addSegs_names [OF add] .
  have "(\<forall>q x y. nodeName t1 q = Some x \<longrightarrow> nameAfter b q = Some y \<longrightarrow> x = y) \<longleftrightarrow>
      (\<forall>q x y. nodeName t q = Some x \<longrightarrow> nameAfter b q = Some y \<longrightarrow> x = y) \<and> namesAgree a b"
    (is "?L \<longleftrightarrow> ?R \<and> _")
  proof
    assume L: ?L
    have R: ?R using L n by (metis option.simps(5))
    moreover have "x = y" if "nameAfter a q = Some x" "nameAfter b q = Some y" for q x y
    proof (cases "nodeName t q")
      case None
      then show ?thesis using L n [of q] that by auto
    next
      case (Some z)
      then show ?thesis using R a that unfolding insertable_def by metis
    qed
    ultimately show "?R \<and> namesAgree a b" using namesAgree_complete by blast
  next
    assume "?R \<and> namesAgree a b"
    then show ?L using n namesAgree_sound by (auto split: option.splits)
  qed
  then show ?thesis using l by (auto simp: insertable_def compatible_def)
qed

lemma addAll_succeeds_iff:
  "(\<exists>t'. addAll addSegs t xs = Some t') \<longleftrightarrow>
     (\<forall>x\<in>set xs. insertable t (fst (snd x))) \<and>
     sorted_wrt (\<lambda>x y. compatible (fst (snd x)) (fst (snd y))) xs"
proof (induction xs arbitrary: t)
  case (Cons x xs)
  obtain ep a m where x: "x = (ep, a, m)" by (cases x)
  obtain e t1 where r: "addSegs ep a m t = (e, t1)" by (cases "addSegs ep a m t")
  show ?case
  proof (cases e)
    case None
    then have a: "insertable t a" using r addSegs_succeeds_iff [of ep a m t] by simp
    have "(\<exists>t'. addAll addSegs t (x # xs) = Some t') \<longleftrightarrow> (\<exists>t'. addAll addSegs t1 xs = Some t')"
      using x r None by simp
    also have "\<dots> \<longleftrightarrow> (\<forall>y\<in>set xs. insertable t (fst (snd y)) \<and> compatible a (fst (snd y))) \<and>
        sorted_wrt (\<lambda>x y. compatible (fst (snd x)) (fst (snd y))) xs"
      using Cons.IH [of t1] insertable_after_add [OF r [unfolded None] a] by simp
    finally show ?thesis using x a by auto
  next
    case (Some err)
    then show ?thesis using x r addSegs_succeeds_iff [of ep a m t] by auto
  qed
qed simp

definition leafName :: "Mapping \<Rightarrow> string" where
  "leafName m = es_literal (last (segments m))"

lemma lastLiteralSegment_ok:
  "mapping_ok ty m \<Longrightarrow> lastLiteralSegment (m_Endpoint m) =
     (if es_param (last (segments m)) then Inl (LeafParametric (m_Endpoint m)) else Inr (leafName m))"
  by (simp add: lastLiteralSegment_def mapping_segments leafName_def)

definition leaves_free ::
  "(string \<Rightarrow> CompiledMapping option) option \<Rightarrow> Mapping list \<Rightarrow> bool" where
  "leaves_free leaves ms =
    (case leaves of
       None \<Rightarrow> True
     | Some lv \<Rightarrow> (\<forall>m\<in>set ms. \<not> es_param (last (segments m)) \<and> lv (leafName m) = None) \<and>
         distinct (map leafName ms))"

lemma addLeaf_ok:
  assumes "mapping_ok ty m"
  shows "addLeaf name (m_Endpoint m) cm leaves = Inr leaves' \<longleftrightarrow>
    (case leaves of
       None \<Rightarrow> leaves' = None
     | Some lv \<Rightarrow> \<not> es_param (last (segments m)) \<and> lv (leafName m) = None \<and>
         leaves' = Some (lv(leafName m \<mapsto> cm)))"
  using assms by (auto simp: addLeaf_def lastLiteralSegment_ok split: option.splits if_splits)

lemma compileLoop_succeeds_iff:
  "list_all (mapping_ok ty) ms \<Longrightarrow>
   is_ok (compileLoop None name ms t leaves) \<longleftrightarrow>
     (\<exists>t'. addAll addSegs t (map (tableEntry None) ms) = Some t') \<and> leaves_free leaves ms"
proof (induction ms arbitrary: t leaves)
  case Nil
  then show ?case by (simp add: leaves_free_def split: option.split)
next
  case (Cons m ms)
  have m: "mapping_ok ty m" using Cons.prems by simp
  have cm: "compiledMapping m 0 = compiledAs None m"
    by (simp add: compiledAs_def endpointID_def resolveEndpointID_def)
  obtain e t1 where r: "addSegs (m_Endpoint m) (segments m) (compiledAs None m) t = (e, t1)"
    by (cases "addSegs (m_Endpoint m) (segments m) (compiledAs None m) t")
  show ?case
  proof (cases e)
    case (Some err)
    then show ?thesis using r m by (simp add: Add_segments resolveEndpointID_def cm tableEntry_def)
  next
    case None
    have step: "compileLoop None name (m # ms) t leaves =
        bindR (addLeaf name (m_Endpoint m) (compiledAs None m) leaves) (compileLoop None name ms t1)"
      using r m None by (simp add: Add_segments resolveEndpointID_def cm)
    have all: "addAll addSegs t (map (tableEntry None) (m # ms)) = addAll addSegs t1 (map (tableEntry None) ms)"
      using r None by (simp add: tableEntry_def)
    show ?thesis
    proof (cases "addLeaf name (m_Endpoint m) (compiledAs None m) leaves")
      case (Inl err)
      have "\<not> leaves_free leaves (m # ms)"
      proof (cases leaves)
        case None
        then show ?thesis using Inl by (simp add: addLeaf_def)
      next
        case (Some lv)
        have "\<not> (\<not> es_param (last (segments m)) \<and> lv (leafName m) = None)"
          using addLeaf_ok [OF m, of name "compiledAs None m" leaves] Inl Some by auto
        then show ?thesis using Some by (auto simp: leaves_free_def)
      qed
      then show ?thesis using step Inl by simp
    next
      case (Inr leaves')
      then have "leaves_free leaves (m # ms) \<longleftrightarrow> leaves_free leaves' ms"
        using addLeaf_ok [OF m, of name "compiledAs None m" leaves leaves']
        by (auto simp: leaves_free_def image_iff split: option.splits if_splits)
      then show ?thesis using step Inr all Cons.IH [of t1 leaves'] Cons.prems by simp
    qed
  qed
qed

lemma object_leaves_free:
  assumes ok: "interface_ok i" and agg: "i_Aggregation i = AggregationObject"
  shows "leaves_free (Some (\<lambda>_. None)) (i_Mappings i)"
proof -
  let ?ms = "i_Mappings i"
  let ?h = "segments (hd ?ms)"
  have peers: "\<forall>m\<in>set ?ms. object_peer (hd ?ms, ?h) (m, segments m)"
    using ok agg by (simp add: interface_ok_def)
  have p: "butlast (segments m) = butlast ?h" "length (segments m) = length ?h" "\<not> es_param (last (segments m))"
    if "m \<in> set ?ms" for m
    using bspec [OF peers that] by (simp_all add: object_peer_def)
  have ne: "segments m \<noteq> []" if "m \<in> set ?ms" for m
    using ok that segments_ne by (auto simp: interface_ok_def list_all_iff)
  have ov: "overlaps (segments a) (segments b)" if "a \<in> set ?ms" "b \<in> set ?ms" "leafName a = leafName b" for a b
  proof -
    have "segments a = butlast ?h @ [last (segments a)]" "segments b = butlast ?h @ [last (segments b)]"
      using p(1) ne that(1,2) by (metis append_butlast_last_id)+
    moreover have "overlaps (butlast ?h) (butlast ?h)" by (rule list_all2_refl) (simp add: levelsMeet_def)
    moreover have "levelsMeet (last (segments a)) (last (segments b))"
      using that(3) by (simp add: leafName_def levelsMeet_def)
    ultimately show ?thesis by (metis list_all2_Cons list_all2_Nil list_all2_appendI)
  qed
  have "distinct (map leafName ?ms)"
  proof (rule ccontr)
    assume "\<not> distinct (map leafName ?ms)"
    then obtain a b where ab: "a < length ?ms" "b < length ?ms" "a < b"
      "leafName (?ms ! a) = leafName (?ms ! b)"
      unfolding distinct_conv_nth by (metis length_map linorder_neqE_nat nth_map)
    have "sorted_wrt (\<lambda>a b. \<not> overlaps (segments a) (segments b)) ?ms"
      using ok by (simp add: interface_ok_def)
    then show False using ab ov by (metis nth_mem sorted_wrt_nth_less)
  qed
  then show ?thesis using p by (auto simp: leaves_free_def)
qed

lemma interface_shapes_distinct:
  "interface_ok i \<Longrightarrow>
   sorted_wrt (\<lambda>x y. compatible (segments x) (segments y)) (i_Mappings i) \<longleftrightarrow>
   sorted_wrt (\<lambda>x y. namesAgree (segments x) (segments y)) (i_Mappings i)"
  using sameShape_overlaps
  by (auto simp: interface_ok_def compatible_def sorted_wrt_iff_nth_less)

lemma Compile_succeeds_iff:
  assumes "interface_ok i"
  shows "is_ok (Compile (Some i) None) \<longleftrightarrow>
    sorted_wrt (\<lambda>a b. namesAgree (segments a) (segments b)) (i_Mappings i)"
proof -
  let ?lv = "if i_Aggregation i = AggregationObject then Some (\<lambda>_. None) else None"
  have lf: "leaves_free ?lv (i_Mappings i)"
    using object_leaves_free [OF assms] by (auto simp: leaves_free_def)
  have mo: "list_all (mapping_ok (i_Type i)) (i_Mappings i)" using assms by (simp add: interface_ok_def)
  have "is_ok (Compile (Some i) None) \<longleftrightarrow>
      is_ok (compileLoop None (i_Name i) (i_Mappings i) NewEndpointTrie ?lv)"
    by (auto simp: Compile_def is_ok_ex)
  also have "\<dots> \<longleftrightarrow> (\<exists>t'. addAll addSegs NewEndpointTrie (map (tableEntry None) (i_Mappings i)) = Some t')"
    using compileLoop_succeeds_iff [OF mo] lf by simp
  also have "\<dots> \<longleftrightarrow> sorted_wrt (\<lambda>x y. compatible (segments x) (segments y)) (i_Mappings i)"
    unfolding addAll_succeeds_iff
    by (simp add: NewEndpointTrie_def sorted_wrt_map tableEntry_def)
  finally show ?thesis using interface_shapes_distinct [OF assms] by simp
qed

lemma namesAgree_same_prefix:
  "butlast a = butlast b \<Longrightarrow> length a = length b \<Longrightarrow> a \<noteq> [] \<Longrightarrow> \<not> es_param (last a) \<Longrightarrow> \<not> es_param (last b) \<Longrightarrow> namesAgree a b"
proof (induction a b rule: namesAgree.induct)
  case (1 a as b bs)
  show ?case
  proof (cases as)
    case Nil
    then show ?thesis using 1 by auto
  next
    case (Cons x xs)
    then have "bs \<noteq> []" using 1 by auto
    then show ?thesis using 1 Cons by (auto split: if_splits)
  qed
qed auto

section \<open>Object leaves\<close>

lemma compileLoop_leaves:
  "compileLoop ids name ms t (Some lv) = Inr (t', leaves') \<Longrightarrow> list_all (mapping_ok ty) ms \<Longrightarrow>
   \<exists>lv'. leaves' = Some lv' \<and>
     (\<forall>k cm. lv' k = Some cm \<longleftrightarrow> lv k = Some cm \<or> (\<exists>m\<in>set ms. leafName m = k \<and> cm = compiledAs ids m))"
proof (induction ms arbitrary: t lv)
  case (Cons m ms)
  have m: "mapping_ok ty m" using Cons.prems by simp
  from Cons.prems obtain i where i: "resolveEndpointID ids (m_Endpoint m) = Inr i" by auto
  then have cm: "compiledMapping m i = compiledAs ids m" by (simp add: compiledAs_def endpointID_def)
  obtain e t1 where a: "Add t (m_Endpoint m) (Some (compiledAs ids m)) = (e, t1)"
    by (cases "Add t (m_Endpoint m) (Some (compiledAs ids m))")
  have "e = None" using Cons.prems(1) i cm a by (auto split: option.splits)
  with Cons.prems(1) i cm a obtain leaves1 where
    l: "addLeaf name (m_Endpoint m) (compiledAs ids m) (Some lv) = Inr leaves1" and
    c: "compileLoop ids name ms t1 leaves1 = Inr (t', leaves')" by auto
  from l addLeaf_ok [OF m] have n: "lv (leafName m) = None"
    and l1: "leaves1 = Some (lv(leafName m \<mapsto> compiledAs ids m))" by auto
  obtain lv' where lv': "leaves' = Some lv'"
    "\<And>k cm. lv' k = Some cm \<longleftrightarrow> (lv(leafName m \<mapsto> compiledAs ids m)) k = Some cm \<or>
      (\<exists>m\<in>set ms. leafName m = k \<and> cm = compiledAs ids m)"
    using Cons.IH [OF c [unfolded l1]] Cons.prems by auto
  have "(lv(leafName m \<mapsto> compiledAs ids m)) k = Some cm \<longleftrightarrow>
      lv k = Some cm \<or> (leafName m = k \<and> cm = compiledAs ids m)" for k cm
    using n by auto
  then show ?case using lv' by auto
qed auto

lemma Compile_leaves:
  assumes "interface_ok i" "Compile (Some i) ids = Inr ci" "i_Aggregation i = AggregationObject"
  shows "\<exists>lv. ci_ObjectLeaves ci = Some lv \<and>
    (\<forall>k cm. lv k = Some cm \<longleftrightarrow> (\<exists>m\<in>set (i_Mappings i). leafName m = k \<and> cm = compiledAs ids m))"
proof -
  have mo: "list_all (mapping_ok (i_Type i)) (i_Mappings i)" using assms(1) by (simp add: interface_ok_def)
  from assms(2,3) obtain t' leaves' where
    c: "compileLoop ids (i_Name i) (i_Mappings i) NewEndpointTrie (Some (\<lambda>_. None)) = Inr (t', leaves')"
    and l: "ci_ObjectLeaves ci = leaves'" by (auto simp: Compile_def)
  show ?thesis using compileLoop_leaves [OF c mo] l by simp
qed

lemma object_names_agree:
  assumes ok: "interface_ok i" and agg: "i_Aggregation i = AggregationObject"
    and "a \<in> set (i_Mappings i)" "b \<in> set (i_Mappings i)"
  shows "namesAgree (segments a) (segments b)"
proof -
  have peers: "\<forall>m\<in>set (i_Mappings i).
      object_peer (hd (i_Mappings i), segments (hd (i_Mappings i))) (m, segments m)"
    using ok agg by (simp add: interface_ok_def)
  have "segments a \<noteq> []" using ok assms(3) segments_ne by (auto simp: interface_ok_def list_all_iff)
  then show ?thesis using bspec [OF peers assms(3)] bspec [OF peers assms(4)]
    by (intro namesAgree_same_prefix) (simp_all add: object_peer_def)
qed

section \<open>Ambiguity\<close>

definition short_literals :: "endpointSegment list \<Rightarrow> bool" where
  "short_literals segs = list_all (\<lambda>s. es_param s \<or> length (es_literal s) \<le> MaxPlaceholderValueLen) segs"

definition commonLevel :: "endpointSegment \<Rightarrow> endpointSegment \<Rightarrow> string" where
  "commonLevel a b = (if \<not> es_param a then es_literal a else if \<not> es_param b then es_literal b else ''x'')"

lemma identifier_placeholder_ok:
  "validIdentifier s \<Longrightarrow> length s \<le> MaxPlaceholderValueLen \<Longrightarrow> placeholderValueOK s"
  using validIdentifier_notin identChar_excludes(5,6) by (simp add: placeholderValueOK_def)

lemma commonLevel_matches:
  assumes "levelsMeet a b" "segment_ok a" "segment_ok b"
    "es_param a \<or> length (es_literal a) \<le> MaxPlaceholderValueLen"
    "es_param b \<or> length (es_literal b) \<le> MaxPlaceholderValueLen"
  shows "segMatches a (commonLevel a b) \<and> segMatches b (commonLevel a b)"
proof -
  have "placeholderValueOK ''x''" by code_simp
  then show ?thesis using assms validIdentifier_ne identifier_placeholder_ok
    by (auto simp: segMatches_def commonLevel_def levelsMeet_def segment_ok_def)
qed

lemma overlaps_iff_common_path:
  assumes "list_all segment_ok a" "list_all segment_ok b" "short_literals a" "short_literals b"
  shows "overlaps a b \<longleftrightarrow> (\<exists>levels. pathMatches a levels \<and> pathMatches b levels)"
proof
  assume o: "overlaps a b"
  let ?l = "map2 commonLevel a b"
  have len: "length a = length b" using o by (rule list_all2_lengthD)
  have "segMatches (a ! i) (?l ! i) \<and> segMatches (b ! i) (?l ! i)" if "i < length a" for i
    using commonLevel_matches [of "a ! i" "b ! i"] assms o that len
    by (simp add: list_all2_conv_all_nth list_all_length short_literals_def)
  then have "pathMatches a ?l \<and> pathMatches b ?l" using len by (simp add: list_all2_conv_all_nth)
  then show "\<exists>levels. pathMatches a levels \<and> pathMatches b levels" by blast
qed (use pathMatches_overlaps in blast)

section \<open>Durations\<close>

lemma sint_seconds:
  fixes w :: int64
  shows "sint (w * Second) = signed_take_bit 63 (sint w * 1000000000)"
  by (simp add: Second_def sint_word_mult)

lemma seconds_exact_iff:
  fixes w :: int64
  assumes "0 \<le> sint w"
  shows "sint (w * Second) = sint w * 1000000000 \<longleftrightarrow> sint w \<le> 9223372036"
  using assms unfolding sint_seconds signed_take_bit_int_eq_self_iff by auto

section \<open>Properties\<close>

lemma ParseInterface_ok: "ParseInterface raw = Inr i \<Longrightarrow> interface_ok i"
  using buildInterface_sound by (auto simp: ParseInterface_def ParseInterfaceCanonical_def)

definition sampleMappingJSON :: "string \<Rightarrow> mappingJSON" where
  "sampleMappingJSON ep = \<lparr>mj_Endpoint = Some ep, mj_Path = None, mj_Type = Some Double,
     mj_Reliability = Some ReliabilityUnique, mj_Retention = None, mj_Expiry = Some 5,
     mj_DatabaseRetentionPolicy = Some UseTTL, mj_DatabaseRetentionTTL = Some 60,
     mj_AllowUnset = None, mj_ExplicitTimestamp = None, mj_Required = None, mj_Encrypted = None,
     mj_Description = [], mj_Doc = []\<rparr>"

definition sampleDocument :: "Aggregation \<Rightarrow> string list \<Rightarrow> interfaceJSON" where
  "sampleDocument agg eps = \<lparr>ij_InterfaceName = Some ''org.Sensors'', ij_VersionMajor = Some 1,
     ij_VersionMinor = Some 0, ij_Type = Some Datastream, ij_Ownership = Some OwnershipDevice,
     ij_Quality = None, ij_Aggregate = None, ij_Aggregation = Some agg, ij_Description = [], ij_Doc = [],
     ij_Mappings = map sampleMappingJSON eps, ij_aliases = False\<rparr>"

definition parsed :: "interfaceJSON \<Rightarrow> Interface" where
  "parsed raw = (case ParseInterface raw of Inr i \<Rightarrow> i | Inl _ \<Rightarrow> undefined)"

definition compiled :: "Interface \<Rightarrow> CompiledInterface" where
  "compiled i = (case Compile (Some i) None of Inr ci \<Rightarrow> ci | Inl _ \<Rightarrow> undefined)"

text \<open>C1. Matching a concrete path against a compiled interface gives exactly the declarative
  answer: a mapping is found if and only if one of the declared endpoints matches the path level
  by level, and what is found is the compiled form of that very mapping.\<close>

theorem compiled_match_exact:
  assumes "ParseInterface raw = Inr i" and "Compile (Some i) ids = Inr ci"
  shows "Match (Some (ci_Trie ci)) path = Some cm \<longleftrightarrow>
    (\<exists>m\<in>set (i_Mappings i). answers m path \<and> cm = compiledAs ids m)"
  using Match_Compile [OF ParseInterface_ok [OF assms(1)] assms(2)] .

lemma sample_parses:
  "ParseInterface (sampleDocument AggregationIndividual [''/%{id}/temp'', ''/state'']) =
     Inr (parsed (sampleDocument AggregationIndividual [''/%{id}/temp'', ''/state'']))"
  "ParseInterface (sampleDocument AggregationObject [''/%{id}/lat'', ''/%{id}/lon'']) =
     Inr (parsed (sampleDocument AggregationObject [''/%{id}/lat'', ''/%{id}/lon'']))"
proof -
  have "is_ok (ParseInterface (sampleDocument AggregationIndividual [''/%{id}/temp'', ''/state'']))"
    by code_simp
  then show "ParseInterface (sampleDocument AggregationIndividual [''/%{id}/temp'', ''/state'']) =
     Inr (parsed (sampleDocument AggregationIndividual [''/%{id}/temp'', ''/state'']))"
    by (auto simp: is_ok_ex parsed_def)
  have "is_ok (ParseInterface (sampleDocument AggregationObject [''/%{id}/lat'', ''/%{id}/lon'']))"
    by code_simp
  then show "ParseInterface (sampleDocument AggregationObject [''/%{id}/lat'', ''/%{id}/lon'']) =
     Inr (parsed (sampleDocument AggregationObject [''/%{id}/lat'', ''/%{id}/lon'']))"
    by (auto simp: is_ok_ex parsed_def)
qed

lemma sample_compiles:
  "Compile (Some (parsed (sampleDocument AggregationIndividual [''/%{id}/temp'', ''/state'']))) None =
     Inr (compiled (parsed (sampleDocument AggregationIndividual [''/%{id}/temp'', ''/state''])))"
proof -
  have "is_ok (Compile (Some (parsed (sampleDocument AggregationIndividual [''/%{id}/temp'', ''/state'']))) None)"
    by code_simp
  then show ?thesis by (auto simp: is_ok_ex compiled_def)
qed

theorem compiled_match_exact_witness:
  "\<exists>cm m. Match (Some (ci_Trie (compiled (parsed (sampleDocument AggregationIndividual
       [''/%{id}/temp'', ''/state'']))))) ''/4/temp'' = Some cm \<and> m_Endpoint m = ''/%{id}/temp'' \<and>
     cm = compiledAs None m"
proof -
  let ?i = "parsed (sampleDocument AggregationIndividual [''/%{id}/temp'', ''/state''])"
  have m: "i_Mappings ?i \<noteq> [] \<and> answers (i_Mappings ?i ! 0) ''/4/temp'' \<and>
      m_Endpoint (i_Mappings ?i ! 0) = ''/%{id}/temp''"
    by code_simp
  then have "i_Mappings ?i ! 0 \<in> set (i_Mappings ?i)" by simp
  with m have "Match (Some (ci_Trie (compiled ?i))) ''/4/temp'' = Some (compiledAs None (i_Mappings ?i ! 0))"
    using compiled_match_exact [OF sample_parses(1) sample_compiles] by blast
  with m show ?thesis by blast
qed

text \<open>C14. The uniqueness check of parse.go is exact: for endpoints whose literal levels are no
  longer than a placeholder value may be, the check passes if and only if no concrete path is
  matched by two of the declared endpoints.\<close>

theorem uniqueness_check_exact:
  assumes "\<forall>p\<in>set ps. list_all segment_ok (snd p) \<and> short_literals (snd p)"
  shows "checkEndpointUniqueness ps = Inr () \<longleftrightarrow>
    \<not> (\<exists>i j levels. i < j \<and> j < length ps \<and>
        pathMatches (snd (ps ! i)) levels \<and> pathMatches (snd (ps ! j)) levels)"
proof -
  have "overlaps (snd (ps ! i)) (snd (ps ! j)) \<longleftrightarrow>
      (\<exists>levels. pathMatches (snd (ps ! i)) levels \<and> pathMatches (snd (ps ! j)) levels)"
    if "i < j" "j < length ps" for i j
  proof -
    have "ps ! i \<in> set ps" "ps ! j \<in> set ps" using that by simp_all
    with assms show ?thesis by (intro overlaps_iff_common_path) blast+
  qed
  then show ?thesis
    unfolding checkEndpointUniqueness_ok sorted_wrt_iff_nth_less by blast
qed

theorem uniqueness_check_exact_witness:
  "checkEndpointUniqueness
     [(''/a'', [\<lparr>es_literal = ''a'', es_param = False\<rparr>]),
      (''/%{b}'', [\<lparr>es_literal = ''b'', es_param = True\<rparr>])] \<noteq> Inr () \<and>
   (\<exists>levels. pathMatches [\<lparr>es_literal = ''a'', es_param = False\<rparr>] levels \<and>
      pathMatches [\<lparr>es_literal = ''b'', es_param = True\<rparr>] levels)"
proof -
  let ?ps = "[(''/a'', [\<lparr>es_literal = ''a'', es_param = False\<rparr>]),
      (''/%{b}'', [\<lparr>es_literal = ''b'', es_param = True\<rparr>])]"
  have h: "\<forall>p\<in>set ?ps. list_all segment_ok (snd p) \<and> short_literals (snd p)" by code_simp
  have n: "checkEndpointUniqueness ?ps = Inl (ConflictingEndpoints ''/a'' ''/%{b}'')" by code_simp
  have "\<exists>i j levels. i < j \<and> j < length ?ps \<and>
        pathMatches (snd (?ps ! i)) levels \<and> pathMatches (snd (?ps ! j)) levels"
    using uniqueness_check_exact [OF h] unfolding n by blast
  then obtain i j levels where ij: "i < j" "j < 2" "pathMatches (snd (?ps ! i)) levels"
    "pathMatches (snd (?ps ! j)) levels" by auto
  then have ij01: "i = 0" "j = 1" by simp_all
  have "pathMatches [\<lparr>es_literal = ''a'', es_param = False\<rparr>] levels \<and>
      pathMatches [\<lparr>es_literal = ''b'', es_param = True\<rparr>] levels"
    using ij(3,4) unfolding ij01 by simp
  then show ?thesis unfolding n by blast
qed

text \<open>C24. A validated interface compiles (with no resolver) if and only if sibling placeholders
  carry the same name: whenever two endpoints agree level by level up to a placeholder of both,
  the two placeholder names are equal.\<close>

theorem compile_succeeds_iff_names_agree:
  assumes "ParseInterface raw = Inr i"
  shows "is_ok (Compile (Some i) None) \<longleftrightarrow>
    sorted_wrt (\<lambda>a b. namesAgree (segments a) (segments b)) (i_Mappings i)"
  using Compile_succeeds_iff [OF ParseInterface_ok [OF assms]] .

theorem compile_succeeds_iff_names_agree_witness:
  "is_ok (Compile (Some (parsed (sampleDocument AggregationIndividual [''/%{id}/temp'', ''/state'']))) None) \<and>
   sorted_wrt (\<lambda>a b. namesAgree (segments a) (segments b))
     (i_Mappings (parsed (sampleDocument AggregationIndividual [''/%{id}/temp'', ''/state''])))"
  using compile_succeeds_iff_names_agree [OF sample_parses(1)] sample_compiles by simp


text \<open>C25. A validated object-aggregated interface always compiles (with no resolver), and its leaf
  table holds exactly the compiled mappings under their last levels.\<close>

theorem object_interfaces_compile:
  assumes "ParseInterface raw = Inr i" and "i_Aggregation i = AggregationObject"
  shows "\<exists>ci lv. Compile (Some i) None = Inr ci \<and> ci_ObjectLeaves ci = Some lv \<and>
    (\<forall>k cm. lv k = Some cm \<longleftrightarrow> (\<exists>m\<in>set (i_Mappings i). leafName m = k \<and> cm = compiledAs None m))"
proof -
  note ok = ParseInterface_ok [OF assms(1)]
  have "sorted_wrt (\<lambda>a b. namesAgree (segments a) (segments b)) (i_Mappings i)"
    using object_names_agree [OF ok assms(2)] by (simp add: sorted_wrt_iff_nth_less)
  then obtain ci where "Compile (Some i) None = Inr ci"
    using Compile_succeeds_iff [OF ok] by (auto simp: is_ok_ex)
  then show ?thesis using Compile_leaves [OF ok _ assms(2)] by blast
qed

theorem object_interfaces_compile_witness:
  "\<exists>ci lv. Compile (Some (parsed (sampleDocument AggregationObject [''/%{id}/lat'', ''/%{id}/lon'']))) None
       = Inr ci \<and> ci_ObjectLeaves ci = Some lv"
proof -
  have "i_Aggregation (parsed (sampleDocument AggregationObject [''/%{id}/lat'', ''/%{id}/lon''])) =
      AggregationObject" by code_simp
  from object_interfaces_compile [OF sample_parses(2) this] show ?thesis by blast
qed

text \<open>C27. The database TTL of a compiled mapping is exact, while the expiry is exact only up to
  9223372036 seconds: above that bound the product with time.Second leaves the int64 range.\<close>

theorem compiled_durations:
  assumes "ParseInterface raw = Inr i" and "m \<in> set (i_Mappings i)"
  shows "sint (cm_DBRetentionTTL (compiledMapping m k)) = sint (m_DatabaseRetentionTTL m) * 1000000000 \<and>
    (sint (cm_Expiry (compiledMapping m k)) = sint (m_Expiry m) * 1000000000 \<longleftrightarrow>
      sint (m_Expiry m) \<le> 9223372036)"
proof -
  have ok: "mapping_ok (i_Type i) m"
    using ParseInterface_ok [OF assms(1)] assms(2) by (auto simp: interface_ok_def list_all_iff)
  then have "0 \<le> sint (m_DatabaseRetentionTTL m) \<and> sint (m_DatabaseRetentionTTL m) \<le> 9223372036"
    by (cases "i_Type i"; cases "m_DatabaseRetentionPolicy m")
      (auto simp: mapping_ok_def MinDatabaseRetentionTTL_def MaxDatabaseRetentionTTL_def)
  moreover have "0 \<le> sint (m_Expiry m)" using ok by (cases "i_Type i") (auto simp: mapping_ok_def)
  ultimately show ?thesis using seconds_exact_iff by (simp add: compiledMapping_def)
qed

theorem compiled_durations_witness:
  "\<exists>m. m_Endpoint m = ''/state'' \<and> sint (cm_DBRetentionTTL (compiledMapping m 0)) = 60000000000"
proof -
  let ?i = "parsed (sampleDocument AggregationIndividual [''/%{id}/temp'', ''/state''])"
  have m: "length (i_Mappings ?i) = 2 \<and> m_Endpoint (i_Mappings ?i ! 1) = ''/state'' \<and>
      sint (m_DatabaseRetentionTTL (i_Mappings ?i ! 1)) = 60"
    by code_simp
  then have "i_Mappings ?i ! 1 \<in> set (i_Mappings ?i)" by simp
  from compiled_durations [OF sample_parses(1) this, of 0] m show ?thesis by auto
qed

end
