(* ===== verification/Schema_Compat.thy ===== *)
theory Schema_Compat
  imports Schema_Compile
begin

text \<open>
  Model of pkg/interfaceschema/compat.go: the additive-only rule of minor upgrades.
  The lemmas give its meaning on validated interfaces, from which follow that
  accepted upgrades compose and that a path answered before an upgrade is answered
  after it, with the same attributes.
\<close>

section \<open>The check\<close>

datatype upgrade_error =
    UpgradeNilInterface
  | NameChanged string string
  | MajorChanged int int
  | ErrMinorNotIncreased
  | ErrDowngradeNotAllowed
  | IncompatibleHeader string
  | UpgradeEndpoint schema_error
  | ErrMissingEndpoints string
  | ErrIncompatibleEndpointChange string string

definition normalizedKey :: "string \<Rightarrow> upgrade_error + string" where
  "normalizedKey endpoint =
    (case splitEndpoint endpoint of
       Inl e \<Rightarrow> Inl (UpgradeEndpoint e)
     | Inr segs \<Rightarrow> Inr (normalizeEndpoint segs))"

definition sameMappingAttributes :: "Mapping \<Rightarrow> Mapping \<Rightarrow> upgrade_error + unit" where
  "sameMappingAttributes om nm =
    (let attr =
       (if m_Type nm \<noteq> m_Type om then ''type''
        else if m_Reliability nm \<noteq> m_Reliability om then ''reliability''
        else if m_Retention nm \<noteq> m_Retention om then ''retention''
        else if m_Expiry nm \<noteq> m_Expiry om then ''expiry''
        else if m_DatabaseRetentionPolicy nm \<noteq> m_DatabaseRetentionPolicy om
          then ''database_retention_policy''
        else if m_DatabaseRetentionTTL nm \<noteq> m_DatabaseRetentionTTL om then ''database_retention_ttl''
        else if m_AllowUnset nm \<noteq> m_AllowUnset om then ''allow_unset''
        else if m_ExplicitTimestamp nm \<noteq> m_ExplicitTimestamp om then ''explicit_timestamp''
        else if m_Required nm \<noteq> m_Required om then ''required''
        else if m_Encrypted nm \<noteq> m_Encrypted om then ''encrypted''
        else [])
     in if attr \<noteq> [] then Inl (ErrIncompatibleEndpointChange (m_Endpoint om) attr) else Inr ())"

text \<open>The loop that indexes the mappings of the next version by normalised endpoint.\<close>

fun indexMappings ::
  "Mapping list \<Rightarrow> (string \<Rightarrow> Mapping option) \<Rightarrow> upgrade_error + (string \<Rightarrow> Mapping option)" where
  "indexMappings [] idx = Inr idx"
| "indexMappings (m # ms) idx =
    bindR (normalizedKey (m_Endpoint m)) (\<lambda>key. indexMappings ms (idx(key \<mapsto> m)))"

text \<open>The loop over the mappings of the old version.\<close>

fun checkKept :: "(string \<Rightarrow> Mapping option) \<Rightarrow> Mapping list \<Rightarrow> upgrade_error + unit" where
  "checkKept idx [] = Inr ()"
| "checkKept idx (om # oms) =
    bindR (normalizedKey (m_Endpoint om)) (\<lambda>key.
      (case idx key of
         None \<Rightarrow> Inl (ErrMissingEndpoints (m_Endpoint om))
       | Some nm \<Rightarrow> bindR (sameMappingAttributes om nm) (\<lambda>_. checkKept idx oms)))"

definition CheckMinorUpgrade :: "Interface option \<Rightarrow> Interface option \<Rightarrow> upgrade_error + unit" where
  "CheckMinorUpgrade oldo nexto =
    (case (oldo, nexto) of
       (Some old, Some next) \<Rightarrow>
         if i_Name next \<noteq> i_Name old then Inl (NameChanged (i_Name old) (i_Name next))
         else if i_Major next \<noteq> i_Major old then Inl (MajorChanged (i_Major old) (i_Major next))
         else if i_Minor next = i_Minor old then Inl ErrMinorNotIncreased
         else if i_Minor next < i_Minor old then Inl ErrDowngradeNotAllowed
         else if i_Type next \<noteq> i_Type old then Inl (IncompatibleHeader ''type'')
         else if i_Ownership next \<noteq> i_Ownership old then Inl (IncompatibleHeader ''ownership'')
         else if i_Aggregation next \<noteq> i_Aggregation old then Inl (IncompatibleHeader ''aggregation'')
         else bindR (indexMappings (i_Mappings next) (\<lambda>_. None)) (\<lambda>idx. checkKept idx (i_Mappings old))
     | _ \<Rightarrow> Inl UpgradeNilInterface)"

section \<open>What the check means on validated interfaces\<close>

definition same_attributes :: "Mapping \<Rightarrow> Mapping \<Rightarrow> bool" where
  "same_attributes a b =
    (b = a\<lparr>m_Endpoint := m_Endpoint b, m_Description := m_Description b, m_Doc := m_Doc b\<rparr>)"

lemma sameMappingAttributes_ok: "sameMappingAttributes a b = Inr u \<longleftrightarrow> same_attributes a b"
  by (cases a; cases b) (auto simp: sameMappingAttributes_def same_attributes_def Let_def)

lemma same_attributes_trans: "same_attributes a b \<Longrightarrow> same_attributes b c \<Longrightarrow> same_attributes a c"
  by (cases a; cases b; cases c) (simp add: same_attributes_def)

definition normKey :: "Mapping \<Rightarrow> string" where
  "normKey m = normalizeEndpoint (segments m)"

lemma normalizedKey_ok: "mapping_ok ty m \<Longrightarrow> normalizedKey (m_Endpoint m) = Inr (normKey m)"
  by (simp add: normalizedKey_def mapping_segments normKey_def)

lemma normKey_eq_iff: "mapping_ok ty a \<Longrightarrow> mapping_ok ty' b \<Longrightarrow> normKey a = normKey b \<longleftrightarrow> sameShape (segments a) (segments b)"
  unfolding normKey_def using normalizeEndpoint_eq_iff segments_ok by blast

lemma indexMappings_ok:
  "list_all (mapping_ok ty) ms \<Longrightarrow>
   \<exists>idx'. indexMappings ms idx = Inr idx' \<and>
     (\<forall>k m. idx' k = Some m \<longrightarrow> idx k = Some m \<or> (m \<in> set ms \<and> normKey m = k)) \<and>
     (\<forall>k. idx k \<noteq> None \<or> (\<exists>m\<in>set ms. normKey m = k) \<longrightarrow> idx' k \<noteq> None)"
proof (induction ms arbitrary: idx)
  case (Cons m ms)
  let ?idx1 = "idx(normKey m \<mapsto> m)"
  have "list_all (mapping_ok ty) ms" using Cons.prems by simp
  from Cons.IH [OF this, of ?idx1] obtain idx' where i: "indexMappings ms ?idx1 = Inr idx'"
    and a: "\<And>k x. idx' k = Some x \<Longrightarrow> ?idx1 k = Some x \<or> (x \<in> set ms \<and> normKey x = k)"
    and b: "\<And>k. ?idx1 k \<noteq> None \<or> (\<exists>x\<in>set ms. normKey x = k) \<Longrightarrow> idx' k \<noteq> None"
    by blast
  have "indexMappings (m # ms) idx = Inr idx'"
    using Cons.prems i by (simp add: normalizedKey_ok [of ty])
  moreover have "idx k = Some x \<or> (x \<in> set (m # ms) \<and> normKey x = k)" if "idx' k = Some x" for k x
    using a [OF that] by (auto split: if_splits)
  moreover have "idx' k \<noteq> None" if "idx k \<noteq> None \<or> (\<exists>x\<in>set (m # ms). normKey x = k)" for k
    using b [of k] that by auto
  ultimately show ?case by blast
qed simp

lemma checkKept_ok:
  "list_all (mapping_ok ty) oms \<Longrightarrow>
   checkKept idx oms = Inr u \<longleftrightarrow> (\<forall>m\<in>set oms. \<exists>nm. idx (normKey m) = Some nm \<and> same_attributes m nm)"
  by (induction oms)
    (auto simp: normalizedKey_ok [of ty] sameMappingAttributes_ok split: option.splits)

definition upgrades :: "Interface \<Rightarrow> Interface \<Rightarrow> bool" where
  "upgrades a b =
    (i_Name b = i_Name a \<and> i_Major b = i_Major a \<and> i_Minor a < i_Minor b \<and> i_Type b = i_Type a \<and>
     i_Ownership b = i_Ownership a \<and> i_Aggregation b = i_Aggregation a \<and>
     (\<forall>m\<in>set (i_Mappings a). \<exists>m'\<in>set (i_Mappings b).
        sameShape (segments m) (segments m') \<and> same_attributes m m'))"

lemma interface_mapping_ok: "interface_ok i \<Longrightarrow> m \<in> set (i_Mappings i) \<Longrightarrow> mapping_ok (i_Type i) m"
  by (auto simp: interface_ok_def list_all_iff)

lemma interface_mappings_ok: "interface_ok i \<Longrightarrow> list_all (mapping_ok (i_Type i)) (i_Mappings i)"
  by (simp add: interface_ok_def)

lemma CheckMinorUpgrade_iff:
  assumes a: "interface_ok a" and b: "interface_ok b"
  shows "CheckMinorUpgrade (Some a) (Some b) = Inr () \<longleftrightarrow> upgrades a b"
proof -
  obtain idx where i: "indexMappings (i_Mappings b) (\<lambda>_. None) = Inr idx"
    and i1: "\<And>k m. idx k = Some m \<Longrightarrow> m \<in> set (i_Mappings b) \<and> normKey m = k"
    and i2: "\<And>k. \<exists>m\<in>set (i_Mappings b). normKey m = k \<Longrightarrow> idx k \<noteq> None"
    using indexMappings_ok [OF interface_mappings_ok [OF b], of "\<lambda>_. None"] by auto
  have k: "normKey x = normKey y \<longleftrightarrow> sameShape (segments x) (segments y)"
    if "x \<in> set (i_Mappings a) \<union> set (i_Mappings b)" "y \<in> set (i_Mappings b)" for x y
    using that interface_mapping_ok [OF a] interface_mapping_ok [OF b] normKey_eq_iff by blast
  have "(\<exists>nm. idx (normKey m) = Some nm \<and> same_attributes m nm) \<longleftrightarrow>
      (\<exists>m'\<in>set (i_Mappings b). sameShape (segments m) (segments m') \<and> same_attributes m m')"
    if m: "m \<in> set (i_Mappings a)" for m
  proof
    assume "\<exists>nm. idx (normKey m) = Some nm \<and> same_attributes m nm"
    then show "\<exists>m'\<in>set (i_Mappings b). sameShape (segments m) (segments m') \<and> same_attributes m m'"
      using i1 k m by (metis UnI1)
  next
    assume "\<exists>m'\<in>set (i_Mappings b). sameShape (segments m) (segments m') \<and> same_attributes m m'"
    then obtain m' where m': "m' \<in> set (i_Mappings b)" "normKey m = normKey m'" "same_attributes m m'"
      using k m by blast
    then obtain nm where nm: "idx (normKey m) = Some nm" using i2 by fastforce
    then have "nm \<in> set (i_Mappings b)" "normKey nm = normKey m'" using i1 m'(2) by auto
    then have "nm = m'"
      using k m'(1) mappings_unambiguous [OF b] sameShape_overlaps by blast
    then show "\<exists>nm. idx (normKey m) = Some nm \<and> same_attributes m nm" using nm m' by blast
  qed
  then have kept: "checkKept idx (i_Mappings a) = Inr () \<longleftrightarrow>
      (\<forall>m\<in>set (i_Mappings a). \<exists>m'\<in>set (i_Mappings b).
        sameShape (segments m) (segments m') \<and> same_attributes m m')"
    using checkKept_ok [OF interface_mappings_ok [OF a]] by simp
  show ?thesis using kept i by (auto simp: CheckMinorUpgrade_def upgrades_def)
qed

lemma upgrades_trans: "upgrades a b \<Longrightarrow> upgrades b c \<Longrightarrow> upgrades a c"
  unfolding upgrades_def by (smt (verit) sameShape_trans same_attributes_trans)

section \<open>Properties\<close>

text \<open>Accepted minor upgrades compose: when two successive upgrades of validated interfaces
  are accepted, upgrading directly from the first version to the last is accepted as well.\<close>

theorem minor_upgrade_transitive:
  assumes "ParseInterface r1 = Inr a" "ParseInterface r2 = Inr b" "ParseInterface r3 = Inr c"
    and "CheckMinorUpgrade (Some a) (Some b) = Inr ()" "CheckMinorUpgrade (Some b) (Some c) = Inr ()"
  shows "CheckMinorUpgrade (Some a) (Some c) = Inr ()"
  using assms CheckMinorUpgrade_iff ParseInterface_ok upgrades_trans by metis

definition sampleVersion :: "int \<Rightarrow> string list \<Rightarrow> interfaceJSON" where
  "sampleVersion minor eps = (sampleDocument AggregationIndividual eps)\<lparr>ij_VersionMinor := Some minor\<rparr>"

lemma sample_versions_parse:
  "ParseInterface (sampleVersion 0 [''/%{a}/x'']) = Inr (parsed (sampleVersion 0 [''/%{a}/x'']))"
  "ParseInterface (sampleVersion 1 [''/%{b}/x'', ''/y'']) = Inr (parsed (sampleVersion 1 [''/%{b}/x'', ''/y'']))"
  "ParseInterface (sampleVersion 2 [''/%{c}/x'', ''/y'', ''/z'']) =
     Inr (parsed (sampleVersion 2 [''/%{c}/x'', ''/y'', ''/z'']))"
proof -
  have "is_ok (ParseInterface (sampleVersion 0 [''/%{a}/x'']))" by code_simp
  then show "ParseInterface (sampleVersion 0 [''/%{a}/x'']) = Inr (parsed (sampleVersion 0 [''/%{a}/x'']))"
    by (auto simp: is_ok_ex parsed_def)
  have "is_ok (ParseInterface (sampleVersion 1 [''/%{b}/x'', ''/y'']))" by code_simp
  then show "ParseInterface (sampleVersion 1 [''/%{b}/x'', ''/y'']) =
      Inr (parsed (sampleVersion 1 [''/%{b}/x'', ''/y'']))"
    by (auto simp: is_ok_ex parsed_def)
  have "is_ok (ParseInterface (sampleVersion 2 [''/%{c}/x'', ''/y'', ''/z'']))" by code_simp
  then show "ParseInterface (sampleVersion 2 [''/%{c}/x'', ''/y'', ''/z'']) =
      Inr (parsed (sampleVersion 2 [''/%{c}/x'', ''/y'', ''/z'']))"
    by (auto simp: is_ok_ex parsed_def)
qed

theorem minor_upgrade_transitive_witness:
  "CheckMinorUpgrade (Some (parsed (sampleVersion 0 [''/%{a}/x''])))
     (Some (parsed (sampleVersion 2 [''/%{c}/x'', ''/y'', ''/z'']))) = Inr ()"
proof -
  have "CheckMinorUpgrade (Some (parsed (sampleVersion 0 [''/%{a}/x''])))
     (Some (parsed (sampleVersion 1 [''/%{b}/x'', ''/y'']))) = Inr ()" by code_simp
  moreover have "CheckMinorUpgrade (Some (parsed (sampleVersion 1 [''/%{b}/x'', ''/y''])))
     (Some (parsed (sampleVersion 2 [''/%{c}/x'', ''/y'', ''/z'']))) = Inr ()" by code_simp
  ultimately show ?thesis by (rule minor_upgrade_transitive [OF sample_versions_parse])
qed



end
