(* ===== verification/Device_Id.thy ===== *)
theory Device_Id
  imports Go_Prelude
begin

text \<open>
  Model of pkg/deviceid/deviceid.go with the parts of encoding/base64 and
  encoding/hex it calls.  The base64 decoder of Go skips carriage returns and line
  feeds, refuses a group of one character, and in strict mode refuses non-zero
  trailing bits.  The random source and the SHA-1 digest are parameters.
\<close>

unbundle bit_operations_syntax

section \<open>encoding/base64, RawURLEncoding.Strict\<close>

definition b64alphabet :: string where
  "b64alphabet = ''ABCDEFGHIJKLMNOPQRSTUVWXYZabcdefghijklmnopqrstuvwxyz0123456789-_''"

definition b64char :: "nat \<Rightarrow> char" where
  "b64char d = b64alphabet ! d"

fun b64Encode :: "byte list \<Rightarrow> string" where
  "b64Encode (a # b # c # r) =
    (let v = (unat a * 256 + unat b) * 256 + unat c
     in [b64char (v div 64 div 64 div 64), b64char (v div 64 div 64 mod 64),
         b64char (v div 64 mod 64), b64char (v mod 64)] @ b64Encode r)"
| "b64Encode [a, b] =
    (let v = (unat a * 256 + unat b) * 256
     in [b64char (v div 64 div 64 div 64), b64char (v div 64 div 64 mod 64), b64char (v div 64 mod 64)])"
| "b64Encode [a] =
    (let v = unat a * 256 * 256
     in [b64char (v div 64 div 64 div 64), b64char (v div 64 div 64 mod 64)])"
| "b64Encode [] = []"

fun b64Digits :: "string \<Rightarrow> nat list option" where
  "b64Digits [] = Some []"
| "b64Digits (c # cs) =
    (case IndexByte b64alphabet c of
       Some d \<Rightarrow> map_option (\<lambda>ds. d # ds) (b64Digits cs)
     | None \<Rightarrow> if c = CHR 0x0A \<or> c = CHR 0x0D then b64Digits cs else None)"

fun b64Groups :: "nat list \<Rightarrow> byte list option" where
  "b64Groups (a # b # c # d # r) =
    (let v = ((a * 64 + b) * 64 + c) * 64 + d
     in map_option (\<lambda>bs. [of_nat (v div 256 div 256), of_nat (v div 256 mod 256), of_nat (v mod 256)] @ bs)
          (b64Groups r))"
| "b64Groups [a, b, c] =
    (let v = ((a * 64 + b) * 64 + c) * 64
     in if v mod 256 \<noteq> 0 then None
        else Some [of_nat (v div 256 div 256), of_nat (v div 256 mod 256)])"
| "b64Groups [a, b] =
    (let v = (a * 64 + b) * 64 * 64
     in if v div 256 mod 256 \<noteq> 0 \<or> v mod 256 \<noteq> 0 then None
        else Some [of_nat (v div 256 div 256)])"
| "b64Groups [a] = None"
| "b64Groups [] = Some []"

definition b64Decode :: "string \<Rightarrow> byte list option" where
  "b64Decode s = Option.bind (b64Digits s) b64Groups"

section \<open>encoding/hex\<close>

definition hexchar :: "nat \<Rightarrow> char" where
  "hexchar d = ''0123456789abcdef'' ! d"

definition hexval :: "char \<Rightarrow> nat option" where
  "hexval c = (case IndexByte ''0123456789abcdef'' c of
      Some d \<Rightarrow> Some d
    | None \<Rightarrow> map_option (\<lambda>d. d + 10) (IndexByte ''ABCDEF'' c))"

fun hexEncode :: "byte list \<Rightarrow> string" where
  "hexEncode [] = []"
| "hexEncode (b # bs) = hexchar (unat b div 16) # hexchar (unat b mod 16) # hexEncode bs"

fun hexDecode :: "string \<Rightarrow> byte list option" where
  "hexDecode [] = Some []"
| "hexDecode [c] = None"
| "hexDecode (c # d # r) =
    (case (hexval c, hexval d) of
       (Some x, Some y) \<Rightarrow> map_option (\<lambda>bs. of_nat (x * 16 + y) # bs) (hexDecode r)
     | _ \<Rightarrow> None)"

section \<open>Device identifiers\<close>

text \<open>An ID is an array of sixteen bytes.\<close>

type_synonym ID = "byte list"

definition id_ok :: "ID \<Rightarrow> bool" where
  "id_ok i = (length i = 16)"

definition EncodedLen :: nat where "EncodedLen = 22"

datatype id_error =
    IDLength nat
  | IDNotBase64
  | IDDecodedLength nat
  | NotCanonicalUUID string
  | NoRandomness string

definition Parse :: "string \<Rightarrow> id_error + ID" where
  "Parse s =
    (if length s \<noteq> EncodedLen then Inl (IDLength (length s))
     else case b64Decode s of
       None \<Rightarrow> Inl IDNotBase64
     | Some bs \<Rightarrow> if length bs \<noteq> 16 then Inl (IDDecodedLength (length bs)) else Inr bs)"

definition ID_String :: "ID \<Rightarrow> string" where
  "ID_String i = b64Encode i"

text \<open>The loop of FromUUID over the five groups.\<close>

fun decodeGroups :: "string list \<Rightarrow> byte list option" where
  "decodeGroups [] = Some []"
| "decodeGroups (g # gs) =
    (case hexDecode g of
       None \<Rightarrow> None
     | Some bs \<Rightarrow> map_option (\<lambda>r. bs @ r) (decodeGroups gs))"

definition slice :: "nat \<Rightarrow> nat \<Rightarrow> 'a list \<Rightarrow> 'a list" where
  "slice i j xs = take (j - i) (drop i xs)"

definition FromUUID :: "string \<Rightarrow> id_error + ID" where
  "FromUUID s =
    (if length s \<noteq> 36 \<or> s ! 8 \<noteq> CHR ''-'' \<or> s ! 13 \<noteq> CHR ''-'' \<or> s ! 18 \<noteq> CHR ''-'' \<or> s ! 23 \<noteq> CHR ''-''
     then Inl (NotCanonicalUUID s)
     else case decodeGroups [slice 0 8 s, slice 9 13 s, slice 14 18 s, slice 19 23 s, slice 24 36 s] of
       None \<Rightarrow> Inl (NotCanonicalUUID s)
     | Some bs \<Rightarrow> Inr bs)"

definition UUID :: "ID \<Rightarrow> string" where
  "UUID i = hexEncode (slice 0 4 i) @ ''-'' @ hexEncode (slice 4 6 i) @ ''-'' @ hexEncode (slice 6 8 i) @
     ''-'' @ hexEncode (slice 8 10 i) @ ''-'' @ hexEncode (slice 10 16 i)"

text \<open>Setting the version and variant bits, as Random and FromNamespace do.\<close>

definition stampVersion :: "byte \<Rightarrow> ID \<Rightarrow> ID" where
  "stampVersion v i =
    (let i1 = i[6 := (i ! 6 AND 0x0f) OR v] in i1[8 := (i1 ! 8 AND 0x3f) OR 0x80])"

text \<open>Random with the outcome of rand.Read: an error, or the sixteen bytes it filled in.\<close>

definition Random :: "string + byte list \<Rightarrow> id_error + ID" where
  "Random rnd = (case rnd of Inl e \<Rightarrow> Inl (NoRandomness e) | Inr bs \<Rightarrow> Inr (stampVersion 0x40 bs))"

definition FromNamespace :: "(byte list \<Rightarrow> byte list) \<Rightarrow> ID \<Rightarrow> byte list \<Rightarrow> ID" where
  "FromNamespace sha1 ns payload = stampVersion 0x50 (take 16 (sha1 (ns @ payload)))"

section \<open>Base64 round trips\<close>

lemma b64alphabet_facts: "length b64alphabet = 64" "distinct b64alphabet"
  by code_simp+

lemma IndexByte_nth: "distinct xs \<Longrightarrow> i < length xs \<Longrightarrow> IndexByte xs (xs ! i) = Some i"
proof (induction xs arbitrary: i)
  case (Cons x xs)
  then show ?case by (cases i) auto
qed simp

lemma b64char_index: "d < 64 \<Longrightarrow> IndexByte b64alphabet (b64char d) = Some d"
  unfolding b64char_def using IndexByte_nth b64alphabet_facts by simp

lemma b64index_char: "IndexByte b64alphabet c = Some d \<Longrightarrow> d < 64 \<and> b64char d = c"
  by (simp add: IndexByte_Some_iff b64char_def b64alphabet_facts)

lemma b64Digits_chars: "list_all (\<lambda>d. d < 64) ds \<Longrightarrow> b64Digits (map b64char ds) = Some ds"
  by (induction ds) (simp_all add: b64char_index)

lemma b64Digits_Some:
  "b64Digits s = Some ds \<Longrightarrow>
   list_all (\<lambda>d. d < 64) ds \<and> length ds \<le> length s \<and> (length ds = length s \<longrightarrow> s = map b64char ds)"
proof (induction s arbitrary: ds)
  case (Cons c cs)
  show ?case
  proof (cases "IndexByte b64alphabet c")
    case (Some d)
    with Cons.prems obtain r where "b64Digits cs = Some r" "ds = d # r" by auto
    with Cons.IH Some b64index_char show ?thesis by auto
  next
    case None
    with Cons.prems have "b64Digits cs = Some ds" by (auto split: if_splits)
    with Cons.IH show ?thesis by fastforce
  qed
qed simp

lemma radix:
  fixes x d n :: nat
  assumes "d < n"
  shows "(x * n + d) div n = x" "(x * n + d) mod n = d"
  using assms by simp_all

text \<open>The sextets of a byte string, and the two directions of the round trip.\<close>

fun b64Sextets :: "byte list \<Rightarrow> nat list" where
  "b64Sextets (a # b # c # r) =
    (let v = (unat a * 256 + unat b) * 256 + unat c
     in [v div 64 div 64 div 64, v div 64 div 64 mod 64, v div 64 mod 64, v mod 64] @ b64Sextets r)"
| "b64Sextets [a, b] =
    (let v = (unat a * 256 + unat b) * 256
     in [v div 64 div 64 div 64, v div 64 div 64 mod 64, v div 64 mod 64])"
| "b64Sextets [a] =
    (let v = unat a * 256 * 256 in [v div 64 div 64 div 64, v div 64 div 64 mod 64])"
| "b64Sextets [] = []"

lemma b64Encode_sextets: "b64Encode bs = map b64char (b64Sextets bs)"
  by (induction bs rule: b64Encode.induct) (simp_all add: Let_def)

lemma byte_bound: "unat (b :: byte) < 256"
  using unsigned_less [of b] by simp

lemma byte_of [simp]: "n < 256 \<Longrightarrow> unat (of_nat n :: byte) = n"
  by (simp add: unat_of_nat)

lemma b64Sextets_bound: "list_all (\<lambda>d. d < 64) (b64Sextets bs)"
proof (induction bs rule: b64Sextets.induct)
  case (1 a b c r)
  then show ?case using byte_bound [of a] byte_bound [of b] byte_bound [of c] by (simp add: Let_def)
next
  case (2 a b)
  then show ?case using byte_bound [of a] byte_bound [of b] by (simp add: Let_def)
next
  case (3 a)
  then show ?case using byte_bound [of a] by (simp add: Let_def)
qed simp

lemma recompose4:
  fixes v :: nat
  shows "((v div 64 div 64 div 64 * 64 + v div 64 div 64 mod 64) * 64 + v div 64 mod 64) * 64 + v mod 64 = v"
  by (simp only: div_mult_mod_eq)

lemma recompose3:
  fixes v :: nat
  assumes "v < 256 * 256 * 256"
  shows "((v div 256 div 256) * 256 + v div 256 mod 256) * 256 + v mod 256 = v" "v div 256 div 256 < 256"
  using assms by (simp_all only: div_mult_mod_eq less_mult_imp_div_less)

lemma b64Groups_sextets: "b64Groups (b64Sextets bs) = Some bs"
proof (induction bs rule: b64Sextets.induct)
  case (1 a b c r)
  let ?v = "(unat a * 256 + unat b) * 256 + unat c"
  have "?v div 256 div 256 = unat a" "?v div 256 mod 256 = unat b" "?v mod 256 = unat c"
    by (simp_all only: radix byte_bound)
  then show ?case using 1 by (simp only: b64Sextets.simps Let_def append.simps b64Groups.simps recompose4) simp
next
  case (2 a b)
  let ?v = "(unat a * 256 + unat b) * 256"
  have m: "?v mod 64 = 0" "?v mod 256 = 0" by simp_all
  have r: "((?v div 64 div 64 div 64 * 64 + ?v div 64 div 64 mod 64) * 64 + ?v div 64 mod 64) * 64 = ?v"
    using recompose4 [of ?v] m(1) by simp
  have "?v div 256 = unat a * 256 + unat b" by simp
  then have "?v div 256 div 256 = unat a" "?v div 256 mod 256 = unat b"
    by (simp_all only: radix byte_bound)
  then show ?case using m(2) by (simp only: b64Sextets.simps Let_def b64Groups.simps r) simp
next
  case (3 a)
  let ?v = "unat a * 256 * 256"
  have m: "?v mod 64 = 0" "?v div 64 mod 64 = 0" "?v mod 256 = 0" "?v div 256 mod 256 = 0" "?v div 256 div 256 = unat a"
    by simp_all
  have r: "(?v div 64 div 64 div 64 * 64 + ?v div 64 div 64 mod 64) * 64 * 64 = ?v"
    using recompose4 [of ?v] m(1,2) by simp
  show ?case using m by (simp only: b64Sextets.simps Let_def b64Groups.simps r) simp
qed simp

lemma b64Sextets_groups:
  "b64Groups ds = Some bs \<Longrightarrow> list_all (\<lambda>d. d < 64) ds \<Longrightarrow> b64Sextets bs = ds"
proof (induction ds arbitrary: bs rule: b64Groups.induct)
  case (1 a b c d r)
  let ?v = "((a * 64 + b) * 64 + c) * 64 + d"
  have lt: "a < 64" "b < 64" "c < 64" "d < 64" using 1 by simp_all
  then have v: "?v < 256 * 256 * 256" by simp
  from 1(2) obtain bs' where bs': "b64Groups r = Some bs'"
    "bs = [of_nat (?v div 256 div 256), of_nat (?v div 256 mod 256), of_nat (?v mod 256)] @ bs'"
    by (auto simp: Let_def)
  have "b64Sextets bs' = r" using 1 bs' by simp
  moreover have "?v div 64 div 64 div 64 = a" "?v div 64 div 64 mod 64 = b" "?v div 64 mod 64 = c" "?v mod 64 = d"
    using lt by (simp_all only: radix)
  ultimately show ?case
    unfolding bs'(2) by (simp only: append.simps b64Sextets.simps Let_def byte_of recompose3 [OF v] mod_less_divisor)
next
  case (2 a b c)
  let ?v = "((a * 64 + b) * 64 + c) * 64"
  have lt: "a < 64" "b < 64" "c < 64" using 2 by simp_all
  then have v: "?v < 256 * 256 * 256" by simp
  from 2(1) have m: "?v mod 256 = 0" and bs: "bs = [of_nat (?v div 256 div 256), of_nat (?v div 256 mod 256)]"
    by (auto simp: Let_def split: if_splits)
  have r: "((?v div 256 div 256) * 256 + ?v div 256 mod 256) * 256 = ?v"
    using recompose3(1) [OF v] by (simp only: m add_0_right)
  have "?v div 64 = (a * 64 + b) * 64 + c" by simp
  then have "?v div 64 div 64 div 64 = a" "?v div 64 div 64 mod 64 = b" "?v div 64 mod 64 = c"
    using lt by (simp_all only: radix)
  then show ?case
    unfolding bs by (simp only: b64Sextets.simps Let_def byte_of recompose3 [OF v] mod_less_divisor r)
next
  case (3 a b)
  let ?v = "(a * 64 + b) * 64 * 64"
  have lt: "a < 64" "b < 64" using 3 by simp_all
  then have v: "?v < 256 * 256 * 256" by simp
  from 3(1) have m: "?v mod 256 = 0" "?v div 256 mod 256 = 0" and bs: "bs = [of_nat (?v div 256 div 256)]"
    by (auto simp: Let_def split: if_splits)
  have r: "?v div 256 div 256 * 256 * 256 = ?v"
    using recompose3(1) [OF v] by (simp only: m add_0_right)
  have "?v div 64 div 64 = a * 64 + b" by simp
  then have "?v div 64 div 64 div 64 = a" "?v div 64 div 64 mod 64 = b"
    using lt by (simp_all only: radix)
  then show ?case
    unfolding bs by (simp only: b64Sextets.simps Let_def byte_of recompose3 [OF v] r)
qed auto

lemma b64Decode_Encode: "b64Decode (b64Encode bs) = Some bs"
  by (simp add: b64Decode_def b64Encode_sextets b64Digits_chars b64Sextets_bound b64Groups_sextets)

lemma b64Sextets_length:
  "3 * length (b64Sextets bs) = 4 * length bs + (if length bs mod 3 = 0 then 0 else if length bs mod 3 = 1 then 2 else 1)"
  by (induction bs rule: b64Sextets.induct) (simp_all add: Let_def mod_Suc)

lemma b64Decode_short:
  assumes "b64Decode s = Some bs" "length bs = 16" "length s \<le> 22"
  shows "s = b64Encode bs"
proof -
  from assms(1) obtain ds where ds: "b64Digits s = Some ds" "b64Groups ds = Some bs"
    by (auto simp: b64Decode_def bind_eq_Some_conv)
  note d = b64Digits_Some [OF ds(1)]
  have sx: "b64Sextets bs = ds" using b64Sextets_groups [OF ds(2)] d by simp
  have "length ds = 22" using b64Sextets_length [of bs] sx assms(2) by simp
  then show ?thesis using d sx assms(3) by (simp add: b64Encode_sextets)
qed

lemma ID_String_length: "id_ok i \<Longrightarrow> length (ID_String i) = EncodedLen"
  using b64Sextets_length [of i] by (simp add: ID_String_def b64Encode_sextets id_ok_def EncodedLen_def)

lemma Parse_iff: "Parse s = Inr i \<longleftrightarrow> id_ok i \<and> s = ID_String i"
proof
  assume "Parse s = Inr i"
  then show "id_ok i \<and> s = ID_String i"
    using b64Decode_short [of s i]
    by (auto simp: Parse_def ID_String_def id_ok_def EncodedLen_def split: if_splits option.splits)
next
  assume "id_ok i \<and> s = ID_String i"
  then show "Parse s = Inr i"
    using ID_String_length [of i] by (simp add: Parse_def b64Decode_Encode ID_String_def id_ok_def)
qed

lemma ID_String_inject: "id_ok i \<Longrightarrow> id_ok j \<Longrightarrow> ID_String i = ID_String j \<Longrightarrow> i = j"
  by (metis Parse_iff sum.inject(2))

lemma b64alphabet_noslash: "CHR ''/'' \<notin> set b64alphabet" "CHR ''+'' \<notin> set b64alphabet"
  "CHR ''#'' \<notin> set b64alphabet"
  by code_simp+

lemma b64Encode_chars: "set (b64Encode bs) \<subseteq> set b64alphabet"
  using b64Sextets_bound [of bs] b64alphabet_facts(1)
  by (auto simp: b64Encode_sextets b64char_def list_all_iff)

lemma ID_String_noslash [simp]: "CHR ''/'' \<notin> set (ID_String i)"
  using b64Encode_chars b64alphabet_noslash(1) by (auto simp: ID_String_def)

section \<open>UUID round trips\<close>

lemma hexval_char: "d < 16 \<Longrightarrow> hexval (hexchar d) = Some d"
proof -
  have f: "distinct ''0123456789abcdef''" "length ''0123456789abcdef'' = 16" by code_simp+
  show "d < 16 \<Longrightarrow> hexval (hexchar d) = Some d"
    using IndexByte_nth [OF f(1), of d] f(2) by (simp add: hexval_def hexchar_def)
qed

lemma hexDecode_Encode: "hexDecode (hexEncode bs) = Some bs"
proof (induction bs)
  case (Cons b bs)
  have "unat b div 16 < 16" "unat b mod 16 < 16" using byte_bound [of b] by simp_all
  then show ?case using Cons by (simp add: hexval_char div_mult_mod_eq)
qed simp

lemma hexEncode_length [simp]: "length (hexEncode bs) = 2 * length bs"
  by (induction bs) simp_all

lemma id_cases:
  assumes "id_ok i"
  obtains a b c d e f g h j k l m n p q r where "i = [a, b, c, d, e, f, g, h, j, k, l, m, n, p, q, r]"
  using assms unfolding id_ok_def
  by (auto simp: numeral_eq_Suc length_Suc_conv)

lemma hexpair: "hexval (hexchar (unat (b :: byte) div 16)) = Some (unat b div 16)"
  "hexval (hexchar (unat b mod 16)) = Some (unat b mod 16)"
  using byte_bound [of b] by (simp_all add: hexval_char)

lemma hexpair_byte: "word_of_nat (unat (b :: byte) div 16 * 16 + unat b mod 16) = b"
  by (simp only: div_mult_mod_eq) simp

lemma FromUUID_UUID:
  assumes "id_ok i"
  shows "FromUUID (UUID i) = Inr i"
  using assms by (rule id_cases)
    (simp add: FromUUID_def UUID_def slice_def hexpair hexpair_byte)

section \<open>Version and variant bits\<close>

lemma stamp_bits:
  fixes x :: byte
  shows "((x AND 0x0f) OR 0x40) AND 0xf0 = 0x40" "((x AND 0x0f) OR 0x50) AND 0xf0 = 0x50"
    "((x AND 0x3f) OR 0x80) AND 0xc0 = 0x80"
  by (simp_all add: bit.conj_disj_distrib2 and.assoc)

lemma stampVersion_nth:
  "id_ok i \<Longrightarrow> stampVersion v i ! 6 = (i ! 6 AND 0x0f) OR v"
  "id_ok i \<Longrightarrow> stampVersion v i ! 8 = (i ! 8 AND 0x3f) OR 0x80"
  "id_ok i \<Longrightarrow> id_ok (stampVersion v i)"
  by (simp_all add: stampVersion_def id_ok_def Let_def)

section \<open>Properties\<close>

text \<open>C29. Parse accepts a string exactly when it is the wire form of the identifier it returns:
  every accepted string prints back byte for byte, and every identifier parses back.\<close>

theorem device_id_wire_exact: "Parse s = Inr i \<longleftrightarrow> id_ok i \<and> s = ID_String i"
  by (rule Parse_iff)

text \<open>The canonical UUID form of an identifier parses back to it.\<close>

theorem uuid_roundtrip:
  assumes "id_ok i"
  shows "FromUUID (UUID i) = Inr i"
  using FromUUID_UUID [OF assms] .

theorem uuid_roundtrip_witness:
  "FromUUID (UUID (replicate 16 0xab)) = Inr (replicate 16 0xab)"
proof -
  have "id_ok (replicate 16 0xab)" by (simp add: id_ok_def)
  then show ?thesis by (rule uuid_roundtrip)
qed

text \<open>Generated identifiers are well-formed UUIDs: Random gives version 4 and FromNamespace
  version 5, both with the RFC 4122 variant, whatever the random bytes and the digest are.\<close>

theorem generated_ids_versioned:
  assumes "length bs = 16" and "\<And>x. length (sha1 x) = 20"
  shows "(\<exists>i. Random (Inr bs) = Inr i \<and> id_ok i \<and> i ! 6 AND 0xf0 = 0x40 \<and> i ! 8 AND 0xc0 = 0x80) \<and>
    (let j = FromNamespace sha1 ns payload in id_ok j \<and> j ! 6 AND 0xf0 = 0x50 \<and> j ! 8 AND 0xc0 = 0x80)"
proof -
  have "id_ok bs" "id_ok (take 16 (sha1 (ns @ payload)))" using assms by (simp_all add: id_ok_def)
  then show ?thesis
    by (simp add: Random_def FromNamespace_def Let_def stampVersion_nth stamp_bits)
qed

theorem generated_ids_versioned_witness:
  "(\<exists>i. Random (Inr (replicate 16 0xff)) = Inr i \<and> id_ok i \<and> i ! 6 AND 0xf0 = 0x40 \<and> i ! 8 AND 0xc0 = 0x80) \<and>
   FromNamespace (\<lambda>x. replicate 20 (of_nat (length x))) (replicate 16 1) [2] ! 6 AND 0xf0 = 0x50"
  using generated_ids_versioned [of "replicate 16 0xff" "\<lambda>x. replicate 20 (of_nat (length x))"
      "replicate 16 1" "[2]"]
  by (simp add: Let_def)


end
