(* ===== verification/Broker_Identity.thy ===== *)
theory Broker_Identity
  imports Device_Id Schema_Types
begin

text \<open>
  Model of internal/broker/identity.go and of the pure ACL decision checkACL of
  internal/broker/aclhook.go.  The common name of a device certificate, the client
  identifier and the base topic of a device are one string; the lemmas show that this
  string determines the device and that no topic lies below the base topics of two
  devices.
\<close>

section \<open>Identity\<close>

record Identity =
  id_Realm :: string
  id_DeviceID :: ID

definition maxRealmNameLen :: nat where
  "maxRealmNameLen = 48"

text \<open>The loop of validRealmName; the flag says whether the index is zero.\<close>

fun realmNameLoop :: "bool \<Rightarrow> string \<Rightarrow> bool" where
  "realmNameLoop isFirst [] = True"
| "realmNameLoop isFirst (c # s) =
     (if CHR ''a'' \<le> c \<and> c \<le> CHR ''z'' then realmNameLoop False s
      else if CHR ''0'' \<le> c \<and> c \<le> CHR ''9'' then (if isFirst then False else realmNameLoop False s)
      else False)"

definition validRealmName :: "string \<Rightarrow> bool" where
  "validRealmName s = (if s = [] \<or> length s > maxRealmNameLen then False else realmNameLoop True s)"

definition CN :: "Identity \<Rightarrow> string" where
  "CN i = id_Realm i @ ''/'' @ ID_String (id_DeviceID i)"

definition BaseTopic :: "Identity \<Rightarrow> string" where
  "BaseTopic i = CN i"

datatype identity_error =
    NoSeparator string
  | InvalidRealmName string
  | InvalidDeviceID string id_error

definition ParseCN :: "string \<Rightarrow> identity_error + Identity" where
  "ParseCN cn = (case Cut cn (CHR ''/'') of (realm, dev, ok) \<Rightarrow>
     if \<not> ok then Inl (NoSeparator cn)
     else if \<not> validRealmName realm then Inl (InvalidRealmName cn)
     else (case Parse dev of
         Inl e \<Rightarrow> Inl (InvalidDeviceID cn e)
       | Inr i \<Rightarrow> Inr \<lparr>id_Realm = realm, id_DeviceID = i\<rparr>))"

datatype topic_error =
    NoRealmSegment string
  | NoDeviceSegment string

definition SplitTopic :: "string \<Rightarrow> topic_error + (string \<times> string \<times> string)" where
  "SplitTopic topic = (case Cut topic (CHR ''/'') of (realm, tail, ok) \<Rightarrow>
     if \<not> ok \<or> \<not> validRealmName realm then Inl (NoRealmSegment topic)
     else (case Cut tail (CHR ''/'') of (device, rest, _) \<Rightarrow>
       if length device \<noteq> EncodedLen then Inl (NoDeviceSegment topic)
       else Inr (realm, device, rest)))"

section \<open>The ACL matrix\<close>

type_synonym ownershipFn = "string \<Rightarrow> Ownership option"

definition maxTopicBytes :: nat where
  "maxTopicBytes = 512"

definition checkACL :: "string \<Rightarrow> string \<Rightarrow> bool \<Rightarrow> ownershipFn \<Rightarrow> bool" where
  "checkACL base topic isWrite ownership =
    (if topic = [] \<or> length topic > maxTopicBytes then False
     else if isWrite then
       (if topic = base then True
        else (case CutPrefix topic (base @ ''/'') of
            None \<Rightarrow> False
          | Some rest \<Rightarrow>
              (if rest = ''capabilities'' \<or> rest = ''control/emptyCache'' \<or> rest = ''control/producer/properties''
               then True
               else (case Cut rest (CHR ''/'') of (iface, path, found) \<Rightarrow>
                 if \<not> found \<or> path = [] then False
                 else ownership iface = Some OwnershipDevice))))
     else
       (case CutPrefix topic (base @ ''/'') of
           None \<Rightarrow> False
         | Some rest \<Rightarrow>
             (if ContainsAny topic ''+#'' then True
              else if rest = ''control/consumer/properties'' then True
              else (case Cut rest (CHR ''/'') of (iface, _, _) \<Rightarrow>
                ownership iface = Some OwnershipServer))))"

section \<open>Identities and their printed form\<close>

definition identity_ok :: "Identity \<Rightarrow> bool" where
  "identity_ok i \<longleftrightarrow> validRealmName (id_Realm i) \<and> id_ok (id_DeviceID i)"

lemma realmNameLoop_chars:
  "realmNameLoop f s \<Longrightarrow> \<forall>c \<in> set s. (CHR ''a'' \<le> c \<and> c \<le> CHR ''z'') \<or> (CHR ''0'' \<le> c \<and> c \<le> CHR ''9'')"
  by (induction f s rule: realmNameLoop.induct) (auto split: if_splits)

lemma validRealmName_noslash: "validRealmName s \<Longrightarrow> CHR ''/'' \<notin> set s"
  using realmNameLoop_chars [of True s] by (auto simp: validRealmName_def less_eq_char_def split: if_splits)

lemma validRealmName_nometa:
  "validRealmName s \<Longrightarrow> CHR ''+'' \<notin> set s" "validRealmName s \<Longrightarrow> CHR ''#'' \<notin> set s"
  using realmNameLoop_chars [of True s] by (auto simp: validRealmName_def less_eq_char_def split: if_splits)

lemma ParseCN_iff: "ParseCN cn = Inr i \<longleftrightarrow> identity_ok i \<and> cn = CN i"
proof
  assume h: "ParseCN cn = Inr i"
  obtain r d f where c: "Cut cn (CHR ''/'') = (r, d, f)" by (cases "Cut cn (CHR ''/'')") auto
  from h c have "f" "validRealmName r" "Parse d = Inr (id_DeviceID i)" "id_Realm i = r"
    by (auto simp: ParseCN_def split: if_splits sum.splits)
  moreover from this c have "cn = r @ CHR ''/'' # d" by (simp add: Cut_found_iff)
  ultimately show "identity_ok i \<and> cn = CN i" by (auto simp: identity_ok_def CN_def Parse_iff)
next
  assume h: "identity_ok i \<and> cn = CN i"
  then have "Cut cn (CHR ''/'') = (id_Realm i, ID_String (id_DeviceID i), True)"
    by (simp add: identity_ok_def CN_def validRealmName_noslash)
  moreover have "Parse (ID_String (id_DeviceID i)) = Inr (id_DeviceID i)"
    using h by (simp add: identity_ok_def Parse_iff)
  ultimately show "ParseCN cn = Inr i" using h by (simp add: ParseCN_def identity_ok_def)
qed

lemma CN_inject: "identity_ok i \<Longrightarrow> identity_ok j \<Longrightarrow> CN i = CN j \<Longrightarrow> i = j"
  by (metis ParseCN_iff sum.inject(2))

lemma CN_not_empty [simp]: "CN i \<noteq> []"
  by (simp add: CN_def)

lemma BaseTopic_prefix:
  assumes "identity_ok i" "identity_ok j"
    and "BaseTopic i @ ''/'' @ r = BaseTopic j @ t" "t = [] \<or> hd t = CHR ''/''"
  shows "i = j"
proof -
  have s: "CHR ''/'' \<notin> set (id_Realm i)" "CHR ''/'' \<notin> set (id_Realm j)"
    using assms(1,2) by (simp_all add: identity_ok_def validRealmName_noslash)
  have "id_Realm i @ CHR ''/'' # (ID_String (id_DeviceID i) @ CHR ''/'' # r) =
      id_Realm j @ CHR ''/'' # (ID_String (id_DeviceID j) @ t)"
    using assms(3) by (simp add: BaseTopic_def CN_def)
  then have r: "id_Realm i = id_Realm j"
    and d: "ID_String (id_DeviceID i) @ CHR ''/'' # r = ID_String (id_DeviceID j) @ t"
    using s by (metis Cut_app prod.inject)+
  have "length (ID_String (id_DeviceID i)) = length (ID_String (id_DeviceID j))"
    using assms(1,2) by (simp add: identity_ok_def ID_String_length)
  with d have "ID_String (id_DeviceID i) = ID_String (id_DeviceID j)" by simp
  with r show ?thesis using assms(1,2)
    by (intro Identity.equality) (auto simp: identity_ok_def intro: ID_String_inject)
qed

section \<open>What the matrix grants\<close>

lemma checkACL_subtree:
  assumes "checkACL base topic w own"
  obtains (root) "w" "topic = base" | (below) r where "topic = base @ ''/'' @ r"
  using assms unfolding checkACL_def
  by (auto simp: CutPrefix_Some_iff split: if_splits option.splits)

lemma Cut_found_ex:
  "(\<exists>a b. s = a @ c # b \<and> c \<notin> set a \<and> P a b) \<longleftrightarrow> (case Cut s c of (a, b, found) \<Rightarrow> found \<and> P a b)"
  (is "?L = ?R")
proof
  assume ?L
  then obtain a b where "s = a @ c # b" "c \<notin> set a" "P a b" by blast
  then show ?R by simp
next
  assume r: ?R
  obtain a b f where c: "Cut s c = (a, b, f)" by (cases "Cut s c")
  with r have p: "f" "P a b" by simp_all
  with c have "s = a @ c # b \<and> c \<notin> set a" using Cut_found_iff [of s c a b] by simp
  with p(2) show ?L by blast
qed

lemma checkACL_write_iff:
  "checkACL base topic True own \<longleftrightarrow> 0 < length topic \<and> length topic \<le> maxTopicBytes \<and>
    (topic = base \<or> topic \<in> (\<lambda>s. base @ ''/'' @ s) ` {''capabilities'', ''control/emptyCache'', ''control/producer/properties''} \<or>
     (\<exists>iface path. topic = base @ ''/'' @ iface @ ''/'' @ path \<and> CHR ''/'' \<notin> set iface \<and> path \<noteq> [] \<and>
        own iface = Some OwnershipDevice))"
proof (cases "CutPrefix topic (base @ ''/'')")
  case None
  then have "\<And>r. topic \<noteq> base @ ''/'' @ r" using CutPrefix_Some_iff [of topic "base @ ''/''"] by auto
  with None show ?thesis by (auto simp: checkACL_def)
next
  case (Some rest)
  then have t: "topic = base @ ''/'' @ rest" by (simp add: CutPrefix_Some_iff)
  have ex: "(\<exists>iface path. topic = base @ ''/'' @ iface @ ''/'' @ path \<and> CHR ''/'' \<notin> set iface \<and> path \<noteq> [] \<and>
        own iface = Some OwnershipDevice) \<longleftrightarrow>
      (case Cut rest (CHR ''/'') of (iface, path, found) \<Rightarrow> found \<and> path \<noteq> [] \<and> own iface = Some OwnershipDevice)"
    using Cut_found_ex [of rest "CHR ''/''" "\<lambda>iface path. path \<noteq> [] \<and> own iface = Some OwnershipDevice"]
    by (simp add: t)
  have control: "topic \<in> (\<lambda>s. base @ ''/'' @ s) ` S \<longleftrightarrow> rest \<in> S" for S by (auto simp: t)
  have "topic \<noteq> []" "topic \<noteq> base" by (simp_all add: t)
  then show ?thesis unfolding ex control checkACL_def Some
    by (cases "Cut rest (CHR ''/'')") (simp add: not_less disj_assoc)
qed

lemma checkACL_deliver_iff:
  assumes "CHR ''+'' \<notin> set topic" "CHR ''#'' \<notin> set topic"
  shows "checkACL base topic False own \<longleftrightarrow> length topic \<le> maxTopicBytes \<and>
    (topic = base @ ''/control/consumer/properties'' \<or>
     (\<exists>iface rest. topic = base @ ''/'' @ iface @ rest \<and> CHR ''/'' \<notin> set iface \<and>
        (rest = [] \<or> hd rest = CHR ''/'') \<and> own iface = Some OwnershipServer))"
proof (cases "CutPrefix topic (base @ ''/'')")
  case None
  then have "\<And>r. topic \<noteq> base @ ''/'' @ r" using CutPrefix_Some_iff [of topic "base @ ''/''"] by auto
  with None show ?thesis by (auto simp: checkACL_def)
next
  case (Some rest)
  then have t: "topic = base @ ''/'' @ rest" by (simp add: CutPrefix_Some_iff)
  have m: "\<not> ContainsAny topic ''+#''" using assms by (auto simp: ContainsAny_iff)
  obtain i p f where c: "Cut rest (CHR ''/'') = (i, p, f)" by (cases "Cut rest (CHR ''/'')") auto
  have "(\<exists>i' r'. rest = i' @ r' \<and> CHR ''/'' \<notin> set i' \<and> (r' = [] \<or> hd r' = CHR ''/'') \<and> own i' = Some OwnershipServer)
      \<longleftrightarrow> own i = Some OwnershipServer" (is "?L = ?R")
  proof
    assume ?L
    then obtain i' r' where "rest = i' @ r'" "CHR ''/'' \<notin> set i'" "r' = [] \<or> hd r' = CHR ''/''"
      and o: "own i' = Some OwnershipServer" by blast
    then have "i' = i" using c by (cases r') auto
    with o show ?R by simp
  next
    assume ?R
    show ?L
    proof (cases f)
      case True
      with c have "rest = i @ CHR ''/'' # p" "CHR ''/'' \<notin> set i" by (simp_all add: Cut_found_iff)
      with \<open>?R\<close> show ?L by force
    next
      case False
      with c have "rest = i" "CHR ''/'' \<notin> set i" by (auto simp: Cut_notfound_iff)
      with \<open>?R\<close> show ?L by force
    qed
  qed
  with Some t m c show ?thesis by (auto simp: checkACL_def)
qed

section \<open>Properties\<close>

text \<open>C9. Devices are isolated: no topic or filter is granted, for publishing or for reading, to
  two different devices, whatever interfaces they have introspected.\<close>

theorem acl_isolates_devices:
  assumes "identity_ok i" "identity_ok j"
    and "checkACL (BaseTopic i) topic w own" "checkACL (BaseTopic j) topic w' own'"
  shows "i = j"
  using assms(3)
proof (cases rule: checkACL_subtree)
  case root
  from assms(4) show ?thesis
  proof (cases rule: checkACL_subtree)
    case root
    with \<open>topic = BaseTopic i\<close> show ?thesis using assms(1,2) by (simp add: BaseTopic_def CN_inject)
  next
    case (below r)
    with \<open>topic = BaseTopic i\<close> have "BaseTopic j @ ''/'' @ r = BaseTopic i @ []" by simp
    then have "j = i" using assms(1,2) by (intro BaseTopic_prefix [of j i r "[]"]) simp_all
    then show ?thesis by simp
  qed
next
  case (below r)
  from assms(4) obtain t where "topic = BaseTopic j @ t" "t = [] \<or> hd t = CHR ''/''"
    by (cases rule: checkACL_subtree) force+
  with below show ?thesis using assms(1,2) by (intro BaseTopic_prefix [of i j r t]) simp_all
qed

definition sampleDevice :: Identity where
  "sampleDevice = \<lparr>id_Realm = ''test'', id_DeviceID = replicate 16 0x2a\<rparr>"

lemma sampleDevice_base: "BaseTopic sampleDevice = ''test/KioqKioqKioqKioqKioqKg''"
  by code_simp

theorem acl_isolates_devices_witness:
  "checkACL (BaseTopic sampleDevice) (BaseTopic sampleDevice @ ''/com.example.Sensor/value'') True
      (\<lambda>_. Some OwnershipDevice) \<and>
   \<not> checkACL (BaseTopic (sampleDevice\<lparr>id_Realm := ''other''\<rparr>)) (BaseTopic sampleDevice @ ''/com.example.Sensor/value'') True
      (\<lambda>_. Some OwnershipDevice)"
proof -
  have ok: "identity_ok sampleDevice" "identity_ok (sampleDevice\<lparr>id_Realm := ''other''\<rparr>)"
    "sampleDevice \<noteq> sampleDevice\<lparr>id_Realm := ''other''\<rparr>" by code_simp+
  have "checkACL (BaseTopic sampleDevice) (BaseTopic sampleDevice @ ''/com.example.Sensor/value'') True
      (\<lambda>_. Some OwnershipDevice)" unfolding sampleDevice_base by code_simp
  with acl_isolates_devices [OF ok(1,2) this] ok(3) show ?thesis by blast
qed

text \<open>A common name is accepted exactly when it is the printed form of the identity it yields,
  so the session key, the client identifier and the base topic name one device.\<close>

theorem common_name_exact:
  "ParseCN cn = Inr i \<longleftrightarrow> validRealmName (id_Realm i) \<and> length (id_DeviceID i) = 16 \<and> cn = BaseTopic i"
  by (simp add: ParseCN_iff identity_ok_def id_ok_def BaseTopic_def)

text \<open>A device may publish on exactly these topics: its base topic, the three control topics,
  and paths of interfaces it introspected as device-owned.\<close>

theorem publish_grants_exact:
  "checkACL base topic True own \<longleftrightarrow> 0 < length topic \<and> length topic \<le> 512 \<and>
    (topic = base \<or> topic \<in> {base @ ''/capabilities'', base @ ''/control/emptyCache'', base @ ''/control/producer/properties''} \<or>
     (\<exists>iface path. topic = base @ ''/'' @ iface @ ''/'' @ path \<and> CHR ''/'' \<notin> set iface \<and> path \<noteq> [] \<and>
        own iface = Some OwnershipDevice))"
  unfolding checkACL_write_iff by (simp add: maxTopicBytes_def)

end
