(* ===== verification/Pairing_CA.thy ===== *)
theory Pairing_CA
  imports Broker_Identity
begin

text \<open>
  Model of internal/pairing/ca/ca.go.  The X.509, PEM and ECDSA functions the package calls
  are the record pki, an argument of every operation; what the package relies on of them
  is the predicate pki_laws.  Times are integers in nanoseconds.  Random serials are drawn
  from a given list of draws, so an operation that needs one may run out of draws (None).
\<close>

section \<open>Certificates and keys\<close>

datatype KeyUsage = KeyUsageCertSign | KeyUsageCRLSign | KeyUsageDigitalSignature

datatype ExtKeyUsage = ExtKeyUsageClientAuth | ExtKeyUsageServerAuth

record Certificate =
  x_Raw :: "byte list"
  x_SerialNumber :: int
  x_CommonName :: string
  x_NotBefore :: int
  x_NotAfter :: int
  x_AuthorityKeyId :: "byte list"
  x_SubjectKeyId :: "byte list"
  x_PublicKey :: "byte list"
  x_ExtKeyUsage :: "ExtKeyUsage list"
  x_IsCA :: bool

record template =
  tpl_SerialNumber :: int
  tpl_CommonName :: string
  tpl_Organization :: "string list"
  tpl_NotBefore :: int
  tpl_NotAfter :: int
  tpl_KeyUsage :: "KeyUsage list"
  tpl_ExtKeyUsage :: "ExtKeyUsage list"
  tpl_IsCA :: bool
  tpl_MaxPathLenZero :: bool

datatype PrivateKey = ECDSAKey "byte list" "byte list" | OtherKey

fun PublicKeyOf :: "PrivateKey \<Rightarrow> byte list option" where
  "PublicKeyOf (ECDSAKey pub sec) = Some pub"
| "PublicKeyOf OtherKey = None"

record CertificateRequest =
  csr_PublicKey :: "byte list"
  csr_SignatureOK :: bool

datatype verify_error = VerifyExpired | VerifyOther string

record pki =
  pemDecode :: "string \<Rightarrow> (string \<times> byte list) option"
  pemEncode :: "string \<Rightarrow> byte list \<Rightarrow> string"
  x509ParseCertificate :: "byte list \<Rightarrow> string + Certificate"
  x509ParsePKCS8 :: "byte list \<Rightarrow> string + PrivateKey"
  x509MarshalPKCS8 :: "PrivateKey \<Rightarrow> string + byte list"
  x509ParseCSR :: "byte list \<Rightarrow> string + CertificateRequest"
  x509CreateCertificate :: "template \<Rightarrow> Certificate option \<Rightarrow> byte list \<Rightarrow> PrivateKey \<Rightarrow> string + byte list"
  x509Verify :: "Certificate \<Rightarrow> Certificate list \<Rightarrow> Certificate list \<Rightarrow> int \<Rightarrow> verify_error option"

record CA =
  ca_cert :: Certificate
  ca_key :: PrivateKey
  ca_certPEM :: string
  ca_keyDER :: "byte list"

section \<open>Constants and errors\<close>

definition SecondNs :: int where "SecondNs = 1000000000"
definition MinuteNs :: int where "MinuteNs = 60 * SecondNs"
definition HourNs :: int where "HourNs = 60 * MinuteNs"

definition DefaultCALifetime :: int where "DefaultCALifetime = 10 * 365 * 24 * HourNs"
definition DefaultCertTTL :: int where "DefaultCertTTL = 30 * 24 * HourNs"
definition clockSkewBackdate :: int where "clockSkewBackdate = 5 * MinuteNs"
definition serialBytes :: nat where "serialBytes = 16"

datatype ca_error =
    ErrInvalidCSR string
  | ErrCAExpired
  | ErrCertificateExpired
  | ErrCertificateInvalid string
  | NotPEMCertificate
  | ParsingCertificate string
  | ParsingKey string
  | NotECDSA
  | KeyMismatch
  | SerialRandomness string
  | Signing string
  | Reparsing string
  | MarshallingKey string
  | GeneratingKey string

section \<open>Operations\<close>

definition ParseCertificatePEM :: "pki \<Rightarrow> string \<Rightarrow> ca_error + Certificate" where
  "ParseCertificatePEM P certPEM =
    (case pemDecode P certPEM of
       None \<Rightarrow> Inl NotPEMCertificate
     | Some (typ', bytes) \<Rightarrow>
         (if typ' \<noteq> ''CERTIFICATE'' then Inl NotPEMCertificate
          else (case x509ParseCertificate P bytes of
              Inl e \<Rightarrow> Inl (ParsingCertificate e)
            | Inr cert \<Rightarrow> Inr cert)))"

definition parseCSR :: "pki \<Rightarrow> string \<Rightarrow> ca_error + CertificateRequest" where
  "parseCSR P csrPEM =
    (case pemDecode P csrPEM of
       None \<Rightarrow> Inl (ErrInvalidCSR ''not a PEM certificate request'')
     | Some (typ', bytes) \<Rightarrow>
         (if typ' \<noteq> ''CERTIFICATE REQUEST'' \<and> typ' \<noteq> ''NEW CERTIFICATE REQUEST''
          then Inl (ErrInvalidCSR ''not a PEM certificate request'')
          else (case x509ParseCSR P bytes of
              Inl e \<Rightarrow> Inl (ErrInvalidCSR e)
            | Inr csr \<Rightarrow> Inr csr)))"

text \<open>big.Int.SetBytes: big-endian value.\<close>

definition SetBytes :: "byte list \<Rightarrow> int" where
  "SetBytes bs = foldl (\<lambda>a b. 256 * a + uint b) 0 bs"

text \<open>randomSerial draws until the value is positive; None when the given draws are used up.\<close>

fun randomSerial :: "(string + byte list) list \<Rightarrow> (ca_error + int) option" where
  "randomSerial [] = None"
| "randomSerial (Inl e # rs) = Some (Inl (SerialRandomness e))"
| "randomSerial (Inr buf # rs) =
     (let serial = SetBytes buf in if serial > 0 then Some (Inr serial) else randomSerial rs)"

definition encodeCertPEM :: "pki \<Rightarrow> byte list \<Rightarrow> string" where
  "encodeCertPEM P der = pemEncode P ''CERTIFICATE'' der"

definition Generate ::
  "pki \<Rightarrow> int \<Rightarrow> string + PrivateKey \<Rightarrow> (string + byte list) list \<Rightarrow> string \<Rightarrow> int \<Rightarrow> (ca_error + CA) option" where
  "Generate P now keygen draws realm lifetime =
    (let life = (if lifetime = 0 then DefaultCALifetime else lifetime)
     in case keygen of
       Inl e \<Rightarrow> Some (Inl (GeneratingKey e))
     | Inr key \<Rightarrow>
         (case randomSerial draws of
            None \<Rightarrow> None
          | Some (Inl e) \<Rightarrow> Some (Inl e)
          | Some (Inr serial) \<Rightarrow>
              (let tpl = \<lparr>tpl_SerialNumber = serial, tpl_CommonName = ''Astrate Realm '' @ realm @ '' CA'',
                          tpl_Organization = [''Astrate''], tpl_NotBefore = now - clockSkewBackdate,
                          tpl_NotAfter = now + life, tpl_KeyUsage = [KeyUsageCertSign, KeyUsageCRLSign],
                          tpl_ExtKeyUsage = [], tpl_IsCA = True, tpl_MaxPathLenZero = True\<rparr>;
                   pub = (case PublicKeyOf key of None \<Rightarrow> [] | Some p \<Rightarrow> p)
               in Some (case x509CreateCertificate P tpl None pub key of
                   Inl e \<Rightarrow> Inl (Signing e)
                 | Inr der \<Rightarrow>
                     (case x509ParseCertificate P der of
                        Inl e \<Rightarrow> Inl (Reparsing e)
                      | Inr cert \<Rightarrow>
                          (case x509MarshalPKCS8 P key of
                             Inl e \<Rightarrow> Inl (MarshallingKey e)
                           | Inr keyDER \<Rightarrow>
                               Inr \<lparr>ca_cert = cert, ca_key = key, ca_certPEM = encodeCertPEM P der, ca_keyDER = keyDER\<rparr>))))))"

definition Load :: "pki \<Rightarrow> string \<Rightarrow> byte list \<Rightarrow> ca_error + CA" where
  "Load P certPEM keyDER =
    bindR (ParseCertificatePEM P certPEM) (\<lambda>cert.
      case x509ParsePKCS8 P keyDER of
        Inl e \<Rightarrow> Inl (ParsingKey e)
      | Inr key \<Rightarrow>
          (case PublicKeyOf key of
             None \<Rightarrow> Inl NotECDSA
           | Some pub \<Rightarrow>
               (if pub \<noteq> x_PublicKey cert then Inl KeyMismatch
                else Inr \<lparr>ca_cert = cert, ca_key = key, ca_certPEM = certPEM, ca_keyDER = keyDER\<rparr>)))"

text \<open>The validity end of an issued certificate: the requested span, clamped to the authority's.\<close>

definition leafNotAfter :: "CA \<Rightarrow> int \<Rightarrow> int \<Rightarrow> int" where
  "leafNotAfter c now ttl =
    (let life = (if ttl \<le> 0 then DefaultCertTTL else ttl)
     in if now + life > x_NotAfter (ca_cert c) then x_NotAfter (ca_cert c) else now + life)"

definition leafTemplate :: "CA \<Rightarrow> int \<Rightarrow> int \<Rightarrow> int \<Rightarrow> string \<Rightarrow> string \<Rightarrow> template" where
  "leafTemplate c now ttl serial realm deviceID =
    \<lparr>tpl_SerialNumber = serial, tpl_CommonName = realm @ ''/'' @ deviceID, tpl_Organization = [],
     tpl_NotBefore = now - clockSkewBackdate, tpl_NotAfter = leafNotAfter c now ttl,
     tpl_KeyUsage = [KeyUsageDigitalSignature], tpl_ExtKeyUsage = [ExtKeyUsageClientAuth],
     tpl_IsCA = False, tpl_MaxPathLenZero = False\<rparr>"

definition SignCSR ::
  "pki \<Rightarrow> CA \<Rightarrow> int \<Rightarrow> (string + byte list) list \<Rightarrow> string \<Rightarrow> string \<Rightarrow> string \<Rightarrow> int
    \<Rightarrow> (ca_error + string \<times> string \<times> string) option" where
  "SignCSR P c now draws csrPEM realm deviceID ttl =
    (case parseCSR P csrPEM of
       Inl e \<Rightarrow> Some (Inl e)
     | Inr csr \<Rightarrow>
         (if \<not> csr_SignatureOK csr then Some (Inl (ErrInvalidCSR ''proof-of-possession signature''))
          else if now < x_NotBefore (ca_cert c) \<or> now > x_NotAfter (ca_cert c) then Some (Inl ErrCAExpired)
          else (case randomSerial draws of
              None \<Rightarrow> None
            | Some (Inl e) \<Rightarrow> Some (Inl e)
            | Some (Inr serial) \<Rightarrow>
                Some (case x509CreateCertificate P (leafTemplate c now ttl serial realm deviceID)
                         (Some (ca_cert c)) (csr_PublicKey csr) (ca_key c) of
                    Inl e \<Rightarrow> Inl (Signing e)
                  | Inr der \<Rightarrow>
                      (case x509ParseCertificate P der of
                         Inl e \<Rightarrow> Inl (Reparsing e)
                       | Inr leaf \<Rightarrow>
                           Inr (encodeCertPEM P der, Itoa (x_SerialNumber leaf), hexEncode (x_AuthorityKeyId leaf)))))))"

definition CA_Verify :: "pki \<Rightarrow> CA \<Rightarrow> string \<Rightarrow> int \<Rightarrow> ca_error + int" where
  "CA_Verify P c certPEM at =
    (case ParseCertificatePEM P certPEM of
       Inl e \<Rightarrow> Inl (ErrCertificateInvalid certPEM)
     | Inr cert \<Rightarrow>
         (if at > x_NotAfter cert \<or> at < x_NotBefore cert then Inl ErrCertificateExpired
          else (case x509Verify P cert [ca_cert c] [] at of
              Some VerifyExpired \<Rightarrow> Inl ErrCertificateExpired
            | Some (VerifyOther e) \<Rightarrow> Inl (ErrCertificateInvalid certPEM)
            | None \<Rightarrow> Inr (x_NotAfter cert))))"

section \<open>What the package relies on\<close>

text \<open>PEM decoding inverts encoding.  A created certificate parses to the fields of its template,
  carries the key identifier of its parent, and verifies against a pool that holds that
  parent, inside both validity windows, when it is marked for client authentication and the
  signing key is the one of the parent.\<close>

definition pki_laws :: "pki \<Rightarrow> bool" where
  "pki_laws P \<longleftrightarrow>
    (\<forall>t bytes. pemDecode P (pemEncode P t bytes) = Some (t, bytes)) \<and>
    (\<forall>tpl parent pub key der. x509CreateCertificate P tpl (Some parent) pub key = Inr der \<longrightarrow>
       (\<exists>leaf. x509ParseCertificate P der = Inr leaf \<and> x_CommonName leaf = tpl_CommonName tpl \<and>
          x_SerialNumber leaf = tpl_SerialNumber tpl \<and> x_NotBefore leaf = tpl_NotBefore tpl \<and>
          x_NotAfter leaf = tpl_NotAfter tpl \<and> x_AuthorityKeyId leaf = x_SubjectKeyId parent \<and>
          x_PublicKey leaf = pub \<and> x_ExtKeyUsage leaf = tpl_ExtKeyUsage tpl \<and>
          (\<forall>at inter. PublicKeyOf key = Some (x_PublicKey parent) \<and> ExtKeyUsageClientAuth \<in> set (tpl_ExtKeyUsage tpl) \<and>
             tpl_NotBefore tpl \<le> at \<and> at \<le> tpl_NotAfter tpl \<and>
             x_NotBefore parent \<le> at \<and> at \<le> x_NotAfter parent \<longrightarrow>
             x509Verify P leaf [parent] inter at = None)))"

lemma pki_pem: "pki_laws P \<Longrightarrow> pemDecode P (pemEncode P t bytes) = Some (t, bytes)"
  by (simp add: pki_laws_def)

lemma pki_create:
  assumes "pki_laws P" "x509CreateCertificate P tpl (Some parent) pub key = Inr der"
  obtains leaf where "x509ParseCertificate P der = Inr leaf" "x_CommonName leaf = tpl_CommonName tpl"
    "x_SerialNumber leaf = tpl_SerialNumber tpl" "x_NotBefore leaf = tpl_NotBefore tpl"
    "x_NotAfter leaf = tpl_NotAfter tpl" "x_AuthorityKeyId leaf = x_SubjectKeyId parent"
    "\<And>at inter. PublicKeyOf key = Some (x_PublicKey parent) \<Longrightarrow>
        ExtKeyUsageClientAuth \<in> set (tpl_ExtKeyUsage tpl) \<Longrightarrow>
        tpl_NotBefore tpl \<le> at \<Longrightarrow> at \<le> tpl_NotAfter tpl \<Longrightarrow>
        x_NotBefore parent \<le> at \<Longrightarrow> at \<le> x_NotAfter parent \<Longrightarrow> x509Verify P leaf [parent] inter at = None"
proof -
  from assms(1) have "x509CreateCertificate P tpl (Some parent) pub key = Inr der \<longrightarrow>
     (\<exists>leaf. x509ParseCertificate P der = Inr leaf \<and> x_CommonName leaf = tpl_CommonName tpl \<and>
        x_SerialNumber leaf = tpl_SerialNumber tpl \<and> x_NotBefore leaf = tpl_NotBefore tpl \<and>
        x_NotAfter leaf = tpl_NotAfter tpl \<and> x_AuthorityKeyId leaf = x_SubjectKeyId parent \<and>
        x_PublicKey leaf = pub \<and> x_ExtKeyUsage leaf = tpl_ExtKeyUsage tpl \<and>
        (\<forall>at inter. PublicKeyOf key = Some (x_PublicKey parent) \<and> ExtKeyUsageClientAuth \<in> set (tpl_ExtKeyUsage tpl) \<and>
           tpl_NotBefore tpl \<le> at \<and> at \<le> tpl_NotAfter tpl \<and>
           x_NotBefore parent \<le> at \<and> at \<le> x_NotAfter parent \<longrightarrow>
           x509Verify P leaf [parent] inter at = None))"
    unfolding pki_laws_def by (elim conjE allE)
  with assms(2) that show thesis by auto
qed

section \<open>Issued certificates\<close>

text \<open>A loaded authority holds the key of its certificate.\<close>

lemma Load_key:
  assumes "Load P certPEM keyDER = Inr c"
  shows "PublicKeyOf (ca_key c) = Some (x_PublicKey (ca_cert c))" "ParseCertificatePEM P certPEM = Inr (ca_cert c)"
    "ca_certPEM c = certPEM"
  using assms
  by (cases "x509ParsePKCS8 P keyDER"; auto simp: Load_def split: option.splits if_splits)+

lemma leafNotAfter_bounds:
  "leafNotAfter c now ttl \<le> x_NotAfter (ca_cert c)"
  "now \<le> x_NotAfter (ca_cert c) \<Longrightarrow> now \<le> leafNotAfter c now ttl"
  by (auto simp: leafNotAfter_def Let_def DefaultCertTTL_def HourNs_def MinuteNs_def SecondNs_def)

lemma SignCSR_issued:
  assumes laws: "pki_laws P" and sign: "SignCSR P c now draws csrPEM realm deviceID ttl = Some (Inr (pem, serial, aki))"
    and key: "PublicKeyOf (ca_key c) = Some (x_PublicKey (ca_cert c))"
  obtains leaf where "ParseCertificatePEM P pem = Inr leaf" "x_CommonName leaf = realm @ ''/'' @ deviceID"
    "serial = Itoa (x_SerialNumber leaf)" "aki = hexEncode (x_AuthorityKeyId leaf)"
    "x_NotBefore leaf = now - clockSkewBackdate" "x_NotAfter leaf = leafNotAfter c now ttl"
    "\<And>at inter. now \<le> at \<Longrightarrow> at \<le> x_NotAfter leaf \<Longrightarrow> x509Verify P leaf [ca_cert c] inter at = None"
    "x_NotBefore (ca_cert c) \<le> now" "now \<le> x_NotAfter (ca_cert c)"
proof -
  have "\<exists>n (csr :: CertificateRequest) der leaf0. x_NotBefore (ca_cert c) \<le> now \<and> now \<le> x_NotAfter (ca_cert c) \<and>
      x509CreateCertificate P (leafTemplate c now ttl n realm deviceID) (Some (ca_cert c)) (csr_PublicKey csr) (ca_key c) = Inr der \<and>
      x509ParseCertificate P der = Inr leaf0 \<and> pem = encodeCertPEM P der \<and>
      serial = Itoa (x_SerialNumber leaf0) \<and> aki = hexEncode (x_AuthorityKeyId leaf0)"
    using sign unfolding SignCSR_def
    by (auto simp: not_less split: sum.split_asm option.split_asm if_split_asm)
  then obtain csr :: CertificateRequest and n der leaf0 where win: "x_NotBefore (ca_cert c) \<le> now" "now \<le> x_NotAfter (ca_cert c)"
    and der: "x509CreateCertificate P (leafTemplate c now ttl n realm deviceID) (Some (ca_cert c)) (csr_PublicKey csr) (ca_key c) = Inr der"
    and out0: "x509ParseCertificate P der = Inr leaf0" "pem = encodeCertPEM P der"
      "serial = Itoa (x_SerialNumber leaf0)" "aki = hexEncode (x_AuthorityKeyId leaf0)"
    by blast
  from laws der obtain leaf where leaf: "x509ParseCertificate P der = Inr leaf"
    "x_CommonName leaf = realm @ ''/'' @ deviceID" "x_NotBefore leaf = now - clockSkewBackdate"
    "x_NotAfter leaf = leafNotAfter c now ttl"
    "\<And>at inter. now - clockSkewBackdate \<le> at \<Longrightarrow> at \<le> leafNotAfter c now ttl \<Longrightarrow>
        x_NotBefore (ca_cert c) \<le> at \<Longrightarrow> at \<le> x_NotAfter (ca_cert c) \<Longrightarrow> x509Verify P leaf [ca_cert c] inter at = None"
    by (rule pki_create) (use key in \<open>auto simp: leafTemplate_def\<close>)
  have out: "pem = encodeCertPEM P der \<and> serial = Itoa (x_SerialNumber leaf) \<and> aki = hexEncode (x_AuthorityKeyId leaf)"
    using out0 leaf(1) by simp
  have "ParseCertificatePEM P pem = Inr leaf"
    using out leaf(1) by (simp add: ParseCertificatePEM_def encodeCertPEM_def pki_pem [OF laws])
  moreover have "x509Verify P leaf [ca_cert c] inter at = None" if "now \<le> at" "at \<le> x_NotAfter leaf" for at inter
    using that leaf(4,5) win(1) leafNotAfter_bounds(1) [of c now ttl]
    by (auto simp: clockSkewBackdate_def MinuteNs_def SecondNs_def)
  ultimately show ?thesis using that out leaf win by blast
qed

section \<open>A provider\<close>

text \<open>A concrete provider that satisfies the laws: one authority, one request, and the one
  certificate it issues for it.\<close>

definition samplePemEncode :: "string \<Rightarrow> byte list \<Rightarrow> string" where
  "samplePemEncode t bs = replicate (length t) (CHR ''x'') @ CHR ''|'' # t @ map (\<lambda>b. char_of (unat b)) bs"

definition samplePemDecode :: "string \<Rightarrow> (string \<times> byte list) option" where
  "samplePemDecode s = (case Cut s (CHR ''|'') of (n, r, ok) \<Rightarrow>
     if ok then Some (take (length n) r, map (\<lambda>c. of_nat (of_char c)) (drop (length n) r)) else None)"

lemma samplePem: "samplePemDecode (samplePemEncode t bs) = Some (t, bs)"
proof -
  have "of_nat (of_char (char_of (unat b))) = b" for b :: byte
    using byte_bound [of b] by (simp add: of_char_of)
  then show ?thesis by (simp add: samplePemEncode_def samplePemDecode_def Cut_app map_idI)
qed

definition sampleCACert :: Certificate where
  "sampleCACert = \<lparr>x_Raw = [7], x_SerialNumber = 1, x_CommonName = ''Astrate Realm test CA'', x_NotBefore = 0,
     x_NotAfter = DefaultCALifetime, x_AuthorityKeyId = [], x_SubjectKeyId = [9], x_PublicKey = [3],
     x_ExtKeyUsage = [], x_IsCA = True\<rparr>"

definition sampleCA :: CA where
  "sampleCA = \<lparr>ca_cert = sampleCACert, ca_key = ECDSAKey [3] [4],
     ca_certPEM = samplePemEncode ''CERTIFICATE'' [7], ca_keyDER = [6]\<rparr>"

definition sampleTemplate :: template where
  "sampleTemplate = leafTemplate sampleCA 100 DefaultCertTTL 5 ''test'' ''KioqKioqKioqKioqKioqKg''"

definition sampleLeaf :: Certificate where
  "sampleLeaf = \<lparr>x_Raw = [42], x_SerialNumber = 5, x_CommonName = ''test/KioqKioqKioqKioqKioqKg'',
     x_NotBefore = 100 - clockSkewBackdate, x_NotAfter = leafNotAfter sampleCA 100 DefaultCertTTL,
     x_AuthorityKeyId = [9], x_SubjectKeyId = [], x_PublicKey = [1],
     x_ExtKeyUsage = [ExtKeyUsageClientAuth], x_IsCA = False\<rparr>"

definition samplePki :: pki where
  "samplePki = \<lparr>pemDecode = samplePemDecode, pemEncode = samplePemEncode,
     x509ParseCertificate = (\<lambda>der. if der = [7] then Inr sampleCACert else if der = [42] then Inr sampleLeaf
        else Inl ''malformed certificate''),
     x509ParsePKCS8 = (\<lambda>der. if der = [6] then Inr (ECDSAKey [3] [4]) else Inl ''malformed key''),
     x509MarshalPKCS8 = (\<lambda>key. if key = ECDSAKey [3] [4] then Inr [6] else Inl ''unknown key''),
     x509ParseCSR = (\<lambda>der. if der = [8] then Inr \<lparr>csr_PublicKey = [1], csr_SignatureOK = True\<rparr>
        else Inl ''malformed request''),
     x509CreateCertificate = (\<lambda>tpl parent pub key.
        if tpl = sampleTemplate \<and> parent = Some sampleCACert \<and> pub = [1] \<and> key = ECDSAKey [3] [4]
        then Inr [42] else Inl ''unsupported''),
     x509Verify = (\<lambda>leaf roots inter at.
        if leaf = sampleLeaf \<and> roots = [sampleCACert] \<and> x_NotBefore sampleLeaf \<le> at \<and> at \<le> x_NotAfter sampleLeaf
        then None else Some VerifyExpired)\<rparr>"

lemma samplePki_laws: "pki_laws samplePki"
  unfolding pki_laws_def
  by (simp add: samplePki_def samplePem sampleTemplate_def leafTemplate_def sampleLeaf_def sampleCACert_def)

section \<open>Properties\<close>



end
