(* ===== verification/Store_Devices.thy ===== *)
theory Store_Devices
  imports Schema_Compile Device_Id "HOL-Library.AList" "HOL-Library.List_Lexorder"
begin

text \<open>
  Model of internal/store/devices.go: the devices table and every statement the store runs
  on it.  The table is an association list keyed by realm and device identifier; an
  operation takes the error the database reports for it, if any, and returns its result
  with the new table.  A failed statement or transaction leaves the table as it was.
\<close>

section \<open>Rows\<close>

datatype store_error =
    ErrNotFound
  | ErrAlreadyExists
  | ErrInvalidRealmName
  | ErrDeviceAlreadyConfirmed
  | ErrInterfaceInUse
  | ErrInterfaceMajorNotZero
  | ErrInvalidHint string
  | ErrPg string
  | ErrDatabase string

text \<open>netip.Addr without zones: the zero address, or four or sixteen bytes.\<close>

datatype Addr = ZeroAddr | AddrV4 "byte list" | AddrV6 "byte list"

text \<open>Addr.Unmap: an IPv4 address mapped into IPv6 becomes an IPv4 address.\<close>

fun Unmap :: "Addr \<Rightarrow> Addr" where
  "Unmap (AddrV6 bs) =
     (if take 12 bs = replicate 10 0 @ [0xff, 0xff] then AddrV4 (drop 12 bs) else AddrV6 bs)"
| "Unmap a = a"

record InterfaceVersion =
  iv_Major :: int
  iv_Minor :: int

type_synonym introspection = "string \<Rightarrow> InterfaceVersion option"

definition DeviceStatusRegistered :: string where
  "DeviceStatusRegistered = ''registered''"

definition DeviceStatusConfirmed :: string where
  "DeviceStatusConfirmed = ''confirmed''"

definition DeviceStatusInhibited :: string where
  "DeviceStatusInhibited = ''inhibited''"

record Device =
  d_ID :: ID
  d_RealmID :: int
  d_CredentialsSecretHash :: string
  d_Status :: string
  d_Introspection :: introspection
  d_OldIntrospection :: introspection
  d_Aliases :: "(string \<times> string) list"
  d_Attributes :: "(string \<times> string) list"
  d_CertSerial :: "string option"
  d_CertAKI :: "string option"
  d_FirstRegistration :: int
  d_FirstCredentialsRequest :: "int option"
  d_LastCredentialsRequestIP :: "Addr option"
  d_LastConnection :: "int option"
  d_LastDisconnection :: "int option"
  d_LastSeenIP :: "Addr option"
  d_Connected :: bool
  d_TotalReceivedMsgs :: int
  d_TotalReceivedBytes :: int
  d_PayloadFormatHint :: string

type_synonym devices = "((int \<times> ID) \<times> Device) list"

section \<open>Statements\<close>

text \<open>The column defaults of the table (migrations/000002).\<close>

definition insertedDevice :: "int \<Rightarrow> int \<Rightarrow> ID \<Rightarrow> string \<Rightarrow> Device" where
  "insertedDevice now realmID i secretHash =
    \<lparr>d_ID = i, d_RealmID = realmID, d_CredentialsSecretHash = secretHash, d_Status = ''registered'',
     d_Introspection = Map.empty, d_OldIntrospection = Map.empty, d_Aliases = [],
     d_Attributes = [], d_CertSerial = None, d_CertAKI = None, d_FirstRegistration = now,
     d_FirstCredentialsRequest = None, d_LastCredentialsRequestIP = None, d_LastConnection = None,
     d_LastDisconnection = None, d_LastSeenIP = None, d_Connected = False, d_TotalReceivedMsgs = 0,
     d_TotalReceivedBytes = 0, d_PayloadFormatHint = ''bson''\<rparr>"

definition RegisterDevice ::
  "store_error option \<Rightarrow> int \<Rightarrow> int \<Rightarrow> ID \<Rightarrow> string \<Rightarrow> devices \<Rightarrow> (store_error + unit) \<times> devices" where
  "RegisterDevice fault now realmID i secretHash db =
    (case fault of
       Some e \<Rightarrow> (Inl e, db)
     | None \<Rightarrow>
         (case map_of db (realmID, i) of
            None \<Rightarrow> (Inr (), AList.update (realmID, i) (insertedDevice now realmID i secretHash) db)
          | Some d \<Rightarrow>
              (if d_FirstCredentialsRequest d = None
               then (Inr (), AList.update (realmID, i)
                   (d\<lparr>d_CredentialsSecretHash := secretHash, d_Status := ''registered''\<rparr>) db)
               else (Inl ErrDeviceAlreadyConfirmed, db))))"

text \<open>An UPDATE of one row by its primary key, failing with ErrNotFound when no row is affected.\<close>

definition updateDevice ::
  "store_error option \<Rightarrow> int \<Rightarrow> ID \<Rightarrow> (Device \<Rightarrow> Device) \<Rightarrow> devices \<Rightarrow> (store_error + unit) \<times> devices" where
  "updateDevice fault realmID i f db =
    (case fault of
       Some e \<Rightarrow> (Inl e, db)
     | None \<Rightarrow>
         (case map_of db (realmID, i) of
            None \<Rightarrow> (Inl ErrNotFound, db)
          | Some d \<Rightarrow> (Inr (), AList.update (realmID, i) (f d) db)))"

definition UnregisterDevice ::
  "store_error option \<Rightarrow> int \<Rightarrow> ID \<Rightarrow> devices \<Rightarrow> (store_error + unit) \<times> devices" where
  "UnregisterDevice fault realmID i =
    updateDevice fault realmID i
      (\<lambda>d. d\<lparr>d_CredentialsSecretHash := [], d_Status := ''registered'', d_FirstCredentialsRequest := None,
             d_CertSerial := None, d_CertAKI := None\<rparr>)"

definition GetDevice :: "store_error option \<Rightarrow> int \<Rightarrow> ID \<Rightarrow> devices \<Rightarrow> store_error + Device" where
  "GetDevice fault realmID i db =
    (case fault of
       Some e \<Rightarrow> Inl e
     | None \<Rightarrow> (case map_of db (realmID, i) of None \<Rightarrow> Inl ErrNotFound | Some d \<Rightarrow> Inr d))"

text \<open>The rows of a realm in the order of the uuid column.\<close>

definition realmRows :: "int \<Rightarrow> devices \<Rightarrow> (ID \<times> Device) list" where
  "realmRows realmID db = sort_key fst (map (\<lambda>((r, i), d). (i, d)) (filter (\<lambda>((r, i), d). r = realmID) db))"

definition GetDeviceByAlias ::
  "store_error option \<Rightarrow> int \<Rightarrow> string \<Rightarrow> devices \<Rightarrow> store_error + Device" where
  "GetDeviceByAlias fault realmID aliasValue db =
    (case fault of
       Some e \<Rightarrow> Inl e
     | None \<Rightarrow>
         (case filter (\<lambda>(i, d). list_ex (\<lambda>(tag, v). v = aliasValue) (d_Aliases d)) (realmRows realmID db) of
            [] \<Rightarrow> Inl ErrNotFound
          | (i, d) # _ \<Rightarrow> Inr d))"

definition ListDevices ::
  "store_error option \<Rightarrow> int \<Rightarrow> ID option \<Rightarrow> nat \<Rightarrow> devices \<Rightarrow> store_error + Device list" where
  "ListDevices fault realmID after limit db =
    (case fault of
       Some e \<Rightarrow> Inl e
     | None \<Rightarrow>
         (case after of
            Some a \<Rightarrow> Inr (map snd (take limit (filter (\<lambda>(i, d). a < i) (realmRows realmID db))))
          | None \<Rightarrow> Inr (map snd (take limit (realmRows realmID db)))))"

definition CountDevices :: "store_error option \<Rightarrow> int \<Rightarrow> devices \<Rightarrow> store_error + nat" where
  "CountDevices fault realmID db =
    (case fault of Some e \<Rightarrow> Inl e | None \<Rightarrow> Inr (length (filter (\<lambda>((r, i), d). r = realmID) db)))"

text \<open>The pairs of the current introspection whose name or major version the new one drops.\<close>

definition removedInterfaces :: "introspection \<Rightarrow> introspection \<Rightarrow> introspection" where
  "removedInterfaces current intro name =
    (case current name of
       None \<Rightarrow> None
     | Some v \<Rightarrow>
         (case intro name of
            None \<Rightarrow> Some v
          | Some nv \<Rightarrow> if iv_Major nv \<noteq> iv_Major v then Some v else None))"

definition UpdateIntrospection ::
  "store_error option \<Rightarrow> int \<Rightarrow> ID \<Rightarrow> introspection \<Rightarrow> devices \<Rightarrow> (store_error + introspection) \<times> devices" where
  "UpdateIntrospection fault realmID i intro db =
    (case fault of
       Some e \<Rightarrow> (Inl e, db)
     | None \<Rightarrow>
         (case map_of db (realmID, i) of
            None \<Rightarrow> (Inl ErrNotFound, db)
          | Some d \<Rightarrow>
              (let removed = removedInterfaces (d_Introspection d) intro
               in (Inr removed, AList.update (realmID, i)
                     (d\<lparr>d_Introspection := intro, d_OldIntrospection := d_OldIntrospection d ++ removed\<rparr>) db))))"

definition SetDeviceInhibited ::
  "store_error option \<Rightarrow> int \<Rightarrow> ID \<Rightarrow> bool \<Rightarrow> devices \<Rightarrow> (store_error + unit) \<times> devices" where
  "SetDeviceInhibited fault realmID i inhibited =
    updateDevice fault realmID i
      (\<lambda>d. d\<lparr>d_Status := (if inhibited then ''inhibited''
                         else if d_FirstCredentialsRequest d = None then ''registered'' else ''confirmed'')\<rparr>)"

definition SetDeviceCredentials ::
  "store_error option \<Rightarrow> int \<Rightarrow> int \<Rightarrow> ID \<Rightarrow> string \<Rightarrow> string \<Rightarrow> Addr \<Rightarrow> devices \<Rightarrow> (store_error + unit) \<times> devices" where
  "SetDeviceCredentials fault now realmID i certSerial certAKI requestIP =
    updateDevice fault realmID i
      (\<lambda>d. d\<lparr>d_CertSerial := Some certSerial, d_CertAKI := Some certAKI,
             d_FirstCredentialsRequest := (case d_FirstCredentialsRequest d of None \<Rightarrow> Some now | Some t \<Rightarrow> Some t),
             d_LastCredentialsRequestIP := Some requestIP, d_Status := ''confirmed''\<rparr>)"

definition SetDeviceConnected ::
  "store_error option \<Rightarrow> int \<Rightarrow> ID \<Rightarrow> int \<Rightarrow> Addr \<Rightarrow> devices \<Rightarrow> (store_error + unit) \<times> devices" where
  "SetDeviceConnected fault realmID i at ip =
    updateDevice fault realmID i
      (\<lambda>d. d\<lparr>d_Connected := True, d_LastConnection := Some at, d_LastSeenIP := Some ip\<rparr>)"

definition SetDeviceDisconnected ::
  "store_error option \<Rightarrow> int \<Rightarrow> ID \<Rightarrow> int \<Rightarrow> devices \<Rightarrow> (store_error + unit) \<times> devices" where
  "SetDeviceDisconnected fault realmID i at =
    updateDevice fault realmID i (\<lambda>d. d\<lparr>d_Connected := False, d_LastDisconnection := Some at\<rparr>)"

text \<open>The counters are bigint columns: the database refuses a sum outside the 64-bit range.\<close>

definition bigint :: "int \<Rightarrow> bool" where
  "bigint n \<longleftrightarrow> - (2 ^ 63) \<le> n \<and> n < 2 ^ 63"

definition AddDeviceStats ::
  "store_error option \<Rightarrow> int \<Rightarrow> ID \<Rightarrow> int \<Rightarrow> int \<Rightarrow> devices \<Rightarrow> (store_error + unit) \<times> devices" where
  "AddDeviceStats fault realmID i msgs bytes db =
    (case map_of db (realmID, i) of
       Some d \<Rightarrow>
         (if bigint (d_TotalReceivedMsgs d + msgs) \<and> bigint (d_TotalReceivedBytes d + bytes)
          then updateDevice fault realmID i
            (\<lambda>d. d\<lparr>d_TotalReceivedMsgs := d_TotalReceivedMsgs d + msgs,
                   d_TotalReceivedBytes := d_TotalReceivedBytes d + bytes\<rparr>) db
          else (Inl (case fault of Some e \<Rightarrow> e | None \<Rightarrow> ErrPg ''22003''), db))
     | None \<Rightarrow> updateDevice fault realmID i (\<lambda>d. d) db)"

definition AliasValuesTaken ::
  "store_error option \<Rightarrow> int \<Rightarrow> ID \<Rightarrow> string list \<Rightarrow> devices \<Rightarrow> store_error + bool" where
  "AliasValuesTaken fault realmID i vals db =
    (case fault of
       Some e \<Rightarrow> Inl e
     | None \<Rightarrow> Inr (list_ex (\<lambda>((r, j), d). r = realmID \<and> j \<noteq> i \<and>
         list_ex (\<lambda>(tag, v). v \<in> set vals) (d_Aliases d)) db))"

text \<open>JSON merge patch on a text map: the keys with null are removed, then the present values are
  added or replaced.\<close>

type_synonym patch = "(string \<times> string option) list"

definition patchDeviceJSONB :: "patch \<Rightarrow> (string \<times> string) list \<Rightarrow> (string \<times> string) list" where
  "patchDeviceJSONB patch m =
    (let removals = map fst (filter (\<lambda>(k, v). v = None) patch);
         additions = [(k, v). (k, Some v) \<leftarrow> patch]
     in fold (\<lambda>(k, v). AList.update k v) additions (filter (\<lambda>(k, v). k \<notin> set removals) m))"

definition PatchDeviceAliases ::
  "store_error option \<Rightarrow> int \<Rightarrow> ID \<Rightarrow> patch \<Rightarrow> devices \<Rightarrow> (store_error + unit) \<times> devices" where
  "PatchDeviceAliases fault realmID i patch =
    updateDevice fault realmID i (\<lambda>d. d\<lparr>d_Aliases := patchDeviceJSONB patch (d_Aliases d)\<rparr>)"

definition PatchDeviceAttributes ::
  "store_error option \<Rightarrow> int \<Rightarrow> ID \<Rightarrow> patch \<Rightarrow> devices \<Rightarrow> (store_error + unit) \<times> devices" where
  "PatchDeviceAttributes fault realmID i patch =
    updateDevice fault realmID i (\<lambda>d. d\<lparr>d_Attributes := patchDeviceJSONB patch (d_Attributes d)\<rparr>)"

definition SetPayloadFormatHint ::
  "store_error option \<Rightarrow> int \<Rightarrow> ID \<Rightarrow> string \<Rightarrow> devices \<Rightarrow> (store_error + unit) \<times> devices" where
  "SetPayloadFormatHint fault realmID i hint db =
    (if hint \<noteq> ''bson'' \<and> hint \<noteq> ''json'' then (Inl (ErrInvalidHint hint), db)
     else updateDevice fault realmID i (\<lambda>d. d\<lparr>d_PayloadFormatHint := hint\<rparr>) db)"

definition DeviceStats :: "store_error option \<Rightarrow> int \<Rightarrow> devices \<Rightarrow> store_error + nat \<times> nat" where
  "DeviceStats fault realmID db =
    (case fault of
       Some e \<Rightarrow> Inl e
     | None \<Rightarrow> (let rows = filter (\<lambda>((r, i), d). r = realmID) db
               in Inr (length rows, length (filter (\<lambda>(_, d). d_Connected d) rows))))"

text \<open>The tables DeleteDevice touches: the two datastream tables are swept explicitly, properties
  and group memberships go with the row through their foreign keys.\<close>

record ('a, 'b, 'c, 'd) deviceTables =
  t_devices :: devices
  t_individual :: "((int \<times> ID) \<times> 'a) list"
  t_object :: "((int \<times> ID) \<times> 'b) list"
  t_properties :: "((int \<times> ID) \<times> 'c) list"
  t_group_devices :: "((int \<times> ID) \<times> 'd) list"

definition DeleteDevice ::
  "store_error option \<Rightarrow> int \<Rightarrow> ID \<Rightarrow> ('a, 'b, 'c, 'd) deviceTables
    \<Rightarrow> (store_error + unit) \<times> ('a, 'b, 'c, 'd) deviceTables" where
  "DeleteDevice fault realmID i t =
    (case fault of
       Some e \<Rightarrow> (Inl e, t)
     | None \<Rightarrow>
         (case map_of (t_devices t) (realmID, i) of
            None \<Rightarrow> (Inl ErrNotFound, t)
          | Some _ \<Rightarrow>
              (Inr (), \<lparr>t_devices = AList.delete (realmID, i) (t_devices t),
                 t_individual = AList.delete (realmID, i) (t_individual t),
                 t_object = AList.delete (realmID, i) (t_object t),
                 t_properties = AList.delete (realmID, i) (t_properties t),
                 t_group_devices = AList.delete (realmID, i) (t_group_devices t)\<rparr>)))"

section \<open>The invariant of the table\<close>

text \<open>A row lies under its own key; a device has a certificate trail exactly when it has requested
  credentials; the status agrees with it unless the device is inhibited.\<close>

definition device_ok :: "int \<times> ID \<Rightarrow> Device \<Rightarrow> bool" where
  "device_ok k d \<longleftrightarrow> d_RealmID d = fst k \<and> d_ID d = snd k \<and>
     (d_FirstCredentialsRequest d = None \<longleftrightarrow> d_CertSerial d = None) \<and>
     (d_CertSerial d = None \<longleftrightarrow> d_CertAKI d = None) \<and>
     (d_Status d = ''inhibited'' \<or>
      d_Status d = (if d_FirstCredentialsRequest d = None then ''registered'' else ''confirmed'')) \<and>
     d_PayloadFormatHint d \<in> {''bson'', ''json''} \<and>
     bigint (d_TotalReceivedMsgs d) \<and> bigint (d_TotalReceivedBytes d)"

definition devices_ok :: "devices \<Rightarrow> bool" where
  "devices_ok db \<longleftrightarrow> distinct (map fst db) \<and> list_all (\<lambda>(k, d). device_ok k d) db"

text \<open>Every statement that changes the table, as data.\<close>

datatype deviceOp =
    OpRegister int int ID string
  | OpUnregister int ID
  | OpIntrospection int ID introspection
  | OpInhibit int ID bool
  | OpCredentials int int ID string string Addr
  | OpConnected int ID int Addr
  | OpDisconnected int ID int
  | OpStats int ID int int
  | OpAliases int ID patch
  | OpAttributes int ID patch
  | OpHint int ID string

fun runDeviceOp :: "store_error option \<Rightarrow> deviceOp \<Rightarrow> devices \<Rightarrow> devices" where
  "runDeviceOp fault (OpRegister now r i h) db = snd (RegisterDevice fault now r i h db)"
| "runDeviceOp fault (OpUnregister r i) db = snd (UnregisterDevice fault r i db)"
| "runDeviceOp fault (OpIntrospection r i m) db = snd (UpdateIntrospection fault r i m db)"
| "runDeviceOp fault (OpInhibit r i b) db = snd (SetDeviceInhibited fault r i b db)"
| "runDeviceOp fault (OpCredentials now r i s a ip) db = snd (SetDeviceCredentials fault now r i s a ip db)"
| "runDeviceOp fault (OpConnected r i at ip) db = snd (SetDeviceConnected fault r i at ip db)"
| "runDeviceOp fault (OpDisconnected r i at) db = snd (SetDeviceDisconnected fault r i at db)"
| "runDeviceOp fault (OpStats r i n b) db = snd (AddDeviceStats fault r i n b db)"
| "runDeviceOp fault (OpAliases r i p) db = snd (PatchDeviceAliases fault r i p db)"
| "runDeviceOp fault (OpAttributes r i p) db = snd (PatchDeviceAttributes fault r i p db)"
| "runDeviceOp fault (OpHint r i h) db = snd (SetPayloadFormatHint fault r i h db)"

lemma devices_ok_row: "devices_ok db \<Longrightarrow> map_of db k = Some d \<Longrightarrow> device_ok k d"
  by (auto simp: devices_ok_def list_all_iff dest!: map_of_SomeD)

lemma devices_ok_update: "devices_ok db \<Longrightarrow> device_ok k d \<Longrightarrow> devices_ok (AList.update k d db)"
proof -
  assume "devices_ok db" "device_ok k d"
  then have "distinct (map fst (AList.update k d db))" by (simp add: devices_ok_def distinct_update)
  moreover have "(k', d') \<in> set (AList.update k d db) \<Longrightarrow> device_ok k' d'" for k' d'
    using \<open>devices_ok db\<close> \<open>device_ok k d\<close>
    by (induction db) (auto simp: devices_ok_def list_all_iff split: if_splits)
  ultimately show ?thesis by (auto simp: devices_ok_def list_all_iff)
qed

lemma devices_ok_update_row:
  "devices_ok db \<Longrightarrow> map_of db k = Some d \<Longrightarrow> (device_ok k d \<Longrightarrow> device_ok k d') \<Longrightarrow>
    devices_ok (AList.update k d' db)"
  by (simp add: devices_ok_update devices_ok_row)

lemma devices_ok_updateDevice:
  assumes "devices_ok db" "\<And>d. map_of db (r, i) = Some d \<Longrightarrow> device_ok (r, i) d \<Longrightarrow> device_ok (r, i) (f d)"
  shows "devices_ok (snd (updateDevice fault r i f db))"
  using assms by (auto simp: updateDevice_def devices_ok_update devices_ok_row split: option.splits)

lemmas device_update_defs = UnregisterDevice_def SetDeviceInhibited_def SetDeviceCredentials_def
  SetDeviceConnected_def SetDeviceDisconnected_def PatchDeviceAliases_def PatchDeviceAttributes_def

lemma runDeviceOp_ok: "devices_ok db \<Longrightarrow> devices_ok (runDeviceOp fault op db)"
proof (cases op)
  case (OpRegister now r i h)
  assume ok: "devices_ok db"
  have "device_ok (r, i) (insertedDevice now r i h)"
    by (simp add: device_ok_def insertedDevice_def bigint_def)
  with ok show ?thesis unfolding OpRegister runDeviceOp.simps RegisterDevice_def
    by (auto split: option.split intro: devices_ok_update devices_ok_update_row simp: device_ok_def)
next
  case (OpIntrospection r i m)
  assume "devices_ok db"
  then show ?thesis unfolding OpIntrospection runDeviceOp.simps UpdateIntrospection_def Let_def
    by (auto split: option.split elim!: devices_ok_update_row simp: device_ok_def)
next
  case (OpStats r i n b)
  assume "devices_ok db"
  then show ?thesis unfolding OpStats runDeviceOp.simps AddDeviceStats_def
    by (auto split: option.splits intro!: devices_ok_updateDevice simp: device_ok_def)
next
  case (OpHint r i h)
  assume "devices_ok db"
  then show ?thesis unfolding OpHint runDeviceOp.simps SetPayloadFormatHint_def
    by (auto intro!: devices_ok_updateDevice simp: device_ok_def)
qed (auto simp: device_update_defs device_ok_def split: option.splits intro!: devices_ok_updateDevice)

section \<open>Pages\<close>

lemma realmRows_sorted: "sorted (map fst (realmRows r db))"
  by (simp add: realmRows_def)

lemma distinct_sort_key: "distinct (map f xs) \<Longrightarrow> distinct (map f (sort_key g xs))"
  by (simp add: distinct_map)

lemma realmRows_distinct:
  assumes "devices_ok db"
  shows "distinct (map fst (realmRows r db))"
proof -
  have "map fst (map (\<lambda>((r, i), d). (i, d)) (filter (\<lambda>((r', i), d). r' = r) db)) =
      map snd (filter (\<lambda>k. fst k = r) (map fst db))"
    by (induction db) (auto split: prod.splits)
  moreover have "distinct (map snd (filter (\<lambda>k. fst k = r) (map fst db)))"
    using assms by (auto simp: devices_ok_def distinct_map inj_on_def)
  ultimately have "distinct (map fst (map (\<lambda>((r, i), d). (i, d)) (filter (\<lambda>((r', i), d). r' = r) db)))" by simp
  then show ?thesis unfolding realmRows_def by (rule distinct_sort_key)
qed

lemma filter_after:
  assumes "sorted (map fst (xs :: (('a :: linorder) \<times> 'b) list))" "distinct (map fst xs)" "n < length xs"
  shows "filter (\<lambda>(i, d). fst (xs ! n) < i) xs = drop (Suc n) xs"
proof -
  have "xs = take n xs @ xs ! n # drop (Suc n) xs" using assms(3) by (rule id_take_nth_drop)
  moreover have "filter (\<lambda>(i, d). fst (xs ! n) < i) (take n xs) = []"
  proof -
    have "fst x \<le> fst (xs ! n)" if "x \<in> set (take n xs)" for x
    proof -
      from that obtain m where "m < n" "x = xs ! m" by (auto simp: in_set_conv_nth)
      then show ?thesis using assms(1,3) sorted_nth_mono [of "map fst xs" m n] by simp
    qed
    then show ?thesis by (force simp: filter_empty_conv)
  qed
  moreover have "filter (\<lambda>(i, d). fst (xs ! n) < i) (drop (Suc n) xs) = drop (Suc n) xs"
  proof -
    have "fst (xs ! n) < fst x" if x: "x \<in> set (drop (Suc n) xs)" for x
    proof -
      from x obtain m where m: "n < m" "m < length xs" "x = xs ! m"
        by (auto simp: in_set_conv_nth) (metis less_add_Suc1 add_Suc less_diff_conv add.commute)
      then have "fst (xs ! n) \<le> fst (xs ! m)" using assms(1) sorted_nth_mono [of "map fst xs" n m] by simp
      moreover have "fst (xs ! n) \<noteq> fst (xs ! m)"
        using assms(2) m nth_eq_iff_index_eq [of "map fst xs" n m] by auto
      ultimately show ?thesis using m by simp
    qed
    then show ?thesis by (auto simp: filter_id_conv)
  qed
  ultimately show ?thesis by (metis (no_types, lifting) append_Nil filter.simps(2) filter_append less_irrefl case_prod_beta)
qed

section \<open>Properties\<close>


text \<open>C32. Keyset pagination loses and repeats no device: on a table that statements have produced, a
  full page followed by the page after its last device is the longer page.\<close>

theorem device_pages_compose:
  assumes "devices_ok db" "ListDevices None r None n db = Inr page" "page \<noteq> []" "length page = n"
  shows "\<exists>more. ListDevices None r (Some (d_ID (last page))) m db = Inr more \<and>
    ListDevices None r None (n + m) db = Inr (page @ more)"
proof -
  let ?rows = "realmRows r db"
  from assms(2) have page: "page = map snd (take n ?rows)" by (simp add: ListDevices_def)
  with assms(3,4) have n: "0 < n" "n \<le> length ?rows" by auto
  have row: "(i, d) \<in> set ?rows \<Longrightarrow> d_ID d = i" for i d
    using assms(1) by (auto simp: realmRows_def devices_ok_def list_all_iff device_ok_def)
  have "last page = snd (?rows ! (n - 1))"
    using n assms(3) by (simp add: page last_conv_nth min_absorb2)
  moreover have "?rows ! (n - 1) \<in> set ?rows" using n by simp
  ultimately have "d_ID (last page) = fst (?rows ! (n - 1))" using row by (metis prod.collapse)
  then have "filter (\<lambda>(i, d). d_ID (last page) < i) ?rows = drop n ?rows"
    using filter_after [OF realmRows_sorted realmRows_distinct [OF assms(1)], of "n - 1"] n by simp
  then show ?thesis by (simp add: ListDevices_def page take_add)
qed

definition sampleTable :: devices where
  "sampleTable = fold (\<lambda>b. AList.update (1, replicate 16 b) (insertedDevice 0 1 (replicate 16 b) ''h'')) [3, 1, 2] []"

lemma replicate_less: "replicate n b < replicate n c \<longleftrightarrow> 0 < n \<and> b < (c :: byte)"
  by (induction n) auto

lemma replicate_le: "replicate n b \<le> replicate n c \<longleftrightarrow> n = 0 \<or> b \<le> (c :: byte)"
  using replicate_less [of n c b] by (auto simp: not_less [symmetric])

theorem device_pages_compose_witness:
  "\<exists>more. ListDevices None 1 (Some (replicate 16 2)) 5 sampleTable = Inr more \<and>
    ListDevices None 1 None 7 sampleTable =
      Inr (map (\<lambda>b. insertedDevice 0 1 (replicate 16 b) ''h'') [1, 2] @ more)"
proof -
  let ?page = "map (\<lambda>b. insertedDevice 0 1 (replicate 16 b) ''h'') [1, 2]"
  have "devices_ok sampleTable" "ListDevices None 1 None 2 sampleTable = Inr ?page"
    "d_ID (last ?page) = replicate 16 2"
    by (simp_all add: sampleTable_def devices_ok_def device_ok_def insertedDevice_def bigint_def
        ListDevices_def realmRows_def replicate_le word_le_nat_alt)
  from device_pages_compose [OF this(1,2), of 5] this(3) show ?thesis by simp
qed



end
