(* ===== verification/Pairing_Service.thy ===== *)
theory Pairing_Service
  imports Pairing_CA Store_Devices
begin

text \<open>
  Model of internal/pairing/service.go over the devices table and the realm rows.  The
  password hashing functions and the key sealer are arguments.  Every store call may fail
  with the error the environment gives for it.  authenticateDevice also returns how many
  password comparisons it made, because the code keeps that number equal on all paths that
  report an authentication failure.
\<close>

section \<open>Types\<close>

record Realm =
  r_ID :: int
  r_Name :: string
  r_JWTPublicKeysPEM :: "string list"
  r_CACertificatePEM :: string
  r_CAPrivateKeySealed :: "byte list"
  r_DeviceRegistrationLimit :: "int option"
  r_DatastreamMaximumStorageRetention :: "int option"
  r_CreatedAt :: int

datatype pairing_error =
    ErrInvalidHWID id_error
  | ErrInvalidPayloadFormat string
  | ErrAlreadyRegistered string
  | ErrRegistrationLimitReached
  | ErrUnauthorized
  | ErrInhibited
  | ErrPairingCSR string
  | PairingStore store_error
  | PairingCA ca_error
  | HashingSecret string
  | SecretRandomness string
  | OpeningSealedKey string

definition CauseExpired :: string where "CauseExpired = ''EXPIRED''"
definition CauseInvalid :: string where "CauseInvalid = ''INVALID''"
definition CauseRevoked :: string where "CauseRevoked = ''REVOKED''"

definition secretBytes :: nat where "secretBytes = 32"
definition DefaultVersion :: string where "DefaultVersion = ''0.1.0-astrate''"

record Config =
  cfg_BrokerURL :: string
  cfg_CertTTL :: int
  cfg_EnforceLatestCert :: bool
  cfg_Version :: string
  cfg_BcryptCost :: int

text \<open>The calls of the store interface; the environment may let any of them fail.\<close>

datatype storeCall =
    CallGetRealmByName | CallRegisterDevice | CallUnregisterDevice | CallGetDevice
  | CallSetDeviceCredentials | CallSetPayloadFormatHint | CallCountDevices | CallHealth

record environment =
  env_fault :: "storeCall \<Rightarrow> store_error option"
  env_compareHash :: "string \<Rightarrow> string \<Rightarrow> bool"
  env_generateHash :: "string \<Rightarrow> int \<Rightarrow> string + string"
  env_openSealed :: "byte list \<Rightarrow> string + byte list"
  env_pki :: pki
  env_now :: int

type_synonym realms = "Realm list"

definition bcryptDefaultCost :: int where "bcryptDefaultCost = 10"

text \<open>The defaults New fills in.\<close>

definition New :: "Config \<Rightarrow> Config" where
  "New cfg =
    (let c1 = (if cfg_Version cfg = [] then cfg\<lparr>cfg_Version := DefaultVersion\<rparr> else cfg);
         c2 = (if cfg_BcryptCost c1 = 0 then c1\<lparr>cfg_BcryptCost := bcryptDefaultCost\<rparr> else c1)
     in if cfg_CertTTL c2 \<le> 0 then c2\<lparr>cfg_CertTTL := DefaultCertTTL\<rparr> else c2)"

definition GetRealmByName :: "store_error option \<Rightarrow> string \<Rightarrow> realms \<Rightarrow> store_error + Realm" where
  "GetRealmByName fault name rs =
    (case fault of
       Some e \<Rightarrow> Inl e
     | None \<Rightarrow> (case find (\<lambda>r. r_Name r = name) rs of None \<Rightarrow> Inl ErrNotFound | Some r \<Rightarrow> Inr r))"

section \<open>Registration\<close>

text \<open>base64.StdEncoding.EncodeToString, with padding.\<close>

definition stdAlphabet :: string where
  "stdAlphabet = ''ABCDEFGHIJKLMNOPQRSTUVWXYZabcdefghijklmnopqrstuvwxyz0123456789+/''"

definition stdEncode :: "byte list \<Rightarrow> string" where
  "stdEncode bs = map (\<lambda>d. stdAlphabet ! d) (b64Sextets bs) @
     replicate (if length bs mod 3 = 0 then 0 else 3 - length bs mod 3) (CHR ''='')"

definition generateSecret :: "string + byte list \<Rightarrow> pairing_error + string" where
  "generateSecret rnd = (case rnd of Inl e \<Rightarrow> Inl (SecretRandomness e) | Inr buf \<Rightarrow> Inr (stdEncode buf))"

text \<open>On success the result carries, besides the secret, the call of OnRegistered: the realm, the
  device and the time, when a callback is installed.\<close>

definition Register ::
  "environment \<Rightarrow> Config \<Rightarrow> bool \<Rightarrow> string + byte list \<Rightarrow> string \<Rightarrow> string \<Rightarrow> string \<Rightarrow> realms \<Rightarrow> devices
    \<Rightarrow> (pairing_error + string \<times> (string \<times> string \<times> int) option) \<times> devices" where
  "Register E cfg hasCallback rnd realmName hwID initialFormat rs db =
    (case Parse hwID of
       Inl e \<Rightarrow> (Inl (ErrInvalidHWID e), db)
     | Inr i \<Rightarrow>
     (if initialFormat \<noteq> [] \<and> initialFormat \<noteq> ''bson'' \<and> initialFormat \<noteq> ''json''
      then (Inl (ErrInvalidPayloadFormat initialFormat), db)
      else case GetRealmByName (env_fault E CallGetRealmByName) realmName rs of
       Inl e \<Rightarrow> (Inl (PairingStore e), db)
     | Inr realm \<Rightarrow>
     (case (case r_DeviceRegistrationLimit realm of
              None \<Rightarrow> None
            | Some limit \<Rightarrow>
                (case CountDevices (env_fault E CallCountDevices) (r_ID realm) db of
                   Inl e \<Rightarrow> Some (PairingStore e)
                 | Inr n \<Rightarrow> if int n \<ge> limit then Some ErrRegistrationLimitReached else None)) of
       Some e \<Rightarrow> (Inl e, db)
     | None \<Rightarrow>
     (case generateSecret rnd of
       Inl e \<Rightarrow> (Inl e, db)
     | Inr secret \<Rightarrow>
     (case env_generateHash E secret (cfg_BcryptCost cfg) of
       Inl e \<Rightarrow> (Inl (HashingSecret e), db)
     | Inr hash \<Rightarrow>
     (case RegisterDevice (env_fault E CallRegisterDevice) (env_now E) (r_ID realm) i hash db of
       (Inl e, db1) \<Rightarrow> (Inl (if e = ErrDeviceAlreadyConfirmed then ErrAlreadyRegistered hwID else PairingStore e), db1)
     | (Inr _, db1) \<Rightarrow>
     (let registered = (if hasCallback then Some (realmName, hwID, env_now E) else None)
      in if initialFormat \<noteq> [] then
        (case SetPayloadFormatHint (env_fault E CallSetPayloadFormatHint) (r_ID realm) i initialFormat db1 of
           (Inl e, db2) \<Rightarrow> (Inl (PairingStore e), db2)
         | (Inr _, db2) \<Rightarrow> (Inr (secret, registered), db2))
      else (Inr (secret, registered), db1))))))))"

definition Unregister ::
  "environment \<Rightarrow> string \<Rightarrow> string \<Rightarrow> realms \<Rightarrow> devices \<Rightarrow> (pairing_error + unit) \<times> devices" where
  "Unregister E realmName deviceIDStr rs db =
    (case Parse deviceIDStr of
       Inl e \<Rightarrow> (Inl (PairingStore ErrNotFound), db)
     | Inr i \<Rightarrow>
         (case GetRealmByName (env_fault E CallGetRealmByName) realmName rs of
            Inl e \<Rightarrow> (Inl (PairingStore e), db)
          | Inr realm \<Rightarrow>
              (case UnregisterDevice (env_fault E CallUnregisterDevice) (r_ID realm) i db of
                 (Inl e, db1) \<Rightarrow> (Inl (PairingStore e), db1)
               | (Inr _, db1) \<Rightarrow> (Inr (), db1))))"

section \<open>Authentication by credentials secret\<close>

text \<open>The second component counts the password comparisons, burnBcrypt included.\<close>

definition authenticateDevice ::
  "environment \<Rightarrow> string \<Rightarrow> string \<Rightarrow> string \<Rightarrow> realms \<Rightarrow> devices \<Rightarrow> (pairing_error + Realm \<times> Device) \<times> nat" where
  "authenticateDevice E realmName deviceIDStr secret rs db =
    (case Parse deviceIDStr of
       Inl e \<Rightarrow> (Inl ErrUnauthorized, 1)
     | Inr i \<Rightarrow>
         (case GetRealmByName (env_fault E CallGetRealmByName) realmName rs of
            Inl e \<Rightarrow> if e = ErrNotFound then (Inl ErrUnauthorized, 1) else (Inl (PairingStore e), 0)
          | Inr realm \<Rightarrow>
              (case GetDevice (env_fault E CallGetDevice) (r_ID realm) i db of
                 Inl e \<Rightarrow> if e = ErrNotFound then (Inl ErrUnauthorized, 1) else (Inl (PairingStore e), 0)
               | Inr dev \<Rightarrow>
                   (if d_CredentialsSecretHash dev = [] then (Inl ErrUnauthorized, 1)
                    else if \<not> env_compareHash E (d_CredentialsSecretHash dev) secret then (Inl ErrUnauthorized, 1)
                    else (Inr (realm, dev), 1)))))"

definition loadCA :: "environment \<Rightarrow> Realm \<Rightarrow> pairing_error + CA" where
  "loadCA E realm =
    (case env_openSealed E (r_CAPrivateKeySealed realm) of
       Inl e \<Rightarrow> Inl (OpeningSealedKey e)
     | Inr keyDER \<Rightarrow>
         (case Load (env_pki E) (r_CACertificatePEM realm) keyDER of
            Inl e \<Rightarrow> Inl (PairingCA e)
          | Inr c \<Rightarrow> Inr c))"

section \<open>Credentials\<close>

text \<open>Credentials up to the write: what is issued and what will be stamped on the row.  None when
  the serial draws run out.\<close>

definition issueCredentials ::
  "environment \<Rightarrow> Config \<Rightarrow> (string + byte list) list \<Rightarrow> string \<Rightarrow> string \<Rightarrow> string \<Rightarrow> string \<Rightarrow> realms \<Rightarrow> devices
    \<Rightarrow> (pairing_error + int \<times> ID \<times> string \<times> string \<times> string) option" where
  "issueCredentials E cfg draws realmName deviceIDStr secret csrPEM rs db =
    (case fst (authenticateDevice E realmName deviceIDStr secret rs db) of
       Inl e \<Rightarrow> Some (Inl e)
     | Inr (realm, dev) \<Rightarrow>
         (if d_Status dev = DeviceStatusInhibited then Some (Inl ErrInhibited)
          else (case loadCA E realm of
              Inl e \<Rightarrow> Some (Inl e)
            | Inr c \<Rightarrow>
                (case SignCSR (env_pki E) c (env_now E) draws csrPEM realmName (ID_String (d_ID dev)) (cfg_CertTTL cfg) of
                   None \<Rightarrow> None
                 | Some (Inl (ErrInvalidCSR e)) \<Rightarrow> Some (Inl (ErrPairingCSR e))
                 | Some (Inl e) \<Rightarrow> Some (Inl (PairingCA e))
                 | Some (Inr (certPEM, serial, aki)) \<Rightarrow> Some (Inr (r_ID realm, d_ID dev, certPEM, serial, aki))))))"

definition recordCredentials ::
  "environment \<Rightarrow> Addr \<Rightarrow> int \<times> ID \<times> string \<times> string \<times> string \<Rightarrow> devices \<Rightarrow> (pairing_error + string) \<times> devices" where
  "recordCredentials E ip issued db =
    (case issued of (realmID, i, certPEM, serial, aki) \<Rightarrow>
      (case SetDeviceCredentials (env_fault E CallSetDeviceCredentials) (env_now E) realmID i serial aki ip db of
         (Inl e, db1) \<Rightarrow> (Inl (PairingStore e), db1)
       | (Inr _, db1) \<Rightarrow> (Inr certPEM, db1)))"

definition Credentials ::
  "environment \<Rightarrow> Config \<Rightarrow> (string + byte list) list \<Rightarrow> string \<Rightarrow> string \<Rightarrow> string \<Rightarrow> string \<Rightarrow> Addr \<Rightarrow> realms \<Rightarrow> devices
    \<Rightarrow> ((pairing_error + string) \<times> devices) option" where
  "Credentials E cfg draws realmName deviceIDStr secret csrPEM ip rs db =
    (case issueCredentials E cfg draws realmName deviceIDStr secret csrPEM rs db of
       None \<Rightarrow> None
     | Some (Inl e) \<Rightarrow> Some (Inl e, db)
     | Some (Inr issued) \<Rightarrow> Some (recordCredentials E ip issued db))"

section \<open>Information and verification\<close>

record Info =
  info_Version :: string
  info_Status :: string
  info_BrokerURL :: string
  info_CACertPEM :: string

definition deviceInfo ::
  "environment \<Rightarrow> Config \<Rightarrow> string \<Rightarrow> string \<Rightarrow> string \<Rightarrow> realms \<Rightarrow> devices \<Rightarrow> pairing_error + Info" where
  "deviceInfo E cfg realmName deviceIDStr secret rs db =
    (case fst (authenticateDevice E realmName deviceIDStr secret rs db) of
       Inl e \<Rightarrow> Inl e
     | Inr (realm, dev) \<Rightarrow>
         Inr \<lparr>info_Version = cfg_Version cfg,
              info_Status = (if d_Status dev = DeviceStatusInhibited then ''inhibited''
                             else if d_Status dev = DeviceStatusConfirmed then ''confirmed'' else ''pending''),
              info_BrokerURL = cfg_BrokerURL cfg, info_CACertPEM = r_CACertificatePEM realm\<rparr>)"

record VerifyResult =
  vr_Valid :: bool
  vr_Timestamp :: int
  vr_Until :: int
  vr_Cause :: string

definition VerifyCredentials ::
  "environment \<Rightarrow> Config \<Rightarrow> string \<Rightarrow> string \<Rightarrow> string \<Rightarrow> string \<Rightarrow> realms \<Rightarrow> devices \<Rightarrow> pairing_error + VerifyResult" where
  "VerifyCredentials E cfg realmName deviceIDStr secret clientCrtPEM rs db =
    (case fst (authenticateDevice E realmName deviceIDStr secret rs db) of
       Inl e \<Rightarrow> Inl e
     | Inr (realm, dev) \<Rightarrow>
         (if d_Status dev = DeviceStatusInhibited then Inl ErrInhibited
          else (let res = \<lparr>vr_Valid = False, vr_Timestamp = env_now E, vr_Until = 0, vr_Cause = []\<rparr>
                in case loadCA E realm of
                  Inl e \<Rightarrow> Inl e
                | Inr c \<Rightarrow>
                    (case CA_Verify (env_pki E) c clientCrtPEM (env_now E) of
                       Inl ErrCertificateExpired \<Rightarrow> Inr (res\<lparr>vr_Cause := CauseExpired\<rparr>)
                     | Inl _ \<Rightarrow> Inr (res\<lparr>vr_Cause := CauseInvalid\<rparr>)
                     | Inr until \<Rightarrow>
                         (case (if cfg_EnforceLatestCert cfg then d_CertSerial dev else None) of
                            Some latest \<Rightarrow>
                              (case ParseCertificatePEM (env_pki E) clientCrtPEM of
                                 Inl _ \<Rightarrow> Inr (res\<lparr>vr_Cause := CauseInvalid\<rparr>)
                               | Inr cert \<Rightarrow>
                                   (if Itoa (x_SerialNumber cert) \<noteq> latest then Inr (res\<lparr>vr_Cause := CauseRevoked\<rparr>)
                                    else Inr (res\<lparr>vr_Valid := True, vr_Until := until\<rparr>)))
                          | None \<Rightarrow> Inr (res\<lparr>vr_Valid := True, vr_Until := until\<rparr>))))))"

definition Health :: "environment \<Rightarrow> string \<Rightarrow> realms \<Rightarrow> pairing_error + unit" where
  "Health E realm rs =
    (case GetRealmByName (env_fault E CallGetRealmByName) realm rs of
       Inl e \<Rightarrow> Inl (PairingStore e)
     | Inr _ \<Rightarrow> (case env_fault E CallHealth of Some e \<Rightarrow> Inl (PairingStore e) | None \<Rightarrow> Inr ()))"

section \<open>Behaviour of the service\<close>

definition no_faults :: "environment \<Rightarrow> bool" where
  "no_faults E \<longleftrightarrow> (\<forall>c. env_fault E c = None)"

text \<open>What the service relies on of the password hash: a generated hash is not empty and accepts
  its own secret.\<close>

definition hash_laws :: "environment \<Rightarrow> bool" where
  "hash_laws E \<longleftrightarrow> (\<forall>secret cost h. env_generateHash E secret cost = Inr h \<longrightarrow>
     h \<noteq> [] \<and> env_compareHash E h secret)"

lemma secret_length: "length bs = 32 \<Longrightarrow> length (stdEncode bs) = 44"
  using b64Sextets_length [of bs] by (simp add: stdEncode_def)

lemma authenticateDevice_ok_iff:
  assumes "no_faults E"
  shows "fst (authenticateDevice E realmName dev secret rs db) = Inr (realm, d) \<longleftrightarrow>
    (\<exists>i. Parse dev = Inr i \<and> find (\<lambda>r. r_Name r = realmName) rs = Some realm \<and>
       map_of db (r_ID realm, i) = Some d \<and> d_CredentialsSecretHash d \<noteq> [] \<and>
       env_compareHash E (d_CredentialsSecretHash d) secret)"
  using assms
  by (auto simp: authenticateDevice_def no_faults_def GetRealmByName_def GetDevice_def
      split: sum.split option.split)

lemma authenticateDevice_cost:
  assumes "no_faults E"
  shows "snd (authenticateDevice E realmName dev secret rs db) = 1"
    and "fst (authenticateDevice E realmName dev secret rs db) \<noteq> Inl e \<or> e = ErrUnauthorized"
  using assms
  by (auto simp: authenticateDevice_def no_faults_def GetRealmByName_def GetDevice_def
      split: sum.split option.split)

lemma RegisterDevice_row:
  assumes "RegisterDevice None now r i h db = (Inr (), db')"
  obtains d where "map_of db' (r, i) = Some d" "d_CredentialsSecretHash d = h" "d_Status d = ''registered''"
  using assms
  by (auto simp: RegisterDevice_def update_conv insertedDevice_def split: option.splits if_splits)

lemma SetPayloadFormatHint_row:
  assumes "SetPayloadFormatHint None r i hint db = (Inr (), db')" "map_of db (r, i) = Some d"
  shows "map_of db' (r, i) = Some (d\<lparr>d_PayloadFormatHint := hint\<rparr>)"
  using assms by (auto simp: SetPayloadFormatHint_def updateDevice_def update_conv split: if_splits)

lemma Register_ok:
  assumes "no_faults E" "Register E cfg cb rnd realmName hwID fmt rs db = (Inr (secret, ev), db')"
  obtains i realm h d where "Parse hwID = Inr i" "find (\<lambda>r. r_Name r = realmName) rs = Some realm"
    "generateSecret rnd = Inr secret" "env_generateHash E secret (cfg_BcryptCost cfg) = Inr h"
    "map_of db' (r_ID realm, i) = Some d" "d_CredentialsSecretHash d = h" "d_Status d = ''registered''"
proof -
  have "\<exists>i realm h db1. Parse hwID = Inr i \<and> find (\<lambda>r. r_Name r = realmName) rs = Some realm \<and>
      generateSecret rnd = Inr secret \<and> env_generateHash E secret (cfg_BcryptCost cfg) = Inr h \<and>
      RegisterDevice None (env_now E) (r_ID realm) i h db = (Inr (), db1) \<and>
      (db' = db1 \<or> SetPayloadFormatHint None (r_ID realm) i fmt db1 = (Inr (), db'))"
    using assms unfolding Register_def no_faults_def Let_def
    by (auto simp: GetRealmByName_def split: sum.split_asm if_split_asm option.split_asm prod.split_asm)
  then obtain i realm h db1 where *: "Parse hwID = Inr i" "find (\<lambda>r. r_Name r = realmName) rs = Some realm"
    "generateSecret rnd = Inr secret" "env_generateHash E secret (cfg_BcryptCost cfg) = Inr h"
    "RegisterDevice None (env_now E) (r_ID realm) i h db = (Inr (), db1)"
    "db' = db1 \<or> SetPayloadFormatHint None (r_ID realm) i fmt db1 = (Inr (), db')" by blast
  from *(5) obtain d where d: "map_of db1 (r_ID realm, i) = Some d" "d_CredentialsSecretHash d = h"
    "d_Status d = ''registered''" by (rule RegisterDevice_row)
  from *(6) show thesis
  proof
    assume "db' = db1"
    with * d that show thesis by blast
  next
    assume "SetPayloadFormatHint None (r_ID realm) i fmt db1 = (Inr (), db')"
    from SetPayloadFormatHint_row [OF this d(1)] * d that show thesis by force
  qed
qed

lemma issueCredentials_ok:
  assumes "no_faults E" "issueCredentials E cfg draws realmName dev secret csrPEM rs db = Some (Inr (r, i, pem, serial, aki))"
  obtains realm d c where "find (\<lambda>r. r_Name r = realmName) rs = Some realm" "r = r_ID realm" "i = d_ID d"
    "fst (authenticateDevice E realmName dev secret rs db) = Inr (realm, d)" "d_Status d \<noteq> ''inhibited''"
    "loadCA E realm = Inr c"
    "SignCSR (env_pki E) c (env_now E) draws csrPEM realmName (ID_String i) (cfg_CertTTL cfg) = Some (Inr (pem, serial, aki))"
proof -
  have "\<exists>realm d c. fst (authenticateDevice E realmName dev secret rs db) = Inr (realm, d) \<and>
      d_Status d \<noteq> ''inhibited'' \<and> loadCA E realm = Inr c \<and> r = r_ID realm \<and> i = d_ID d \<and>
      SignCSR (env_pki E) c (env_now E) draws csrPEM realmName (ID_String i) (cfg_CertTTL cfg) = Some (Inr (pem, serial, aki))"
    using assms(2) unfolding issueCredentials_def DeviceStatusInhibited_def
    by (auto split: sum.split_asm if_split_asm option.split_asm ca_error.split_asm)
  then obtain realm d c where *: "fst (authenticateDevice E realmName dev secret rs db) = Inr (realm, d)"
    "d_Status d \<noteq> ''inhibited''" "loadCA E realm = Inr c" "r = r_ID realm" "i = d_ID d"
    "SignCSR (env_pki E) c (env_now E) draws csrPEM realmName (ID_String i) (cfg_CertTTL cfg) = Some (Inr (pem, serial, aki))"
    by blast
  moreover from *(1) have "find (\<lambda>r. r_Name r = realmName) rs = Some realm"
    by (auto simp: authenticateDevice_ok_iff [OF assms(1)])
  ultimately show thesis using that by blast
qed

lemma recordCredentials_row:
  assumes "env_fault E CallSetDeviceCredentials = None" "map_of db (r, i) = Some d"
  shows "recordCredentials E ip (r, i, pem, serial, aki) db =
    (Inr pem, AList.update (r, i) (d\<lparr>d_CertSerial := Some serial, d_CertAKI := Some aki,
       d_FirstCredentialsRequest := (case d_FirstCredentialsRequest d of None \<Rightarrow> Some (env_now E) | Some t \<Rightarrow> Some t),
       d_LastCredentialsRequestIP := Some ip, d_Status := ''confirmed''\<rparr>) db)"
  using assms by (simp add: recordCredentials_def SetDeviceCredentials_def updateDevice_def)

section \<open>Properties\<close>

text \<open>C34. Authentication by credentials secret is exact and gives no oracle: it succeeds for exactly
  the registered devices whose stored hash accepts the secret, every other outcome is the
  same error, and every outcome costs exactly one password comparison.\<close>

theorem authentication_uniform:
  assumes "no_faults E"
  shows "(case authenticateDevice E realmName dev secret rs db of
      (Inl e, n) \<Rightarrow> e = ErrUnauthorized \<and> n = 1 \<and>
        \<not> (\<exists>i realm d. Parse dev = Inr i \<and> find (\<lambda>r. r_Name r = realmName) rs = Some realm \<and>
             map_of db (r_ID realm, i) = Some d \<and> d_CredentialsSecretHash d \<noteq> [] \<and>
             env_compareHash E (d_CredentialsSecretHash d) secret)
    | (Inr (realm, d), n) \<Rightarrow> n = 1 \<and>
        (\<exists>i. Parse dev = Inr i \<and> find (\<lambda>r. r_Name r = realmName) rs = Some realm \<and>
           map_of db (r_ID realm, i) = Some d \<and> d_CredentialsSecretHash d \<noteq> [] \<and>
           env_compareHash E (d_CredentialsSecretHash d) secret))"
proof (cases "authenticateDevice E realmName dev secret rs db")
  case (Pair res n)
  have n: "n = 1" using authenticateDevice_cost(1) [OF assms, of realmName dev secret rs db] Pair by simp
  show ?thesis
  proof (cases res)
    case (Inl e)
    have "e = ErrUnauthorized"
      using authenticateDevice_cost(2) [OF assms, of realmName dev secret rs db e] Pair Inl by simp
    moreover have "fst (authenticateDevice E realmName dev secret rs db) \<noteq> Inr (realm, d)" for realm d
      using Pair Inl by simp
    ultimately show ?thesis unfolding authenticateDevice_ok_iff [OF assms] using Pair Inl n by auto
  next
    case (Inr p)
    then show ?thesis
      using authenticateDevice_ok_iff [OF assms, of realmName dev secret rs db "fst p" "snd p"] Pair n
      by (cases p) simp
  qed
qed

definition sampleRealm :: Realm where
  "sampleRealm = \<lparr>r_ID = 1, r_Name = ''test'', r_JWTPublicKeysPEM = [], r_CACertificatePEM = ca_certPEM sampleCA,
     r_CAPrivateKeySealed = [6], r_DeviceRegistrationLimit = Some 10, r_DatastreamMaximumStorageRetention = None,
     r_CreatedAt = 0\<rparr>"

definition sampleEnv :: environment where
  "sampleEnv = \<lparr>env_fault = (\<lambda>_. None), env_compareHash = (\<lambda>h s. h = CHR ''$'' # s),
     env_generateHash = (\<lambda>s cost. Inr (CHR ''$'' # s)), env_openSealed = (\<lambda>b. Inr b),
     env_pki = samplePki, env_now = 100\<rparr>"

definition sampleConfig :: Config where
  "sampleConfig = New \<lparr>cfg_BrokerURL = ''mqtts://host:8883'', cfg_CertTTL = 0, cfg_EnforceLatestCert = True,
     cfg_Version = [], cfg_BcryptCost = 0\<rparr>"

lemma sampleEnv_laws: "no_faults sampleEnv" "hash_laws sampleEnv"
  by (simp_all add: no_faults_def hash_laws_def sampleEnv_def)

theorem authentication_uniform_witness:
  "authenticateDevice sampleEnv ''test'' ''short'' ''s'' [sampleRealm] [] = (Inl ErrUnauthorized, 1)"
  using authentication_uniform [OF sampleEnv_laws(1), where realmName = "''test''" and dev = "''short''"
      and secret = "''s''" and rs = "[sampleRealm]" and db = "[]"]
  by (auto split: prod.splits sum.splits)

text \<open>Registration round trip: the secret Register returns has 44 characters and authenticates
  the device, whose row is then in the registered state.\<close>

theorem registration_roundtrip:
  assumes "no_faults E" "hash_laws E" "\<And>bs. rnd = Inr bs \<Longrightarrow> length bs = secretBytes"
    and "Register E cfg cb rnd realmName hwID fmt rs db = (Inr (secret, ev), db')"
  shows "length secret = 44 \<and> (\<exists>realm d. authenticateDevice E realmName hwID secret rs db' = (Inr (realm, d), 1) \<and>
    d_Status d = DeviceStatusRegistered)"
proof -
  from assms(1,4) obtain i realm h d where *: "Parse hwID = Inr i" "find (\<lambda>r. r_Name r = realmName) rs = Some realm"
    "generateSecret rnd = Inr secret" "env_generateHash E secret (cfg_BcryptCost cfg) = Inr h"
    "map_of db' (r_ID realm, i) = Some d" "d_CredentialsSecretHash d = h" "d_Status d = ''registered''"
    by (rule Register_ok)
  have "h \<noteq> []" "env_compareHash E h secret" using assms(2) *(4) by (auto simp: hash_laws_def)
  with * have "fst (authenticateDevice E realmName hwID secret rs db') = Inr (realm, d)"
    by (auto simp: authenticateDevice_ok_iff [OF assms(1)])
  moreover have "length secret = 44"
    using *(3) assms(3) by (auto simp: generateSecret_def secret_length secretBytes_def split: sum.splits)
  ultimately show ?thesis using authenticateDevice_cost(1) [OF assms(1)] *(7)
    by (metis DeviceStatusRegistered_def prod.collapse)
qed

theorem registration_roundtrip_witness:
  "(case Register sampleEnv sampleConfig True (Inr (replicate 32 0)) ''test'' ''KioqKioqKioqKioqKioqKg'' ''json'' [sampleRealm] [] of
     (Inr (secret, _), db') \<Rightarrow> length secret = 44 | _ \<Rightarrow> False)"
proof -
  let ?R = "Register sampleEnv sampleConfig True (Inr (replicate 32 0)) ''test'' ''KioqKioqKioqKioqKioqKg'' ''json'' [sampleRealm] []"
  have "is_ok (fst ?R)" by code_simp
  then obtain secret ev where r: "?R = (Inr (secret, ev), snd ?R)" by (metis is_ok_ex prod.collapse)
  from registration_roundtrip [OF sampleEnv_laws _ r] show ?thesis
    by (subst r) (simp add: secretBytes_def)
qed

text \<open>An inhibited device gets no certificate: Credentials fails and leaves the devices table
  as it was.\<close>

theorem inhibited_gets_no_credentials:
  assumes "no_faults E" "\<And>i realm d. Parse dev = Inr i \<Longrightarrow> find (\<lambda>r. r_Name r = realmName) rs = Some realm \<Longrightarrow>
      map_of db (r_ID realm, i) = Some d \<Longrightarrow> d_Status d = DeviceStatusInhibited"
  shows "\<exists>e. Credentials E cfg draws realmName dev secret csrPEM ip rs db = Some (Inl e, db) \<and> e \<in> {ErrUnauthorized, ErrInhibited}"
proof (cases "fst (authenticateDevice E realmName dev secret rs db)")
  case (Inl e)
  then have "e = ErrUnauthorized" using authenticateDevice_cost(2) [OF assms(1)] by metis
  with Inl show ?thesis by (simp add: Credentials_def issueCredentials_def)
next
  case (Inr p)
  obtain realm d where p: "p = (realm, d)" by (cases p)
  with Inr have "d_Status d = DeviceStatusInhibited"
    using assms(2) authenticateDevice_ok_iff [OF assms(1)] by metis
  with Inr p show ?thesis by (simp add: Credentials_def issueCredentials_def)
qed

theorem inhibited_gets_no_credentials_witness:
  "\<exists>e. Credentials sampleEnv sampleConfig [] ''test'' ''KioqKioqKioqKioqKioqKg'' ''s'' ''csr'' ZeroAddr [sampleRealm]
     [((1, replicate 16 0x2a), (insertedDevice 0 1 (replicate 16 0x2a) ''$s'')\<lparr>d_Status := ''inhibited''\<rparr>)] =
   Some (Inl e, [((1, replicate 16 0x2a), (insertedDevice 0 1 (replicate 16 0x2a) ''$s'')\<lparr>d_Status := ''inhibited''\<rparr>)]) \<and>
   e \<in> {ErrUnauthorized, ErrInhibited}"
  by (rule inhibited_gets_no_credentials [OF sampleEnv_laws(1)])
    (auto simp: DeviceStatusInhibited_def split: if_splits)



end
