(* ===== verification/Engine_Topics.thy ===== *)
theory Engine_Topics
  imports Broker_Identity Store_Devices
begin

text \<open>
  Model of internal/engine/topics.go (topic taxonomy and interface resolution) and of the
  introspection parser of internal/engine/introspection.go.  The lemmas connect the topics
  the broker grants with the topics the engine accepts, and give the grammar of the
  introspection payload.
\<close>

section \<open>Topic taxonomy\<close>

datatype topicKind = kindIntrospection | kindCapabilities | kindControl | kindData

definition controlPrefix :: string where
  "controlPrefix = ''control/''"

definition deviceIDStringLen :: nat where
  "deviceIDStringLen = 22"

definition splitDeviceTopic :: "string \<Rightarrow> string \<Rightarrow> ID \<Rightarrow> string option" where
  "splitDeviceTopic topic realm i =
    (let root = length realm + 1 + deviceIDStringLen
     in if length topic < root \<or> take (length realm) topic \<noteq> realm \<or>
           topic ! length realm \<noteq> CHR ''/'' \<or>
           take (root - (length realm + 1)) (drop (length realm + 1) topic) \<noteq> ID_String i
        then None
        else if length topic = root then Some []
        else if topic ! root \<noteq> CHR ''/'' then None
        else Some (drop (root + 1) topic))"

definition classify :: "string \<Rightarrow> topicKind \<times> string" where
  "classify rest =
    (if rest = [] then (kindIntrospection, [])
     else if rest = ''capabilities'' then (kindCapabilities, [])
     else if rest = ''control'' then (kindControl, [])
     else if HasPrefix rest controlPrefix then (kindControl, drop (length controlPrefix) rest)
     else (kindData, []))"

text \<open>The loop of matchInterface; its variable is the end of the candidate prefix.\<close>

lemma LastIndexByte_less: "LastIndexByte s c = Some i \<Longrightarrow> i < length s"
  by (induction s arbitrary: i) (auto split: option.splits if_splits)

function matchLoop ::
  "string \<Rightarrow> (string \<Rightarrow> InterfaceVersion option) \<Rightarrow> nat \<Rightarrow> (string \<times> string \<times> InterfaceVersion) option" where
  "matchLoop rest declares stop =
    (case declares (take stop rest) of
       Some v \<Rightarrow> Some (take stop rest, drop stop rest, v)
     | None \<Rightarrow> (case LastIndexByte (take stop rest) (CHR ''/'') of
         None \<Rightarrow> None
       | Some i \<Rightarrow> matchLoop rest declares i))"
  by pat_completeness auto
termination
  by (relation "measure (\<lambda>(_, _, n). n)") (auto dest: LastIndexByte_less)

declare matchLoop.simps [simp del]

definition matchInterface ::
  "string \<Rightarrow> (string \<Rightarrow> InterfaceVersion option) \<Rightarrow> (string \<times> string \<times> InterfaceVersion) option" where
  "matchInterface rest declares = matchLoop rest declares (length rest)"

section \<open>Introspection payloads\<close>

datatype introspection_error =
    MalformedEntry string
  | NameMetacharacters string
  | InvalidMajor string
  | InvalidMinor string

definition parseEntry :: "string \<Rightarrow> introspection_error + (string \<times> InterfaceVersion)" where
  "parseEntry entry = (case Cut entry (CHR '':'') of (name, versions, ok) \<Rightarrow>
     if \<not> ok \<or> name = [] then Inl (MalformedEntry entry)
     else if ContainsAny name ''/+#'' then Inl (NameMetacharacters name)
     else (case Cut versions (CHR '':'') of (majorStr, minorStr, ok2) \<Rightarrow>
       if \<not> ok2 then Inl (MalformedEntry entry)
       else (case Atoi majorStr of
           None \<Rightarrow> Inl (InvalidMajor entry)
         | Some major \<Rightarrow>
             (if major < 0 then Inl (InvalidMajor entry)
              else (case Atoi minorStr of
                  None \<Rightarrow> Inl (InvalidMinor entry)
                | Some minor \<Rightarrow>
                    (if minor < 0 then Inl (InvalidMinor entry)
                     else Inr (name, \<lparr>iv_Major = major, iv_Minor = minor\<rparr>)))))))"

fun parseEntries :: "string list \<Rightarrow> introspection \<Rightarrow> introspection_error + introspection" where
  "parseEntries [] intro = Inr intro"
| "parseEntries (e # es) intro =
     bindR (parseEntry e) (\<lambda>(name, v). parseEntries es (intro(name \<mapsto> v)))"

definition parseIntrospection :: "string \<Rightarrow> introspection_error + introspection" where
  "parseIntrospection s =
    (if s = [] then Inr Map.empty else parseEntries (SplitByte (CHR '';'') s) Map.empty)"

section \<open>Device topics\<close>

lemma splitDeviceTopic_iff:
  assumes "id_ok i"
  shows "splitDeviceTopic topic realm i = Some rest \<longleftrightarrow>
    topic = realm @ ''/'' @ ID_String i \<and> rest = [] \<or> topic = realm @ ''/'' @ ID_String i @ ''/'' @ rest"
proof -
  have l: "length (ID_String i) = deviceIDStringLen"
    using assms by (simp add: ID_String_length deviceIDStringLen_def EncodedLen_def)
  show ?thesis
  proof
    assume h: "splitDeviceTopic topic realm i = Some rest"
    let ?root = "length realm + 1 + deviceIDStringLen"
    from h have g: "\<not> length topic < ?root" "take (length realm) topic = realm" "topic ! length realm = CHR ''/''"
      "take deviceIDStringLen (drop (length realm + 1) topic) = ID_String i"
      and r: "if length topic = ?root then rest = [] else topic ! ?root = CHR ''/'' \<and> rest = drop (?root + 1) topic"
      by (auto simp: splitDeviceTopic_def Let_def split: if_splits)
    have "topic = take (length realm) topic @ topic ! length realm # drop (length realm + 1) topic"
      using g(1) by (simp add: id_take_nth_drop)
    also have "drop (length realm + 1) topic =
        take deviceIDStringLen (drop (length realm + 1) topic) @ drop ?root topic"
      using append_take_drop_id [of deviceIDStringLen "drop (length realm + 1) topic"]
      by (simp add: add.commute add.left_commute)
    finally have t: "topic = realm @ ''/'' @ ID_String i @ drop ?root topic" using g by simp
    show "topic = realm @ ''/'' @ ID_String i \<and> rest = [] \<or> topic = realm @ ''/'' @ ID_String i @ ''/'' @ rest"
    proof (cases "length topic = ?root")
      case True
      then have "drop ?root topic = []" by simp
      with t r True show ?thesis by simp
    next
      case False
      with g(1) have "drop ?root topic = topic ! ?root # drop (?root + 1) topic"
        using Cons_nth_drop_Suc [of ?root topic] by simp
      with t r False show ?thesis by simp
    qed
  next
    assume "topic = realm @ ''/'' @ ID_String i \<and> rest = [] \<or> topic = realm @ ''/'' @ ID_String i @ ''/'' @ rest"
    then show "splitDeviceTopic topic realm i = Some rest"
      by (auto simp: splitDeviceTopic_def Let_def l nth_append)
  qed
qed

lemma LastIndexByte_ge:
  "j < length s \<Longrightarrow> s ! j = c \<Longrightarrow> \<exists>i. LastIndexByte s c = Some i \<and> j \<le> i"
proof (induction s arbitrary: j)
  case (Cons x xs)
  then show ?case by (cases j) (fastforce split: option.splits)+
qed simp

lemma LastIndexByte_notin: "c \<notin> set s \<Longrightarrow> LastIndexByte s c = None"
  by (induction s) auto

lemma matchLoop_first_segment:
  assumes declared: "\<And>n. declares n \<noteq> None \<Longrightarrow> CHR ''/'' \<notin> set n"
    and rest: "CHR ''/'' \<notin> set iface" "path = [] \<or> hd path = CHR ''/''"
    and stop: "length iface \<le> stop" "stop \<le> length (iface @ path)"
  shows "matchLoop (iface @ path) declares stop = map_option (\<lambda>v. (iface, path, v)) (declares iface)"
  using stop
proof (induction stop rule: less_induct)
  case (less stop)
  show ?case
  proof (cases "stop = length iface")
    case True
    with rest(1) show ?thesis by (subst matchLoop.simps) (simp add: LastIndexByte_notin split: option.splits)
  next
    case False
    with less(2,3) have gt: "length iface < stop" "path \<noteq> []" by auto
    with rest(2) have slash: "take stop (iface @ path) ! length iface = CHR ''/''"
      by (simp add: nth_append hd_conv_nth)
    have "length iface < length (take stop (iface @ path))" using gt less(3) by simp
    from LastIndexByte_ge [OF this slash] nth_mem [OF this] slash obtain i where
      i: "LastIndexByte (take stop (iface @ path)) (CHR ''/'') = Some i" "length iface \<le> i"
      and mem: "CHR ''/'' \<in> set (take stop (iface @ path))" by auto
    have "i < stop" using LastIndexByte_less [OF i(1)] less(3) by simp
    have "declares (take stop (iface @ path)) = None" using mem declared by blast
    with i less(1) [OF \<open>i < stop\<close> i(2)] \<open>i < stop\<close> less(3) show ?thesis
      by (subst matchLoop.simps) simp
  qed
qed

lemma matchInterface_iff:
  assumes "\<And>n. declares n \<noteq> None \<Longrightarrow> CHR ''/'' \<notin> set n"
  shows "matchInterface rest declares = Some (name, path, v) \<longleftrightarrow>
    rest = name @ path \<and> (path = [] \<or> hd path = CHR ''/'') \<and> declares name = Some v"
proof -
  obtain a b f where c: "Cut rest (CHR ''/'') = (a, b, f)" by (cases "Cut rest (CHR ''/'')")
  obtain iface p where r: "rest = iface @ p" "CHR ''/'' \<notin> set iface" "p = [] \<or> hd p = CHR ''/''"
    using c Cut_found_iff [of rest "CHR ''/''" a b] Cut_notfound_iff [of rest "CHR ''/''" a b]
    by (cases f) force+
  have m: "matchInterface rest declares = map_option (\<lambda>v. (iface, p, v)) (declares iface)"
    using matchLoop_first_segment [OF assms r(2,3)] by (simp add: matchInterface_def r(1))
  have u: "name = iface \<and> path = p"
    if "rest = name @ path" "path = [] \<or> hd path = CHR ''/''" "declares name = Some v"
  proof -
    have "CHR ''/'' \<notin> set name" using assms that(3) by blast
    then have "Cut rest (CHR ''/'') = (name, tl path, path \<noteq> [])" using that(1,2) by (cases path) auto
    moreover have "Cut rest (CHR ''/'') = (iface, tl p, p \<noteq> [])" using r by (cases p) auto
    ultimately have "name = iface" by simp
    with that(1) r(1) show ?thesis by (metis same_append_eq)
  qed
  show ?thesis unfolding m map_option_eq_Some prod.inject using r(1,3) u by metis
qed

section \<open>Introspection grammar\<close>

lemma parseEntry_iff:
  "parseEntry entry = Inr (name, v) \<longleftrightarrow>
    (\<exists>mj mn. entry = name @ '':'' @ mj @ '':'' @ mn \<and> name \<noteq> [] \<and> set name \<inter> set '':/+#'' = {} \<and>
       CHR '':'' \<notin> set mj \<and> Atoi mj = Some (iv_Major v) \<and> Atoi mn = Some (iv_Minor v) \<and>
       0 \<le> iv_Major v \<and> 0 \<le> iv_Minor v)"
proof
  assume h: "parseEntry entry = Inr (name, v)"
  obtain a b f where c: "Cut entry (CHR '':'') = (a, b, f)" by (cases "Cut entry (CHR '':'')")
  obtain mj mn g where d: "Cut b (CHR '':'') = (mj, mn, g)" by (cases "Cut b (CHR '':'')")
  from h c d have *: "f" "g" "a \<noteq> []" "\<not> ContainsAny a ''/+#''" "a = name"
    "Atoi mj = Some (iv_Major v)" "Atoi mn = Some (iv_Minor v)" "0 \<le> iv_Major v" "0 \<le> iv_Minor v"
    by (auto simp: parseEntry_def split: if_splits option.splits)
  with c d have "entry = a @ CHR '':'' # b \<and> CHR '':'' \<notin> set a" "b = mj @ CHR '':'' # mn \<and> CHR '':'' \<notin> set mj"
    by (simp_all add: Cut_found_iff)
  with * show "\<exists>mj mn. entry = name @ '':'' @ mj @ '':'' @ mn \<and> name \<noteq> [] \<and> set name \<inter> set '':/+#'' = {} \<and>
       CHR '':'' \<notin> set mj \<and> Atoi mj = Some (iv_Major v) \<and> Atoi mn = Some (iv_Minor v) \<and>
       0 \<le> iv_Major v \<and> 0 \<le> iv_Minor v"
    by (auto simp: ContainsAny_iff)
next
  assume "\<exists>mj mn. entry = name @ '':'' @ mj @ '':'' @ mn \<and> name \<noteq> [] \<and> set name \<inter> set '':/+#'' = {} \<and>
       CHR '':'' \<notin> set mj \<and> Atoi mj = Some (iv_Major v) \<and> Atoi mn = Some (iv_Minor v) \<and>
       0 \<le> iv_Major v \<and> 0 \<le> iv_Minor v"
  then obtain mj mn where *: "entry = name @ CHR '':'' # (mj @ CHR '':'' # mn)" "name \<noteq> []"
    "set name \<inter> set '':/+#'' = {}" "CHR '':'' \<notin> set mj" "Atoi mj = Some (iv_Major v)"
    "Atoi mn = Some (iv_Minor v)" "0 \<le> iv_Major v" "0 \<le> iv_Minor v" by auto
  from *(3) have "CHR '':'' \<notin> set name" "\<not> ContainsAny name ''/+#''" by (auto simp: ContainsAny_iff)
  with * show "parseEntry entry = Inr (name, v)" by (simp add: parseEntry_def)
qed

lemma parseEntries_iff:
  "parseEntries es intro = Inr m \<longleftrightarrow>
    (\<exists>nvs. list_all2 (\<lambda>e nv. parseEntry e = Inr nv) es nvs \<and> m = intro ++ map_of (rev nvs))"
proof (induction es arbitrary: intro)
  case (Cons e es)
  have "parseEntries (e # es) intro = Inr m \<longleftrightarrow>
      (\<exists>a v nvs. parseEntry e = Inr (a, v) \<and> list_all2 (\<lambda>e nv. parseEntry e = Inr nv) es nvs \<and>
         m = intro(a \<mapsto> v) ++ map_of (rev nvs))"
    by (simp add: Cons.IH fun_upd_def split: prod.splits)
  also have "\<dots> \<longleftrightarrow> (\<exists>nvs. list_all2 (\<lambda>e nv. parseEntry e = Inr nv) (e # es) nvs \<and>
         m = intro ++ map_of (rev nvs))"
    by (force simp: list_all2_Cons1 map_add_assoc)
  finally show ?case .
qed auto

lemma parseIntrospection_names:
  assumes "parseIntrospection s = Inr m" "m name = Some v"
  shows "name \<noteq> []" "set name \<inter> set '':/+#'' = {}" "0 \<le> iv_Major v" "0 \<le> iv_Minor v"
proof -
  from assms have "s \<noteq> []" by (auto simp: parseIntrospection_def)
  with assms(1) obtain nvs where nvs:
    "list_all2 (\<lambda>e nv. parseEntry e = Inr nv) (SplitByte (CHR '';'') s) nvs" "m = map_of (rev nvs)"
    by (auto simp: parseIntrospection_def parseEntries_iff)
  with assms(2) have "(name, v) \<in> set nvs" by (auto dest: map_of_SomeD)
  with nvs(1) obtain e where "parseEntry e = Inr (name, v)"
    by (auto simp: list_all2_conv_all_nth in_set_conv_nth)
  then show "name \<noteq> []" "set name \<inter> set '':/+#'' = {}" "0 \<le> iv_Major v" "0 \<le> iv_Minor v"
    by (auto simp: parseEntry_iff)
qed

text \<open>The payload a device sends for a list of declared interfaces.\<close>

definition introspectionEntry :: "string \<times> InterfaceVersion \<Rightarrow> string" where
  "introspectionEntry nv = fst nv @ '':'' @ Itoa (iv_Major (snd nv)) @ '':'' @ Itoa (iv_Minor (snd nv))"

definition introspectionPayload :: "(string \<times> InterfaceVersion) list \<Rightarrow> string" where
  "introspectionPayload nvs = Join (map introspectionEntry nvs) '';''"

definition declarable :: "string \<times> InterfaceVersion \<Rightarrow> bool" where
  "declarable nv \<longleftrightarrow> fst nv \<noteq> [] \<and> list_all (\<lambda>c. c \<notin> set '':;/+#'') (fst nv) \<and>
     0 \<le> iv_Major (snd nv) \<and> iv_Major (snd nv) < 2 ^ 63 \<and>
     0 \<le> iv_Minor (snd nv) \<and> iv_Minor (snd nv) < 2 ^ 63"

lemma Itoa_notin: "0 \<le> i \<Longrightarrow> \<not> is_digit c \<Longrightarrow> c \<notin> set (Itoa i)"
  by (simp add: Itoa_def nat_digits_notin)

lemma parseEntry_introspectionEntry:
  assumes "declarable nv"
  shows "parseEntry (introspectionEntry nv) = Inr nv"
proof -
  have colon: "\<not> is_digit (CHR '':'')" by code_simp
  have "Atoi (Itoa (iv_Major (snd nv))) = Some (iv_Major (snd nv))"
    "Atoi (Itoa (iv_Minor (snd nv))) = Some (iv_Minor (snd nv))"
    using assms by (simp_all add: declarable_def Atoi_Itoa)
  moreover have "CHR '':'' \<notin> set (Itoa (iv_Major (snd nv)))"
    using assms colon by (simp add: declarable_def Itoa_notin)
  moreover have "set (fst nv) \<inter> set '':/+#'' = {}" using assms by (auto simp: declarable_def list_all_iff)
  ultimately have "parseEntry (introspectionEntry nv) = Inr (fst nv, snd nv)" unfolding parseEntry_iff
    using assms by (intro exI [of _ "Itoa (iv_Major (snd nv))"] exI [of _ "Itoa (iv_Minor (snd nv))"])
      (simp add: introspectionEntry_def declarable_def)
  then show ?thesis by simp
qed

lemma introspectionEntry_nosemi:
  assumes "declarable nv"
  shows "CHR '';'' \<notin> set (introspectionEntry nv)"
proof -
  have "\<not> is_digit (CHR '';'')" by code_simp
  then show ?thesis using assms
    by (auto simp: introspectionEntry_def declarable_def Itoa_notin list_all_iff)
qed

lemma parseIntrospection_payload:
  assumes "list_all declarable nvs"
  shows "parseIntrospection (introspectionPayload nvs) = Inr (map_of (rev nvs))"
proof (cases nvs)
  case Nil
  then show ?thesis by (simp add: introspectionPayload_def parseIntrospection_def)
next
  case (Cons nv rest)
  have "introspectionEntry nv \<noteq> []" by (simp add: introspectionEntry_def)
  then have "introspectionPayload nvs \<noteq> []"
    unfolding introspectionPayload_def Cons by (cases rest) auto
  moreover have "SplitByte (CHR '';'') (introspectionPayload nvs) = map introspectionEntry nvs"
    using assms unfolding introspectionPayload_def
    by (intro SplitByte_Join) (auto simp: Cons list_all_iff introspectionEntry_nosemi)
  moreover have "list_all2 (\<lambda>e nv. parseEntry e = Inr nv) (map introspectionEntry nvs) nvs"
    using assms by (simp add: list_all2_map1 list_all2_same parseEntry_introspectionEntry list_all_iff)
  ultimately show ?thesis unfolding parseIntrospection_def by (simp add: parseEntries_iff) blast
qed

section \<open>Properties\<close>

text \<open>C19. Every topic the broker lets a device publish on is accepted by the engine and lands where
  the grant came from: the bare topic is introspection, the control grants are control
  messages, and every other grant is a data message resolved to the introspected
  device-owned interface that justified it, with a non-empty path.  The exception is an
  interface named control, whose data topics the engine takes for control messages.\<close>

theorem granted_topics_are_routed:
  assumes "identity_ok i" "checkACL (BaseTopic i) topic True own"
    and "parseIntrospection payload = Inr intro" "\<And>n. own n \<noteq> None \<Longrightarrow> intro n \<noteq> None"
  shows "\<exists>rest. splitDeviceTopic topic (id_Realm i) (id_DeviceID i) = Some rest \<and>
    (case classify rest of
       (kindIntrospection, _) \<Rightarrow> topic = BaseTopic i
     | (kindCapabilities, _) \<Rightarrow> topic = BaseTopic i @ ''/capabilities''
     | (kindControl, sub) \<Rightarrow> sub \<in> {''emptyCache'', ''producer/properties''} \<or> own ''control'' = Some OwnershipDevice
     | (kindData, _) \<Rightarrow> \<exists>iface path v. matchInterface rest intro = Some (iface, ''/'' @ path, v) \<and>
          path \<noteq> [] \<and> own iface = Some OwnershipDevice \<and> iface \<noteq> ''control'')"
proof -
  have ok: "id_ok (id_DeviceID i)" using assms(1) by (simp add: identity_ok_def)
  have split: "splitDeviceTopic (BaseTopic i @ ''/'' @ r) (id_Realm i) (id_DeviceID i) = Some r"
    "splitDeviceTopic (BaseTopic i) (id_Realm i) (id_DeviceID i) = Some []" for r
    by (simp_all add: splitDeviceTopic_iff [OF ok] BaseTopic_def CN_def)
  have declared: "intro n \<noteq> None \<Longrightarrow> CHR ''/'' \<notin> set n" for n
    using parseIntrospection_names(2) [OF assms(3)] by fastforce
  from assms(2) consider "topic = BaseTopic i"
    | r where "topic = BaseTopic i @ ''/'' @ r" "r \<in> {''capabilities'', ''control/emptyCache'', ''control/producer/properties''}"
    | iface path where "topic = BaseTopic i @ ''/'' @ (iface @ ''/'' @ path)" "CHR ''/'' \<notin> set iface"
        "path \<noteq> []" "own iface = Some OwnershipDevice"
    unfolding checkACL_write_iff by blast
  then show ?thesis
  proof cases
    case 1
    then show ?thesis using split(2) by (intro exI [of _ "[]"]) (simp add: classify_def)
  next
    case (2 r)
    then show ?thesis using split(1) [of r]
      by (intro exI [of _ r]) (auto simp: classify_def controlPrefix_def HasPrefix_def)
  next
    case (3 iface path)
    let ?rest = "iface @ ''/'' @ path"
    from 3(4) assms(4) obtain v where v: "intro iface = Some v" by fastforce
    then have m: "matchInterface ?rest intro = Some (iface, ''/'' @ path, v)"
      by (simp add: matchInterface_iff [OF declared])
    have ne: "iface \<noteq> []" using parseIntrospection_names(1) [OF assms(3) v] .
    have ctl: "HasPrefix ?rest controlPrefix \<longleftrightarrow> iface = ''control''"
    proof
      assume "HasPrefix ?rest controlPrefix"
      then obtain r where "?rest = controlPrefix @ r" by (auto simp: HasPrefix_iff)
      then have "iface @ CHR ''/'' # path = ''control'' @ CHR ''/'' # r" by (simp add: controlPrefix_def)
      moreover have "CHR ''/'' \<notin> set ''control''" by simp
      ultimately show "iface = ''control''" using 3(2) by (metis Cut_app prod.inject)
    qed (simp add: HasPrefix_iff controlPrefix_def)
    show ?thesis
    proof (cases "iface = ''control''")
      case True
      then show ?thesis using split(1) [of ?rest] 3
        by (intro exI [of _ ?rest]) (auto simp: classify_def controlPrefix_def HasPrefix_def)
    next
      case False
      have "CHR ''/'' \<in> set ?rest" by simp
      moreover have "CHR ''/'' \<notin> set ''capabilities''" "CHR ''/'' \<notin> set ''control''" by simp_all
      ultimately have "?rest \<noteq> ''capabilities''" "?rest \<noteq> ''control''" by metis+
      with False ne ctl have "classify ?rest = (kindData, [])" by (simp add: classify_def)
      with False m split(1) [of ?rest] 3 show ?thesis by (intro exI [of _ ?rest]) auto
    qed
  qed
qed

theorem granted_topics_are_routed_witness:
  "\<exists>iface path v. matchInterface ''com.a.B/x'' [''com.a.B'' \<mapsto> \<lparr>iv_Major = 1, iv_Minor = 0\<rparr>] =
      Some (iface, ''/'' @ path, v) \<and> path \<noteq> []"
proof -
  have a: "identity_ok sampleDevice"
    "checkACL (BaseTopic sampleDevice) (BaseTopic sampleDevice @ ''/com.a.B/x'') True
      [''com.a.B'' \<mapsto> OwnershipDevice]" unfolding sampleDevice_base by code_simp+
  let ?l = "[(''com.a.B'', \<lparr>iv_Major = 1, iv_Minor = 0\<rparr>)]"
  have "list_all declarable ?l" by code_simp
  then have p: "parseIntrospection (introspectionPayload ?l) = Inr (map_of (rev ?l))"
    by (rule parseIntrospection_payload)
  have s: "splitDeviceTopic (BaseTopic sampleDevice @ ''/com.a.B/x'') (id_Realm sampleDevice)
      (id_DeviceID sampleDevice) = Some ''com.a.B/x''"
    using a(1) by (simp add: splitDeviceTopic_iff identity_ok_def BaseTopic_def CN_def)
  have c: "classify ''com.a.B/x'' = (kindData, [])" by code_simp
  have "[''com.a.B'' \<mapsto> OwnershipDevice] n \<noteq> None \<Longrightarrow> map_of (rev ?l) n \<noteq> None" for n
    by (simp split: if_splits)
  from granted_topics_are_routed [OF a p this] show ?thesis by (auto simp: s c)
qed

text \<open>C31. The introspection payload of a list of declarable interfaces parses to exactly the map of
  that list, the last entry winning for a repeated name; an empty list is the empty
  payload.\<close>

theorem introspection_roundtrip:
  assumes "list_all declarable nvs"
  shows "parseIntrospection (introspectionPayload nvs) = Inr (map_of (rev nvs))"
  using assms by (rule parseIntrospection_payload)

theorem introspection_roundtrip_witness:
  "parseIntrospection ''com.a.B:1:0;control:0:3'' =
    Inr [''com.a.B'' \<mapsto> \<lparr>iv_Major = 1, iv_Minor = 0\<rparr>, ''control'' \<mapsto> \<lparr>iv_Major = 0, iv_Minor = 3\<rparr>]"
proof -
  let ?l = "[(''com.a.B'', \<lparr>iv_Major = 1, iv_Minor = 0\<rparr>), (''control'', \<lparr>iv_Major = 0, iv_Minor = 3\<rparr>)]"
  have "list_all declarable ?l" "introspectionPayload ?l = ''com.a.B:1:0;control:0:3''" by code_simp+
  with introspection_roundtrip [of ?l] show ?thesis by (simp add: fun_upd_twist)
qed

end
