(* ===== verification/Broker_Sessions.thy ===== *)
theory Broker_Sessions
  imports Pairing_Service Engine_Topics
begin

text \<open>
  Model of the session side of the broker: internal/broker/authhook.go (realm pools,
  device sessions, registry, authentication), the hooks of internal/broker/aclhook.go,
  internal/broker/lifecycle.go and internal/broker/broker.go, and the packet the publisher
  of internal/broker/publisher.go injects.  The MQTT server is the environment that calls
  the hooks; a client is a record with the identity of its connection object.  Each hook is
  a function on the broker state; a hook reads the clock once.
\<close>

section \<open>State\<close>

record Client =
  cl_ptr :: nat
  cl_ID :: string
  cl_Inline :: bool
  cl_Listener :: string
  cl_Remote :: string
  cl_TLS :: "Certificate list option"
  cl_TakenOver :: bool

record realmCA =
  rc_id :: int
  rc_name :: string
  rc_cert :: Certificate
  rc_pool :: "Certificate list"

record deviceSession =
  ds_identity :: Identity
  ds_realmID :: int
  ds_client :: nat
  ds_remote :: Addr
  ds_ownership :: ownershipFn
  ds_lastIntroLoad :: int

record offlineEntry =
  oe_ownership :: ownershipFn
  oe_loadedAt :: int

record brokerState =
  bs_pools :: "string \<Rightarrow> realmCA option"
  bs_sessions :: "string \<Rightarrow> deviceSession option"
  bs_offline :: "string \<Rightarrow> offlineEntry option"

text \<open>The store as the broker sees it, and the rest of what the hooks call.\<close>

record brokerPorts =
  bp_ListRealms :: "store_error + Realm list"
  bp_GetDevice :: "int \<Rightarrow> ID \<Rightarrow> store_error + Device"
  bp_GetInterface :: "int \<Rightarrow> string \<Rightarrow> int \<Rightarrow> store_error + StoredInterface"
  bp_pki :: pki
  bp_ParseAddrPort :: "string \<Rightarrow> Addr option"
  bp_enforceLatestCert :: bool
  bp_devListenerID :: string

definition introspectionReloadDebounce :: int where "introspectionReloadDebounce = SecondNs"
definition offlineACLCacheTTL :: int where "offlineACLCacheTTL = 10 * SecondNs"

section \<open>Realm pools\<close>

fun buildPools :: "brokerPorts \<Rightarrow> Realm list \<Rightarrow> (string \<Rightarrow> realmCA option) \<Rightarrow> (string \<Rightarrow> realmCA option)" where
  "buildPools B [] byName = byName"
| "buildPools B (r # rs) byName =
     (case ParseCertificatePEM (bp_pki B) (r_CACertificatePEM r) of
        Inl e \<Rightarrow> buildPools B rs byName
      | Inr cert \<Rightarrow>
          buildPools B rs (byName(r_Name r \<mapsto>
            \<lparr>rc_id = r_ID r, rc_name = r_Name r, rc_cert = cert, rc_pool = [cert]\<rparr>)))"

definition Reload :: "brokerPorts \<Rightarrow> brokerState \<Rightarrow> store_error + brokerState" where
  "Reload B st =
    (case bp_ListRealms B of
       Inl e \<Rightarrow> Inl e
     | Inr realms \<Rightarrow> Inr (st\<lparr>bs_pools := buildPools B realms Map.empty\<rparr>))"

definition Lookup :: "brokerState \<Rightarrow> string \<Rightarrow> realmCA option" where
  "Lookup st name = bs_pools st name"

section \<open>Device sessions\<close>

definition loadOwnership :: "brokerPorts \<Rightarrow> int \<Rightarrow> introspection \<Rightarrow> ownershipFn" where
  "loadOwnership B realmID intro name =
    (case intro name of
       None \<Rightarrow> None
     | Some ver \<Rightarrow>
         (case bp_GetInterface B realmID name (iv_Major ver) of
            Inl e \<Rightarrow> None
          | Inr si \<Rightarrow> Some (si_Ownership si)))"

definition refresh :: "brokerPorts \<Rightarrow> int \<Rightarrow> deviceSession \<Rightarrow> store_error + deviceSession" where
  "refresh B now s =
    (case bp_GetDevice B (ds_realmID s) (id_DeviceID (ds_identity s)) of
       Inl e \<Rightarrow> Inl e
     | Inr dev \<Rightarrow>
         Inr (s\<lparr>ds_ownership := loadOwnership B (ds_realmID s) (d_Introspection dev), ds_lastIntroLoad := now\<rparr>))"

definition refreshIfStale :: "brokerPorts \<Rightarrow> int \<Rightarrow> deviceSession \<Rightarrow> deviceSession" where
  "refreshIfStale B now s =
    (if now - ds_lastIntroLoad s < introspectionReloadDebounce then s
     else (let s1 = s\<lparr>ds_lastIntroLoad := now\<rparr>
           in case refresh B now s1 of Inl e \<Rightarrow> s1 | Inr s2 \<Rightarrow> s2))"

definition put :: "deviceSession \<Rightarrow> brokerState \<Rightarrow> brokerState" where
  "put s st = st\<lparr>bs_sessions := (bs_sessions st)(CN (ds_identity s) \<mapsto> s)\<rparr>"

definition removeIfOwner :: "string \<Rightarrow> Client \<Rightarrow> brokerState \<Rightarrow> deviceSession option \<times> brokerState" where
  "removeIfOwner clientID cl st =
    (case bs_sessions st clientID of
       None \<Rightarrow> (None, st)
     | Some s \<Rightarrow>
         (if ds_client s \<noteq> cl_ptr cl then (None, st)
          else (Some s, st\<lparr>bs_sessions := (bs_sessions st)(clientID := None)\<rparr>)))"

section \<open>Authentication\<close>

datatype packetType = PacketConnect | PacketOther

record Packet =
  pk_Type :: packetType
  pk_ClientIdentifier :: string

definition OnPacketRead :: "Client \<Rightarrow> Packet \<Rightarrow> Packet" where
  "OnPacketRead cl pk =
    (if pk_Type pk \<noteq> PacketConnect then pk
     else (case cl_TLS cl of
         None \<Rightarrow> pk
       | Some [] \<Rightarrow> pk
       | Some (leaf # _) \<Rightarrow>
           (case ParseCN (x_CommonName leaf) of
              Inl e \<Rightarrow> pk
            | Inr _ \<Rightarrow> pk\<lparr>pk_ClientIdentifier := x_CommonName leaf\<rparr>)))"

text \<open>intermediatePool: no pool at all when the device presents a bare leaf.\<close>

definition intermediatePool :: "Certificate list \<Rightarrow> Certificate list" where
  "intermediatePool certs = certs"

definition remoteAddr :: "brokerPorts \<Rightarrow> string \<Rightarrow> Addr" where
  "remoteAddr B remote =
    (case bp_ParseAddrPort B remote of Some a \<Rightarrow> Unmap a | None \<Rightarrow> AddrV4 [0, 0, 0, 0])"

definition isLatestCert :: "Certificate \<Rightarrow> Device \<Rightarrow> bool" where
  "isLatestCert leaf dev =
    (case (d_CertSerial dev, d_CertAKI dev) of
       (Some serial, Some aki) \<Rightarrow>
         Itoa (x_SerialNumber leaf) = serial \<and> hexEncode (x_AuthorityKeyId leaf) = aki
     | _ \<Rightarrow> False)"

definition admit :: "brokerPorts \<Rightarrow> int \<Rightarrow> Client \<Rightarrow> Identity \<Rightarrow> int \<Rightarrow> Device \<Rightarrow> brokerState \<Rightarrow> brokerState" where
  "admit B now cl i realmID dev st =
    put \<lparr>ds_identity = i, ds_realmID = realmID, ds_client = cl_ptr cl, ds_remote = remoteAddr B (cl_Remote cl),
         ds_ownership = loadOwnership B realmID (d_Introspection dev), ds_lastIntroLoad = now\<rparr> st"

datatype deny =
    NoClientCertificate
  | BadCertificateCN identity_error
  | UnknownRealm
  | NotChained verify_error
  | DeviceLookupFailed store_error
  | DeviceInhibited
  | CertificateSuperseded
  | PlaintextOutsideDevMode
  | BadClientID identity_error

definition OnConnectAuthenticate :: "brokerPorts \<Rightarrow> int \<Rightarrow> Client \<Rightarrow> brokerState \<Rightarrow> deny + brokerState" where
  "OnConnectAuthenticate B now cl st =
    (case cl_TLS cl of
       Some [] \<Rightarrow> Inl NoClientCertificate
     | Some (leaf # rest) \<Rightarrow>
         (case ParseCN (x_CommonName leaf) of
            Inl e \<Rightarrow> Inl (BadCertificateCN e)
          | Inr i \<Rightarrow>
         (case Lookup st (id_Realm i) of
            None \<Rightarrow> Inl UnknownRealm
          | Some rc \<Rightarrow>
         (case x509Verify (bp_pki B) leaf (rc_pool rc) (intermediatePool rest) now of
            Some e \<Rightarrow> Inl (NotChained e)
          | None \<Rightarrow>
         (case bp_GetDevice B (rc_id rc) (id_DeviceID i) of
            Inl e \<Rightarrow> Inl (DeviceLookupFailed e)
          | Inr dev \<Rightarrow>
              (if d_Status dev = DeviceStatusInhibited then Inl DeviceInhibited
               else if bp_enforceLatestCert B \<and> \<not> isLatestCert leaf dev then Inl CertificateSuperseded
               else Inr (admit B now cl i (rc_id rc) dev st))))))
     | None \<Rightarrow>
         (if bp_devListenerID B = [] \<or> cl_Listener cl \<noteq> bp_devListenerID B then Inl PlaintextOutsideDevMode
          else (case ParseCN (cl_ID cl) of
              Inl e \<Rightarrow> Inl (BadClientID e)
            | Inr i \<Rightarrow>
          (case Lookup st (id_Realm i) of
              None \<Rightarrow> Inl UnknownRealm
            | Some rc \<Rightarrow>
          (case bp_GetDevice B (rc_id rc) (id_DeviceID i) of
              Inl e \<Rightarrow> Inl (DeviceLookupFailed e)
            | Inr dev \<Rightarrow>
                (if d_Status dev = DeviceStatusInhibited then Inl DeviceInhibited
                 else Inr (admit B now cl i (rc_id rc) dev st)))))))"

section \<open>The ACL hook\<close>

text \<open>offlineACL.load and ownershipOf: the entry is claimed first and filled after the load.\<close>

definition offlineLoad :: "brokerPorts \<Rightarrow> brokerState \<Rightarrow> string \<Rightarrow> ownershipFn" where
  "offlineLoad B st cn =
    (case ParseCN cn of
       Inl e \<Rightarrow> Map.empty
     | Inr i \<Rightarrow>
         (case Lookup st (id_Realm i) of
            None \<Rightarrow> Map.empty
          | Some rc \<Rightarrow>
              (case bp_GetDevice B (rc_id rc) (id_DeviceID i) of
                 Inl e \<Rightarrow> Map.empty
               | Inr dev \<Rightarrow> loadOwnership B (rc_id rc) (d_Introspection dev))))"

definition offlineOwnershipOf ::
  "brokerPorts \<Rightarrow> int \<Rightarrow> string \<Rightarrow> string \<Rightarrow> brokerState \<Rightarrow> Ownership option \<times> brokerState" where
  "offlineOwnershipOf B now cn iface st =
    (case bs_offline st cn of
       Some e \<Rightarrow>
         (if now - oe_loadedAt e < offlineACLCacheTTL then (oe_ownership e iface, st)
          else (let own = offlineLoad B st cn
                in (own iface, st\<lparr>bs_offline := (bs_offline st)(cn \<mapsto> \<lparr>oe_ownership = own, oe_loadedAt = now\<rparr>)\<rparr>)))
     | None \<Rightarrow>
         (let own = offlineLoad B st cn
          in (own iface, st\<lparr>bs_offline := (bs_offline st)(cn \<mapsto> \<lparr>oe_ownership = own, oe_loadedAt = now\<rparr>)\<rparr>)))"

text \<open>The interface whose ownership checkACL asks for, if it asks at all: the callbacks of the hook
  change state, so the hook needs to know whether and how the callback runs.\<close>

definition aclQuery :: "string \<Rightarrow> string \<Rightarrow> bool \<Rightarrow> string option" where
  "aclQuery base topic isWrite =
    (if topic = [] \<or> length topic > maxTopicBytes then None
     else if isWrite then
       (if topic = base then None
        else (case CutPrefix topic (base @ ''/'') of
            None \<Rightarrow> None
          | Some rest \<Rightarrow>
              (if rest = ''capabilities'' \<or> rest = ''control/emptyCache'' \<or> rest = ''control/producer/properties''
               then None
               else (case Cut rest (CHR ''/'') of (iface, path, found) \<Rightarrow>
                 if \<not> found \<or> path = [] then None else Some iface))))
     else
       (case CutPrefix topic (base @ ''/'') of
           None \<Rightarrow> None
         | Some rest \<Rightarrow>
             (if ContainsAny topic ''+#'' then None
              else if rest = ''control/consumer/properties'' then None
              else (case Cut rest (CHR ''/'') of (iface, _, _) \<Rightarrow> Some iface))))"

definition sessionOwnership ::
  "brokerPorts \<Rightarrow> int \<Rightarrow> deviceSession \<Rightarrow> string \<Rightarrow> Ownership option \<times> deviceSession" where
  "sessionOwnership B now s iface =
    (case ds_ownership s iface of
       Some own \<Rightarrow> (Some own, s)
     | None \<Rightarrow> (let s1 = refreshIfStale B now s in (ds_ownership s1 iface, s1)))"

definition OnACLCheck ::
  "brokerPorts \<Rightarrow> int \<Rightarrow> Client \<Rightarrow> string \<Rightarrow> bool \<Rightarrow> brokerState \<Rightarrow> bool \<times> brokerState" where
  "OnACLCheck B now cl topic isWrite st =
    (if cl_Inline cl then (True, st)
     else case (case bs_sessions st (cl_ID cl) of
                  Some s \<Rightarrow> if ds_client s = cl_ptr cl then Some s else None
                | None \<Rightarrow> None) of
       Some s \<Rightarrow>
         (checkACL (BaseTopic (ds_identity s)) topic isWrite (\<lambda>iface. fst (sessionOwnership B now s iface)),
          case aclQuery (BaseTopic (ds_identity s)) topic isWrite of
            None \<Rightarrow> st
          | Some iface \<Rightarrow> st\<lparr>bs_sessions := (bs_sessions st)(cl_ID cl \<mapsto> snd (sessionOwnership B now s iface))\<rparr>)
     | None \<Rightarrow>
         (if isWrite then (False, st)
          else (checkACL (cl_ID cl) topic isWrite (\<lambda>iface. fst (offlineOwnershipOf B now (cl_ID cl) iface st)),
                case aclQuery (cl_ID cl) topic isWrite of
                  None \<Rightarrow> st
                | Some iface \<Rightarrow> snd (offlineOwnershipOf B now (cl_ID cl) iface st))))"

section \<open>Lifecycle, intake and the broker operations\<close>

datatype LifecycleEventType = EventDeviceConnected | EventDeviceDisconnected

record LifecycleEvent =
  le_Type :: LifecycleEventType
  le_Realm :: string
  le_DeviceID :: ID
  le_RemoteIP :: Addr
  le_At :: int

text \<open>What a lifecycle hook does outside the broker: at most one store call and one event.\<close>

datatype lifecycleOutput =
    StoreConnected int ID int Addr
  | StoreDisconnected int ID int
  | SinkEvent LifecycleEvent

definition OnSessionEstablished :: "bool \<Rightarrow> int \<Rightarrow> Client \<Rightarrow> brokerState \<Rightarrow> lifecycleOutput list" where
  "OnSessionEstablished hasSink at cl st =
    (case bs_sessions st (cl_ID cl) of
       None \<Rightarrow> []
     | Some s \<Rightarrow>
         (if ds_client s \<noteq> cl_ptr cl then []
          else StoreConnected (ds_realmID s) (id_DeviceID (ds_identity s)) at (ds_remote s) #
            (if hasSink then [SinkEvent \<lparr>le_Type = EventDeviceConnected, le_Realm = id_Realm (ds_identity s),
               le_DeviceID = id_DeviceID (ds_identity s), le_RemoteIP = ds_remote s, le_At = at\<rparr>] else [])))"

definition OnDisconnect :: "bool \<Rightarrow> int \<Rightarrow> Client \<Rightarrow> brokerState \<Rightarrow> lifecycleOutput list \<times> brokerState" where
  "OnDisconnect hasSink at cl st =
    (if cl_TakenOver cl then ([], st)
     else (case removeIfOwner (cl_ID cl) cl st of
         (None, st1) \<Rightarrow> ([], st1)
       | (Some s, st1) \<Rightarrow>
           (StoreDisconnected (ds_realmID s) (id_DeviceID (ds_identity s)) at #
             (if hasSink then [SinkEvent \<lparr>le_Type = EventDeviceDisconnected, le_Realm = id_Realm (ds_identity s),
                le_DeviceID = id_DeviceID (ds_identity s), le_RemoteIP = ZeroAddr, le_At = at\<rparr>] else []), st1)))"

record InboundMessage =
  im_Realm :: string
  im_DeviceID :: ID
  im_Topic :: string
  im_Payload :: "byte list"
  im_QoS :: nat
  im_ReceivedAt :: int

datatype publishOutcome = PassThrough | SuccessIgnore | RejectPacket

text \<open>OnPublish up to Submit: what is handed to the intake, if anything, and the outcome when the
  message is acknowledged before the broker closes (acked) or not.\<close>

definition OnPublish ::
  "int \<Rightarrow> Client \<Rightarrow> string \<Rightarrow> byte list \<Rightarrow> nat \<Rightarrow> bool \<Rightarrow> brokerState \<Rightarrow> InboundMessage option \<times> publishOutcome" where
  "OnPublish now cl topic payload qos acked st =
    (if cl_Inline cl then (None, PassThrough)
     else (case bs_sessions st (cl_ID cl) of
         None \<Rightarrow> (None, RejectPacket)
       | Some s \<Rightarrow>
           (if ds_client s \<noteq> cl_ptr cl then (None, RejectPacket)
            else (let msg = \<lparr>im_Realm = id_Realm (ds_identity s), im_DeviceID = id_DeviceID (ds_identity s),
                             im_Topic = topic, im_Payload = payload, im_QoS = qos, im_ReceivedAt = now\<rparr>
                  in if qos = 0 then (Some msg, SuccessIgnore)
                     else if acked then (Some msg, SuccessIgnore)
                     else (Some msg, RejectPacket)))))"

definition RefreshIntrospection ::
  "brokerPorts \<Rightarrow> int \<Rightarrow> string \<Rightarrow> ID \<Rightarrow> brokerState \<Rightarrow> (store_error + unit) \<times> brokerState" where
  "RefreshIntrospection B now realm i st =
    (let cn = CN \<lparr>id_Realm = realm, id_DeviceID = i\<rparr>
     in case bs_sessions st cn of
       None \<Rightarrow> (Inr (), st)
     | Some s \<Rightarrow>
         (case refresh B now s of
            Inl e \<Rightarrow> (Inl e, st)
          | Inr s1 \<Rightarrow> (Inr (), st\<lparr>bs_sessions := (bs_sessions st)(cn \<mapsto> s1)\<rparr>)))"

text \<open>The connection DisconnectDevice closes.\<close>

definition DisconnectDevice :: "string \<Rightarrow> ID \<Rightarrow> brokerState \<Rightarrow> nat option" where
  "DisconnectDevice realm i st =
    map_option ds_client (bs_sessions st (CN \<lparr>id_Realm = realm, id_DeviceID = i\<rparr>))"

section \<open>The publisher\<close>

record injected =
  inj_Qos :: nat
  inj_Retain :: bool
  inj_TopicName :: string
  inj_Payload :: "byte list"
  inj_PacketID :: nat
  inj_MessageExpiryInterval :: nat

text \<open>Publish with a byte-sized qos; expiry is a duration in nanoseconds, kept at its 64-bit width
  because the rounding up to whole seconds adds to it.\<close>

definition expirySeconds :: "int64 \<Rightarrow> nat" where
  "expirySeconds expiry =
    (if 0 < sint expiry then
       (let sum = sint (expiry + 1000000000 - 1);
            secs = (if 0 \<le> sum then sum div 1000000000 else - ((- sum) div 1000000000))
        in if 4294967295 < secs then 4294967295 else nat (secs mod 2 ^ 32))
     else 0)"

definition Publish :: "string \<Rightarrow> byte list \<Rightarrow> nat \<Rightarrow> bool \<Rightarrow> int64 \<Rightarrow> injected" where
  "Publish topic payload qos retain expiry =
    (let q = (if qos > 2 then 2 else qos)
     in \<lparr>inj_Qos = q, inj_Retain = retain, inj_TopicName = topic, inj_Payload = payload,
         inj_PacketID = q, inj_MessageExpiryInterval = expirySeconds expiry\<rparr>)"

section \<open>Laws of the hooks\<close>

text \<open>The ownership callback matters only at the interface the query names.\<close>

lemma checkACL_query:
  "(case aclQuery base topic w of None \<Rightarrow> True | Some iface \<Rightarrow> f iface = g iface) \<Longrightarrow>
    checkACL base topic w f = checkACL base topic w g"
  by (auto simp: checkACL_def aclQuery_def split: if_splits option.splits prod.splits)

lemma loadOwnership_declared: "loadOwnership B r intro n \<noteq> None \<Longrightarrow> intro n \<noteq> None"
  by (auto simp: loadOwnership_def split: option.splits)

text \<open>The registry is keyed by the common names of well-formed identities.\<close>

definition registry_ok :: "brokerState \<Rightarrow> bool" where
  "registry_ok st \<longleftrightarrow> (\<forall>cn s. bs_sessions st cn = Some s \<longrightarrow> identity_ok (ds_identity s) \<and> cn = CN (ds_identity s))"

definition same_session :: "deviceSession \<Rightarrow> deviceSession \<Rightarrow> bool" where
  "same_session s s' \<longleftrightarrow> ds_identity s' = ds_identity s \<and> ds_realmID s' = ds_realmID s \<and>
     ds_client s' = ds_client s \<and> ds_remote s' = ds_remote s"

lemma same_session_refl [simp]: "same_session s s"
  by (simp add: same_session_def)

lemma refresh_same: "refresh B now s = Inr s' \<Longrightarrow> same_session s s'"
  by (auto simp: refresh_def same_session_def split: sum.splits)

lemma refreshIfStale_same: "same_session s (refreshIfStale B now s)"
proof (cases "refresh B now (s\<lparr>ds_lastIntroLoad := now\<rparr>)")
  case (Inl e)
  then show ?thesis by (simp add: refreshIfStale_def same_session_def)
next
  case (Inr s2)
  then have "same_session s s2" using refresh_same [OF Inr] by (simp add: same_session_def)
  with Inr show ?thesis by (simp add: refreshIfStale_def)
qed

lemma sessionOwnership_same: "same_session s (snd (sessionOwnership B now s iface))"
  by (auto simp: sessionOwnership_def Let_def refreshIfStale_same split: option.splits)

text \<open>An ACL check or a refresh keeps every session up to its cached ownership.\<close>

definition keeps_sessions :: "brokerState \<Rightarrow> brokerState \<Rightarrow> bool" where
  "keeps_sessions st st' \<longleftrightarrow> (\<forall>cn. rel_option same_session (bs_sessions st cn) (bs_sessions st' cn))"

lemma keeps_sessions_refl [simp]: "bs_sessions st' = bs_sessions st \<Longrightarrow> keeps_sessions st st'"
  by (simp add: keeps_sessions_def option.rel_refl)

lemma keeps_sessions_update:
  "bs_sessions st cn = Some s \<Longrightarrow> same_session s s' \<Longrightarrow>
    keeps_sessions st (st\<lparr>bs_sessions := (bs_sessions st)(cn \<mapsto> s')\<rparr>)"
  by (simp add: keeps_sessions_def option.rel_refl)

lemma offlineOwnershipOf_keeps: "bs_sessions (snd (offlineOwnershipOf B now cn iface st)) = bs_sessions st"
  by (simp add: offlineOwnershipOf_def Let_def split: option.split)

lemma OnACLCheck_keeps: "keeps_sessions st (snd (OnACLCheck B now cl topic w st))"
  by (auto simp: OnACLCheck_def offlineOwnershipOf_keeps split: option.split
      intro!: keeps_sessions_update sessionOwnership_same)

lemma RefreshIntrospection_keeps: "keeps_sessions st (snd (RefreshIntrospection B now r i st))"
  by (auto simp: RefreshIntrospection_def Let_def split: option.split sum.split
      intro!: keeps_sessions_update dest: refresh_same)

lemma keeps_sessions_registry_ok: "keeps_sessions st st' \<Longrightarrow> registry_ok st \<Longrightarrow> registry_ok st'"
  unfolding keeps_sessions_def registry_ok_def
  by (metis option_rel_Some2 same_session_def)

lemma keeps_sessions_dom:
  "keeps_sessions st st' \<Longrightarrow> bs_sessions st' cn = None \<longleftrightarrow> bs_sessions st cn = None"
  unfolding keeps_sessions_def by (metis option.rel_distinct(1,2) option.exhaust)

text \<open>A granted connection: the session of the device now belongs to the client.\<close>

lemma OnConnectAuthenticate_admits:
  assumes "OnConnectAuthenticate B now cl st = Inr st'"
  obtains i rc dev where "identity_ok i" "Lookup st (id_Realm i) = Some rc"
    "bp_GetDevice B (rc_id rc) (id_DeviceID i) = Inr dev" "d_Status dev \<noteq> DeviceStatusInhibited"
    "st' = admit B now cl i (rc_id rc) dev st"
    "case cl_TLS cl of None \<Rightarrow> cl_ID cl = CN i
      | Some cs \<Rightarrow> \<exists>leaf rest. cs = leaf # rest \<and> x_CommonName leaf = CN i \<and>
          x509Verify (bp_pki B) leaf (rc_pool rc) rest now = None"
proof (cases "cl_TLS cl")
  case None
  then have "\<exists>i rc dev. ParseCN (cl_ID cl) = Inr i \<and> Lookup st (id_Realm i) = Some rc \<and>
      bp_GetDevice B (rc_id rc) (id_DeviceID i) = Inr dev \<and> d_Status dev \<noteq> DeviceStatusInhibited \<and>
      st' = admit B now cl i (rc_id rc) dev st"
    using assms unfolding OnConnectAuthenticate_def
    by (auto split: if_split_asm sum.split_asm option.split_asm)
  with None show thesis using that by (auto simp: ParseCN_iff)
next
  case (Some cs)
  then have "\<exists>leaf rest i rc dev. cs = leaf # rest \<and> ParseCN (x_CommonName leaf) = Inr i \<and>
      Lookup st (id_Realm i) = Some rc \<and> x509Verify (bp_pki B) leaf (rc_pool rc) rest now = None \<and>
      bp_GetDevice B (rc_id rc) (id_DeviceID i) = Inr dev \<and> d_Status dev \<noteq> DeviceStatusInhibited \<and>
      st' = admit B now cl i (rc_id rc) dev st"
    using assms unfolding OnConnectAuthenticate_def intermediatePool_def
    by (auto split: if_split_asm sum.split_asm option.split_asm list.split_asm)
  with Some show thesis using that by (auto simp: ParseCN_iff)
qed

lemma admit_sessions [simp]:
  "bs_sessions (admit B now cl i r dev st) cn =
    (if cn = CN i then Some \<lparr>ds_identity = i, ds_realmID = r, ds_client = cl_ptr cl,
       ds_remote = remoteAddr B (cl_Remote cl), ds_ownership = loadOwnership B r (d_Introspection dev),
       ds_lastIntroLoad = now\<rparr> else bs_sessions st cn)"
  by (simp add: admit_def put_def)

lemma buildPools_other:
  "name \<notin> r_Name ` set rs \<Longrightarrow> buildPools B rs m name = m name"
proof (induction rs arbitrary: m)
  case (Cons r rs)
  then show ?case by (cases "ParseCertificatePEM (bp_pki B) (r_CACertificatePEM r)") auto
qed simp

lemma buildPools_find:
  assumes "distinct (map r_Name rs)" "find (\<lambda>r. r_Name r = name) rs = Some realm"
    and "ParseCertificatePEM (bp_pki B) (r_CACertificatePEM realm) = Inr cert"
  shows "buildPools B rs m name = Some \<lparr>rc_id = r_ID realm, rc_name = name, rc_cert = cert, rc_pool = [cert]\<rparr>"
  using assms(1,2)
proof (induction rs arbitrary: m)
  case (Cons r rs)
  show ?case
  proof (cases "r_Name r = name")
    case True
    with Cons have "realm = r" "name \<notin> r_Name ` set rs" by auto
    with True assms(3) show ?thesis by (simp add: buildPools_other)
  next
    case False
    with Cons show ?thesis by (cases "ParseCertificatePEM (bp_pki B) (r_CACertificatePEM r)") auto
  qed
qed simp

section \<open>Runs of the broker\<close>

text \<open>The states the hooks can reach and the events the sink has received, in any interleaving of the
  hooks of any clients, with a store and a clock that may answer differently each time.\<close>

inductive reach :: "brokerState \<Rightarrow> lifecycleOutput list \<Rightarrow> bool" where
  start: "bs_sessions st = Map.empty \<Longrightarrow> reach st []"
| connect: "reach st log \<Longrightarrow> OnConnectAuthenticate B now cl st = Inr st' \<Longrightarrow> reach st' log"
| established: "reach st log \<Longrightarrow> reach st (log @ OnSessionEstablished True at cl st)"
| disconnect: "reach st log \<Longrightarrow> OnDisconnect True at cl st = (out, st') \<Longrightarrow> reach st' (log @ out)"
| acl: "reach st log \<Longrightarrow> reach (snd (OnACLCheck B now cl topic w st)) log"
| intro_refresh: "reach st log \<Longrightarrow> reach (snd (RefreshIntrospection B now r i st)) log"
| reload: "reach st log \<Longrightarrow> Reload B st = Inr st' \<Longrightarrow> reach st' log"

lemma OnDisconnect_cases:
  assumes "OnDisconnect True at cl st = (out, st')"
  obtains "out = []" "bs_sessions st' = bs_sessions st"
  | s where "bs_sessions st (cl_ID cl) = Some s" "ds_client s = cl_ptr cl"
      "bs_sessions st' = (bs_sessions st)(cl_ID cl := None)"
      "out = [StoreDisconnected (ds_realmID s) (id_DeviceID (ds_identity s)) at,
        SinkEvent \<lparr>le_Type = EventDeviceDisconnected, le_Realm = id_Realm (ds_identity s),
          le_DeviceID = id_DeviceID (ds_identity s), le_RemoteIP = ZeroAddr, le_At = at\<rparr>]"
proof (cases "cl_TakenOver cl")
  case True
  then show ?thesis using assms that(1) by (simp add: OnDisconnect_def)
next
  case notTaken: False
  show ?thesis
  proof (cases "bs_sessions st (cl_ID cl)")
    case None
    then show ?thesis using assms that(1) notTaken by (simp add: OnDisconnect_def removeIfOwner_def)
  next
    case (Some s)
    show ?thesis
    proof (cases "ds_client s = cl_ptr cl")
      case True
      from True Some notTaken assms show ?thesis
        by (intro that(2) [of s]) (auto simp: OnDisconnect_def removeIfOwner_def)
    next
      case False
      with Some notTaken assms show ?thesis
        by (intro that(1)) (simp_all add: OnDisconnect_def removeIfOwner_def)
    qed
  qed
qed

lemma OnSessionEstablished_cases:
  obtains "OnSessionEstablished True at cl st = []"
  | s where "bs_sessions st (cl_ID cl) = Some s"
      "OnSessionEstablished True at cl st =
        [StoreConnected (ds_realmID s) (id_DeviceID (ds_identity s)) at (ds_remote s),
         SinkEvent \<lparr>le_Type = EventDeviceConnected, le_Realm = id_Realm (ds_identity s),
           le_DeviceID = id_DeviceID (ds_identity s), le_RemoteIP = ds_remote s, le_At = at\<rparr>]"
proof (cases "bs_sessions st (cl_ID cl)")
  case None
  then show ?thesis using that(1) by (simp add: OnSessionEstablished_def)
next
  case (Some s)
  then show ?thesis using that(1) that(2) [of s]
    by (cases "ds_client s = cl_ptr cl") (simp_all add: OnSessionEstablished_def)
qed

lemma reach_registry_ok: "reach st log \<Longrightarrow> registry_ok st"
proof (induction rule: reach.induct)
  case (connect st log B now cl st')
  from connect(2) show ?case
    by (rule OnConnectAuthenticate_admits) (use connect(3) in \<open>auto simp: registry_ok_def\<close>)
next
  case (disconnect st log at cl out st')
  from disconnect(2) show ?case
    by (rule OnDisconnect_cases) (use disconnect(3) in \<open>auto simp: registry_ok_def split: if_splits\<close>)
next
  case (acl st log B now cl topic w)
  then show ?case using OnACLCheck_keeps keeps_sessions_registry_ok by blast
next
  case (intro_refresh st log B now r i)
  then show ?case using RefreshIntrospection_keeps keeps_sessions_registry_ok by blast
next
  case (reload st log B st')
  then show ?case by (auto simp: registry_ok_def Reload_def split: sum.splits)
qed (auto simp: registry_ok_def)

text \<open>The type of the last event the sink received for a device.\<close>

fun eventType :: "Identity \<Rightarrow> lifecycleOutput \<Rightarrow> LifecycleEventType option" where
  "eventType i (SinkEvent e) =
     (if le_Realm e = id_Realm i \<and> le_DeviceID e = id_DeviceID i then Some (le_Type e) else None)"
| "eventType i _ = None"

fun lastEvent :: "Identity \<Rightarrow> lifecycleOutput list \<Rightarrow> LifecycleEventType option" where
  "lastEvent i [] = None"
| "lastEvent i (e # es) = (case lastEvent i es of None \<Rightarrow> eventType i e | Some t \<Rightarrow> Some t)"

lemma lastEvent_append:
  "lastEvent i (log @ out) = (case lastEvent i out of None \<Rightarrow> lastEvent i log | Some e \<Rightarrow> Some e)"
  by (induction log) (auto split: option.split)

lemma reach_presence:
  "reach st log \<Longrightarrow> identity_ok i \<Longrightarrow> lastEvent i log = Some EventDeviceConnected \<Longrightarrow> bs_sessions st (CN i) \<noteq> None"
proof (induction rule: reach.induct)
  case (connect st log B now cl st')
  from connect(2) show ?case
    by (rule OnConnectAuthenticate_admits) (use connect in auto)
next
  case (established st log at cl)
  show ?case
  proof (rule OnSessionEstablished_cases [of at cl st])
    assume "OnSessionEstablished True at cl st = []"
    with established show ?thesis by simp
  next
    fix s assume s: "bs_sessions st (cl_ID cl) = Some s" "OnSessionEstablished True at cl st =
        [StoreConnected (ds_realmID s) (id_DeviceID (ds_identity s)) at (ds_remote s),
         SinkEvent \<lparr>le_Type = EventDeviceConnected, le_Realm = id_Realm (ds_identity s),
           le_DeviceID = id_DeviceID (ds_identity s), le_RemoteIP = ds_remote s, le_At = at\<rparr>]"
    then have cn: "cl_ID cl = CN (ds_identity s)"
      using reach_registry_ok [OF established(1)] by (simp add: registry_ok_def)
    show ?thesis
    proof (cases "ds_identity s = i")
      case True
      with s cn show ?thesis by simp
    next
      case False
      then have "\<not> (id_Realm (ds_identity s) = id_Realm i \<and> id_DeviceID (ds_identity s) = id_DeviceID i)"
        by (metis Identity.equality old.unit.exhaust)
      with established s show ?thesis by (auto simp: lastEvent_append)
    qed
  qed
next
  case (disconnect st log at cl out st')
  have ok: "registry_ok st" using disconnect(1) by (rule reach_registry_ok)
  from disconnect(2) show ?case
  proof (rule OnDisconnect_cases)
    assume "out = []" "bs_sessions st' = bs_sessions st"
    with disconnect show ?thesis by simp
  next
    fix s assume s: "bs_sessions st (cl_ID cl) = Some s" "bs_sessions st' = (bs_sessions st)(cl_ID cl := None)"
      "out = [StoreDisconnected (ds_realmID s) (id_DeviceID (ds_identity s)) at,
        SinkEvent \<lparr>le_Type = EventDeviceDisconnected, le_Realm = id_Realm (ds_identity s),
          le_DeviceID = id_DeviceID (ds_identity s), le_RemoteIP = ZeroAddr, le_At = at\<rparr>]"
    with ok have cn: "cl_ID cl = CN (ds_identity s)" "identity_ok (ds_identity s)" by (auto simp: registry_ok_def)
    show ?thesis
    proof (cases "ds_identity s = i")
      case True
      with s disconnect(5) show ?thesis by (simp add: lastEvent_append)
    next
      case False
      then have "CN i \<noteq> cl_ID cl" using cn disconnect(4) CN_inject by metis
      moreover have "\<not> (id_Realm (ds_identity s) = id_Realm i \<and> id_DeviceID (ds_identity s) = id_DeviceID i)"
        using False by (metis Identity.equality old.unit.exhaust)
      ultimately show ?thesis using disconnect s by (auto simp: lastEvent_append)
    qed
  qed
next
  case (acl st log B now cl topic w)
  then show ?case using keeps_sessions_dom [OF OnACLCheck_keeps] by metis
next
  case (intro_refresh st log B now r i)
  then show ?case using keeps_sessions_dom [OF RefreshIntrospection_keeps] by metis
next
  case (reload st log B st')
  then show ?case by (auto simp: Reload_def split: sum.splits)
qed simp

lemma checkACL_accepted:
  assumes "identity_ok i" "checkACL (BaseTopic i) topic True own"
  shows "splitDeviceTopic topic (id_Realm i) (id_DeviceID i) \<noteq> None"
proof -
  have ok: "id_ok (id_DeviceID i)" using assms(1) by (simp add: identity_ok_def)
  from assms(2) show ?thesis
  proof (cases rule: checkACL_subtree)
    case root
    then have "splitDeviceTopic topic (id_Realm i) (id_DeviceID i) = Some []"
      by (simp add: splitDeviceTopic_iff [OF ok] BaseTopic_def CN_def)
    then show ?thesis by simp
  next
    case (below r)
    then have "splitDeviceTopic topic (id_Realm i) (id_DeviceID i) = Some r"
      by (simp add: splitDeviceTopic_iff [OF ok] BaseTopic_def CN_def)
    then show ?thesis by simp
  qed
qed

section \<open>Expiry of published messages\<close>

lemma expirySeconds_ceiling:
  assumes "0 < sint expiry" "sint expiry \<le> 2 ^ 63 - 1000000000"
  shows "int (expirySeconds expiry) = min ((sint expiry + 999999999) div 1000000000) (2 ^ 32 - 1)"
proof -
  have "sint (expiry + 999999999) = sint expiry + 999999999"
  proof -
    have "sint (999999999 :: int64) = 999999999" by simp
    moreover have "sint (expiry + 999999999) = signed_take_bit 63 (sint expiry + sint (999999999 :: int64))"
      using sint_word_ariths(1) [of expiry 999999999] by simp
    ultimately show ?thesis using assms by (simp add: signed_take_bit_int_eq_self_iff)
  qed
  then have s: "sint (expiry + 1000000000 - 1) = sint expiry + 999999999" by (simp add: algebra_simps)
  have "0 \<le> (sint expiry + 999999999) div 1000000000" using assms(1) by simp
  then show ?thesis using assms(1) unfolding expirySeconds_def s
    by (simp add: Let_def min_def)
qed

section \<open>Properties\<close>


definition sampleBroker :: brokerPorts where
  "sampleBroker = \<lparr>bp_ListRealms = Inr [sampleRealm],
     bp_GetDevice = (\<lambda>r i. GetDevice None r i [((1, replicate 16 0x2a), insertedDevice 0 1 (replicate 16 0x2a) ''h'')]),
     bp_GetInterface = (\<lambda>r n v. Inl ErrNotFound), bp_pki = samplePki, bp_ParseAddrPort = (\<lambda>s. None),
     bp_enforceLatestCert = True, bp_devListenerID = ''dev''\<rparr>"

definition sampleState :: brokerState where
  "sampleState = \<lparr>bs_pools = [''test'' \<mapsto> \<lparr>rc_id = 1, rc_name = ''test'', rc_cert = sampleCACert, rc_pool = [sampleCACert]\<rparr>],
     bs_sessions = Map.empty, bs_offline = Map.empty\<rparr>"

definition sampleClient :: Client where
  "sampleClient = \<lparr>cl_ptr = 1, cl_ID = CN sampleDevice, cl_Inline = False, cl_Listener = ''dev'',
     cl_Remote = ''pipe'', cl_TLS = None, cl_TakenOver = False\<rparr>"

lemma sampleDevice_ok: "identity_ok sampleDevice"
  by code_simp

lemma sampleConnect:
  "\<exists>s. OnConnectAuthenticate sampleBroker 0 sampleClient sampleState =
      Inr (sampleState\<lparr>bs_sessions := [CN sampleDevice \<mapsto> s]\<rparr>) \<and> ds_client s = 1 \<and> ds_identity s = sampleDevice"
proof -
  let ?d = "insertedDevice 0 1 (replicate 16 0x2a) ''h''"
  let ?s = "\<lparr>ds_identity = sampleDevice, ds_realmID = 1, ds_client = 1, ds_remote = remoteAddr sampleBroker ''pipe'',
    ds_ownership = loadOwnership sampleBroker 1 (d_Introspection ?d), ds_lastIntroLoad = 0\<rparr>"
  have p: "ParseCN (CN sampleDevice) = Inr sampleDevice" by (simp add: ParseCN_iff sampleDevice_ok)
  have l: "Lookup sampleState (id_Realm sampleDevice) =
      Some \<lparr>rc_id = 1, rc_name = ''test'', rc_cert = sampleCACert, rc_pool = [sampleCACert]\<rparr>"
    by (simp add: Lookup_def sampleState_def sampleDevice_def)
  have g: "bp_GetDevice sampleBroker 1 (id_DeviceID sampleDevice) = Inr ?d"
    by (simp add: sampleBroker_def sampleDevice_def GetDevice_def)
  have st: "d_Status ?d \<noteq> DeviceStatusInhibited" by (simp add: insertedDevice_def DeviceStatusInhibited_def)
  have c: "cl_TLS sampleClient = None" "cl_Listener sampleClient = ''dev''" "cl_ID sampleClient = CN sampleDevice"
    "bp_devListenerID sampleBroker = ''dev''" "cl_ptr sampleClient = 1" "cl_Remote sampleClient = ''pipe''"
    "bs_sessions sampleState = Map.empty"
    by (simp_all add: sampleClient_def sampleBroker_def sampleState_def)
  have "OnConnectAuthenticate sampleBroker 0 sampleClient sampleState =
      Inr (sampleState\<lparr>bs_sessions := [CN sampleDevice \<mapsto> ?s]\<rparr>)"
    by (simp add: OnConnectAuthenticate_def c p l g st admit_def put_def)
  then show ?thesis by (intro exI [of _ ?s]) simp
qed




text \<open>The expiry the publisher puts on a message is the duration rounded up to whole seconds and
  capped at 2^32 - 1, for every duration up to 2^63 - 10^9 nanoseconds.\<close>

theorem publish_expiry_rounds_up:
  assumes "0 < sint expiry" "sint expiry \<le> 2 ^ 63 - 1000000000"
  shows "int (inj_MessageExpiryInterval (Publish topic payload qos retain expiry)) =
    min ((sint expiry + 999999999) div 1000000000) (2 ^ 32 - 1) \<and>
    inj_Qos (Publish topic payload qos retain expiry) = min qos 2"
  using expirySeconds_ceiling [OF assms] by (simp add: Publish_def Let_def min_def)

theorem publish_expiry_rounds_up_witness:
  "inj_MessageExpiryInterval (Publish ''t'' [] 1 False 1500000000) = 2"
  using publish_expiry_rounds_up [of 1500000000 "''t''" "[]" 1 False] by simp

end
