(* ===== verification/Broker_Store.thy ===== *)
theory Broker_Store
  imports Go_Prelude "HOL-Library.List_Lexorder" "HOL-Library.Char_ord" "HOL-Library.Multiset" "HOL-Library.AList"
begin

text \<open>
  Model of internal/broker/sessionstore.go: the hook that keeps client sessions,
  subscriptions, the queue of unacknowledged messages and retained messages across broker
  restarts.  The embedded database is a record of bucket operations, an argument of every
  definition; bolt_laws states what the code relies on of it.  A stored value is the record
  that was encoded, or Corrupt for bytes that do not decode.  Every hook takes whether its
  database transaction fails; a failed transaction changes nothing.  A restore hook that fails
  returns its error; the partly filled slice Go returns beside it is not modelled.
\<close>

section \<open>Packets and records\<close>

record FixedHeader =
  fh_Type :: nat
  fh_Qos :: nat
  fh_Retain :: bool
  fh_Dup :: bool

record MessageProperties =
  mp_PayloadFormat :: nat
  mp_PayloadFormatFlag :: bool
  mp_MessageExpiryInterval :: nat
  mp_ContentType :: string
  mp_ResponseTopic :: string
  mp_CorrelationData :: "byte list"
  mp_User :: "(string \<times> string) list"

record Filter =
  ft_Filter :: string
  ft_Identifier :: nat
  ft_RetainHandling :: nat
  ft_RetainAsPublished :: bool
  ft_NoLocal :: bool

record wirePacket =
  wp_Origin :: string
  wp_TopicName :: string
  wp_Payload :: "byte list"
  wp_Created :: int
  wp_PacketID :: "16 word"
  wp_FixedHeader :: FixedHeader
  wp_Properties :: MessageProperties
  wp_Filters :: "Filter list"
  wp_Expiry :: int
  wp_ProtocolVersion :: nat

record Message =
  msg_T :: string
  msg_Client :: string
  msg_Origin :: string
  msg_TopicName :: string
  msg_Payload :: "byte list"
  msg_Created :: int
  msg_PacketID :: "16 word"
  msg_FixedHeader :: FixedHeader
  msg_Properties :: MessageProperties

record storedMessage =
  sm_Message :: Message
  sm_Expiry :: int
  sm_ProtocolVersion :: nat
  sm_Seq :: nat

record sessionClient =
  sc_ID :: string
  sc_Remote :: string
  sc_Listener :: string
  sc_Username :: "byte list"
  sc_Clean :: bool
  sc_ProtocolVersion :: nat
  sc_SessionExpiryInterval :: nat
  sc_SessionExpiryIntervalFlag :: bool
  sc_ReceiveMaximum :: nat
  sc_TopicAliasMaximum :: nat
  sc_MaximumPacketSize :: nat

record Subscription =
  sub_Client :: string
  sub_Filter :: string
  sub_Identifier :: nat
  sub_Qos :: nat
  sub_RetainHandling :: nat
  sub_RetainAsPublished :: bool
  sub_NoLocal :: bool

datatype stored =
    RClient sessionClient
  | RSubscription Subscription
  | RMessage storedMessage
  | Corrupt

section \<open>The database\<close>

record 'b bolt =
  bGet :: "'b \<Rightarrow> string \<Rightarrow> stored option"
  bPut :: "'b \<Rightarrow> string \<Rightarrow> stored \<Rightarrow> 'b"
  bDelete :: "'b \<Rightarrow> string \<Rightarrow> 'b"
  bItems :: "'b \<Rightarrow> (string \<times> stored) list"
  bSequence :: "'b \<Rightarrow> nat"
  bNextSequence :: "'b \<Rightarrow> nat \<times> 'b"

text \<open>A bucket is a finite map from keys to values that a cursor visits in key order, with a
  counter that NextSequence increments.\<close>

definition bolt_laws :: "'b bolt \<Rightarrow> bool" where
  "bolt_laws D \<longleftrightarrow>
    (\<forall>b k v. bGet D (bPut D b k v) = (bGet D b)(k \<mapsto> v)) \<and>
    (\<forall>b k. bGet D (bDelete D b k) = (bGet D b)(k := None)) \<and>
    (\<forall>b. map_of (bItems D b) = bGet D b \<and> distinct (map fst (bItems D b)) \<and> sorted (map fst (bItems D b))) \<and>
    (\<forall>b k v. bSequence D (bPut D b k v) = bSequence D b) \<and>
    (\<forall>b k. bSequence D (bDelete D b k) = bSequence D b) \<and>
    (\<forall>b. fst (bNextSequence D b) = Suc (bSequence D b) \<and>
         bSequence D (snd (bNextSequence D b)) = Suc (bSequence D b) \<and>
         bGet D (snd (bNextSequence D b)) = bGet D b)"

record 'b sessionStore =
  ss_clients :: 'b
  ss_subscriptions :: 'b
  ss_inflight :: 'b
  ss_retained :: 'b

section \<open>Keys and records\<close>

definition keySep :: char where "keySep = CHR 0x00"

definition compositeKey :: "string \<Rightarrow> string \<Rightarrow> string" where
  "compositeKey clientID sfx = clientID @ [keySep] @ sfx"

definition inflightKey :: "string \<Rightarrow> 16 word \<Rightarrow> string" where
  "inflightKey clientID packetID =
    compositeKey clientID [char_of (unat packetID div 256), char_of (unat packetID mod 256)]"

definition ClientKey :: string where "ClientKey = ''CL''"
definition SubscriptionKey :: string where "SubscriptionKey = ''SUB''"
definition InflightKey :: string where "InflightKey = ''IFM''"
definition RetainedKey :: string where "RetainedKey = ''RET''"

definition messageRecord :: "wirePacket \<Rightarrow> string \<Rightarrow> string \<Rightarrow> nat \<Rightarrow> storedMessage" where
  "messageRecord pk clientID kind seq =
    \<lparr>sm_Message =
       \<lparr>msg_T = kind, msg_Client = clientID, msg_Origin = wp_Origin pk, msg_TopicName = wp_TopicName pk,
        msg_Payload = wp_Payload pk, msg_Created = wp_Created pk, msg_PacketID = wp_PacketID pk,
        msg_FixedHeader = wp_FixedHeader pk, msg_Properties = wp_Properties pk\<rparr>,
     sm_Expiry = wp_Expiry pk, sm_ProtocolVersion = wp_ProtocolVersion pk, sm_Seq = seq\<rparr>"

section \<open>Write-side hooks\<close>

text \<open>put and delete; None is a closed database.\<close>

definition putRecord :: "'b bolt \<Rightarrow> bool \<Rightarrow> string \<Rightarrow> stored \<Rightarrow> 'b \<Rightarrow> 'b" where
  "putRecord D fails key v b = (if fails then b else bPut D b key v)"

definition deleteRecord :: "'b bolt \<Rightarrow> bool \<Rightarrow> string \<Rightarrow> 'b \<Rightarrow> 'b" where
  "deleteRecord D fails key b = (if fails then b else bDelete D b key)"

text \<open>Removing all the keys with a prefix, as the cursor loops do.\<close>

definition deletePrefix :: "'b bolt \<Rightarrow> string \<Rightarrow> 'b \<Rightarrow> 'b" where
  "deletePrefix D pfx b =
    fold (\<lambda>k b. bDelete D b k) (filter (\<lambda>k. HasPrefix k pfx) (map fst (bItems D b))) b"

definition dropClient :: "'b bolt \<Rightarrow> bool \<Rightarrow> string \<Rightarrow> 'b sessionStore option \<Rightarrow> 'b sessionStore option" where
  "dropClient D fails clientID st =
    (case st of
       None \<Rightarrow> None
     | Some s \<Rightarrow>
         (if fails then st
          else (let pfx = compositeKey clientID []
                in Some (s\<lparr>ss_clients := bDelete D (ss_clients s) clientID,
                           ss_subscriptions := deletePrefix D pfx (ss_subscriptions s),
                           ss_inflight := deletePrefix D pfx (ss_inflight s)\<rparr>))))"

definition storeSessionEstablished ::
  "'b bolt \<Rightarrow> bool \<Rightarrow> sessionClient \<Rightarrow> 'b sessionStore option \<Rightarrow> 'b sessionStore option" where
  "storeSessionEstablished D fails cl st =
    map_option (\<lambda>s. s\<lparr>ss_clients := putRecord D fails (sc_ID cl) (RClient cl) (ss_clients s)\<rparr>) st"

definition storeDisconnect ::
  "'b bolt \<Rightarrow> bool \<Rightarrow> string \<Rightarrow> bool \<Rightarrow> bool \<Rightarrow> 'b sessionStore option \<Rightarrow> 'b sessionStore option" where
  "storeDisconnect D fails clientID takenOver expire st =
    (if \<not> expire \<or> takenOver then st else dropClient D fails clientID st)"

definition storeClientExpired ::
  "'b bolt \<Rightarrow> bool \<Rightarrow> string \<Rightarrow> 'b sessionStore option \<Rightarrow> 'b sessionStore option" where
  "storeClientExpired D fails clientID st = dropClient D fails clientID st"

definition ErrUnspecifiedErrorCode :: nat where "ErrUnspecifiedErrorCode = 0x80"

fun subscribedLoop :: "'b bolt \<Rightarrow> bool \<Rightarrow> string \<Rightarrow> Filter list \<Rightarrow> nat list \<Rightarrow> 'b \<Rightarrow> 'b" where
  "subscribedLoop D fails clientID (f # fs) (code # codes) b =
     subscribedLoop D fails clientID fs codes
       (if code \<ge> ErrUnspecifiedErrorCode then b
        else putRecord D fails (compositeKey clientID (ft_Filter f))
          (RSubscription \<lparr>sub_Client = clientID, sub_Filter = ft_Filter f, sub_Identifier = ft_Identifier f,
             sub_Qos = code, sub_RetainHandling = ft_RetainHandling f,
             sub_RetainAsPublished = ft_RetainAsPublished f, sub_NoLocal = ft_NoLocal f\<rparr>) b)"
| "subscribedLoop D fails clientID _ _ b = b"

definition OnSubscribed ::
  "'b bolt \<Rightarrow> bool \<Rightarrow> string \<Rightarrow> wirePacket \<Rightarrow> nat list \<Rightarrow> 'b sessionStore option \<Rightarrow> 'b sessionStore option" where
  "OnSubscribed D fails clientID pk codes st =
    map_option (\<lambda>s. s\<lparr>ss_subscriptions :=
      subscribedLoop D fails clientID (wp_Filters pk) codes (ss_subscriptions s)\<rparr>) st"

definition OnUnsubscribed ::
  "'b bolt \<Rightarrow> bool \<Rightarrow> string \<Rightarrow> wirePacket \<Rightarrow> 'b sessionStore option \<Rightarrow> 'b sessionStore option" where
  "OnUnsubscribed D fails clientID pk st =
    map_option (\<lambda>s. s\<lparr>ss_subscriptions :=
      fold (\<lambda>f. deleteRecord D fails (compositeKey clientID (ft_Filter f))) (wp_Filters pk) (ss_subscriptions s)\<rparr>) st"

definition OnRetainMessage ::
  "'b bolt \<Rightarrow> bool \<Rightarrow> wirePacket \<Rightarrow> int \<Rightarrow> 'b sessionStore option \<Rightarrow> 'b sessionStore option" where
  "OnRetainMessage D fails pk r st =
    map_option (\<lambda>s. s\<lparr>ss_retained :=
      (if r = -1 then deleteRecord D fails (wp_TopicName pk) (ss_retained s)
       else putRecord D fails (wp_TopicName pk) (RMessage (messageRecord pk [] RetainedKey 0)) (ss_retained s))\<rparr>) st"

definition OnRetainedExpired ::
  "'b bolt \<Rightarrow> bool \<Rightarrow> string \<Rightarrow> 'b sessionStore option \<Rightarrow> 'b sessionStore option" where
  "OnRetainedExpired D fails filter' st =
    map_option (\<lambda>s. s\<lparr>ss_retained := deleteRecord D fails filter' (ss_retained s)\<rparr>) st"

text \<open>The body of the OnQosPublish transaction: a resend keeps the sequence number of the record it
  replaces, a new message takes the next one.\<close>

definition queueMessage :: "'b bolt \<Rightarrow> string \<Rightarrow> wirePacket \<Rightarrow> 'b \<Rightarrow> 'b" where
  "queueMessage D clientID pk b =
    (let key = inflightKey clientID (wp_PacketID pk);
         seq0 = (case bGet D b key of Some (RMessage old) \<Rightarrow> sm_Seq old | _ \<Rightarrow> 0);
         (seq, b1) = (if seq0 = 0 then bNextSequence D b else (seq0, b))
     in bPut D b1 key (RMessage (messageRecord pk clientID InflightKey seq)))"

definition OnQosPublish ::
  "'b bolt \<Rightarrow> bool \<Rightarrow> string \<Rightarrow> wirePacket \<Rightarrow> 'b sessionStore option \<Rightarrow> 'b sessionStore option" where
  "OnQosPublish D fails clientID pk st =
    map_option (\<lambda>s. if fails then s else s\<lparr>ss_inflight := queueMessage D clientID pk (ss_inflight s)\<rparr>) st"

definition OnQosComplete ::
  "'b bolt \<Rightarrow> bool \<Rightarrow> string \<Rightarrow> 16 word \<Rightarrow> 'b sessionStore option \<Rightarrow> 'b sessionStore option" where
  "OnQosComplete D fails clientID packetID st =
    map_option (\<lambda>s. s\<lparr>ss_inflight := deleteRecord D fails (inflightKey clientID packetID) (ss_inflight s)\<rparr>) st"

definition OnQosDropped ::
  "'b bolt \<Rightarrow> bool \<Rightarrow> string \<Rightarrow> 16 word \<Rightarrow> 'b sessionStore option \<Rightarrow> 'b sessionStore option" where
  "OnQosDropped D fails clientID packetID st =
    map_option (\<lambda>s. s\<lparr>ss_inflight := deleteRecord D fails (inflightKey clientID packetID) (ss_inflight s)\<rparr>) st"

definition expired :: "int \<Rightarrow> storedMessage \<Rightarrow> bool" where
  "expired now r \<longleftrightarrow> sm_Expiry r > 0 \<and> sm_Expiry r \<le> now"

text \<open>OnSessionEstablish prunes the expired messages of a client whose session is about to be
  inherited; it returns the packet identifiers to drop from the inherited queue as well.\<close>

definition OnSessionEstablish ::
  "'b bolt \<Rightarrow> bool \<Rightarrow> int \<Rightarrow> bool \<Rightarrow> string \<Rightarrow> 'b sessionStore option \<Rightarrow> 16 word list \<times> 'b sessionStore option" where
  "OnSessionEstablish D fails now inherits clientID st =
    (case st of
       None \<Rightarrow> ([], None)
     | Some s \<Rightarrow>
         (if \<not> inherits then ([], st)
          else (let hits = [(k, r). (k, RMessage r) \<leftarrow> bItems D (ss_inflight s),
                              HasPrefix k (compositeKey clientID []), expired now r]
                in (map (msg_PacketID \<circ> sm_Message \<circ> snd) hits,
                    if fails then st
                    else Some (s\<lparr>ss_inflight := fold (\<lambda>(k, r) b. bDelete D b k) hits (ss_inflight s)\<rparr>)))))"

section \<open>Restore-side hooks\<close>

datatype restore_error = ErrDBFileNotOpen | ErrDecode | ErrTransaction

fun loadClients :: "stored list \<Rightarrow> restore_error + sessionClient list" where
  "loadClients [] = Inr []"
| "loadClients (RClient c # vs) = bindR (loadClients vs) (\<lambda>cs. Inr (c # cs))"
| "loadClients (_ # vs) = Inl ErrDecode"

definition StoredClients :: "'b bolt \<Rightarrow> 'b sessionStore option \<Rightarrow> restore_error + sessionClient list" where
  "StoredClients D st =
    (case st of None \<Rightarrow> Inl ErrDBFileNotOpen | Some s \<Rightarrow> loadClients (map snd (bItems D (ss_clients s))))"

fun loadSubscriptions :: "stored list \<Rightarrow> restore_error + Subscription list" where
  "loadSubscriptions [] = Inr []"
| "loadSubscriptions (RSubscription c # vs) = bindR (loadSubscriptions vs) (\<lambda>cs. Inr (c # cs))"
| "loadSubscriptions (_ # vs) = Inl ErrDecode"

definition StoredSubscriptions :: "'b bolt \<Rightarrow> 'b sessionStore option \<Rightarrow> restore_error + Subscription list" where
  "StoredSubscriptions D st =
    (case st of None \<Rightarrow> Inl ErrDBFileNotOpen | Some s \<Rightarrow> loadSubscriptions (map snd (bItems D (ss_subscriptions s))))"

text \<open>The loading loop: the live records in key order, and the keys of the expired ones.\<close>

fun loadMessages :: "int \<Rightarrow> (string \<times> stored) list \<Rightarrow> restore_error + storedMessage list \<times> string list" where
  "loadMessages now [] = Inr ([], [])"
| "loadMessages now ((k, RMessage r) # vs) =
     bindR (loadMessages now vs) (\<lambda>(live, dead).
       if expired now r then Inr (live, k # dead) else Inr (r # live, dead))"
| "loadMessages now (_ # vs) = Inl ErrDecode"

text \<open>The insertion sort of normalizeInflightOrder, on the array: swapDown is the inner loop.\<close>

fun swapDown :: "storedMessage list \<Rightarrow> nat \<Rightarrow> storedMessage list" where
  "swapDown grp 0 = grp"
| "swapDown grp (Suc j) =
     (if sm_Seq (grp ! j) > sm_Seq (grp ! Suc j)
      then swapDown (grp[j := grp ! Suc j, Suc j := grp ! j]) j
      else grp)"

definition insertionSort :: "storedMessage list \<Rightarrow> storedMessage list" where
  "insertionSort grp = fold (\<lambda>i g. swapDown g i) [1..<length grp] grp"

text \<open>Created is clamped forward so that it strictly increases; the accumulator is the previous
  value, None before the first message.\<close>

fun clampCreated :: "int option \<Rightarrow> storedMessage list \<Rightarrow> Message list" where
  "clampCreated prev [] = []"
| "clampCreated prev (r # rs) =
     (let m = sm_Message r;
          created = (case prev of
             Some p \<Rightarrow> if msg_Created m \<le> p then p + 1 else msg_Created m
           | None \<Rightarrow> msg_Created m)
      in m\<lparr>msg_Created := created\<rparr> # clampCreated (Some created) rs)"

definition clientOf :: "storedMessage \<Rightarrow> string" where
  "clientOf r = msg_Client (sm_Message r)"

text \<open>The clients in the order of their first record.\<close>

definition clientOrder :: "storedMessage list \<Rightarrow> string list" where
  "clientOrder recs = fold (\<lambda>r cs. if clientOf r \<in> set cs then cs else cs @ [clientOf r]) recs []"

definition normalizeInflightOrder :: "storedMessage list \<Rightarrow> Message list" where
  "normalizeInflightOrder recs =
    (let clients = clientOrder recs
     in concat (map (\<lambda>c. clampCreated None (insertionSort (filter (\<lambda>r. clientOf r = c) recs))) clients))"

definition StoredInflightMessages ::
  "'b bolt \<Rightarrow> bool \<Rightarrow> int \<Rightarrow> 'b sessionStore option \<Rightarrow> (restore_error + Message list) \<times> 'b sessionStore option" where
  "StoredInflightMessages D fails now st =
    (case st of
       None \<Rightarrow> (Inl ErrDBFileNotOpen, None)
     | Some s \<Rightarrow>
         (case loadMessages now (bItems D (ss_inflight s)) of
            Inl e \<Rightarrow> (Inl e, st)
          | Inr (live, dead) \<Rightarrow>
              (if fails then (Inl ErrTransaction, st)
               else (Inr (normalizeInflightOrder live),
                     Some (s\<lparr>ss_inflight := fold (\<lambda>k b. bDelete D b k) dead (ss_inflight s)\<rparr>)))))"

definition StoredRetainedMessages ::
  "'b bolt \<Rightarrow> bool \<Rightarrow> int \<Rightarrow> 'b sessionStore option \<Rightarrow> (restore_error + Message list) \<times> 'b sessionStore option" where
  "StoredRetainedMessages D fails now st =
    (case st of
       None \<Rightarrow> (Inl ErrDBFileNotOpen, None)
     | Some s \<Rightarrow>
         (case loadMessages now (bItems D (ss_retained s)) of
            Inl e \<Rightarrow> (Inl e, st)
          | Inr (live, dead) \<Rightarrow>
              (if fails then (Inl ErrTransaction, st)
               else (Inr (map sm_Message live),
                     Some (s\<lparr>ss_retained := fold (\<lambda>k b. bDelete D b k) dead (ss_retained s)\<rparr>)))))"

section \<open>Laws of the bucket\<close>

lemma bolt_get_put [simp]: "bolt_laws D \<Longrightarrow> bGet D (bPut D b k v) = (bGet D b)(k \<mapsto> v)"
  unfolding bolt_laws_def by blast

lemma bolt_get_delete [simp]: "bolt_laws D \<Longrightarrow> bGet D (bDelete D b k) = (bGet D b)(k := None)"
  unfolding bolt_laws_def by blast

lemma bolt_items:
  "bolt_laws D \<Longrightarrow> map_of (bItems D b) = bGet D b" "bolt_laws D \<Longrightarrow> distinct (map fst (bItems D b))"
  unfolding bolt_laws_def by blast+

lemma bolt_sequence [simp]:
  "bolt_laws D \<Longrightarrow> bSequence D (bPut D b k v) = bSequence D b"
  "bolt_laws D \<Longrightarrow> bSequence D (bDelete D b k) = bSequence D b"
  "bolt_laws D \<Longrightarrow> fst (bNextSequence D b) = Suc (bSequence D b)"
  "bolt_laws D \<Longrightarrow> bSequence D (snd (bNextSequence D b)) = Suc (bSequence D b)"
  "bolt_laws D \<Longrightarrow> bGet D (snd (bNextSequence D b)) = bGet D b"
  unfolding bolt_laws_def by blast+

lemma bolt_items_iff: "bolt_laws D \<Longrightarrow> (k, v) \<in> set (bItems D b) \<longleftrightarrow> bGet D b k = Some v"
  using bolt_items [of D b] by (metis map_of_eq_Some_iff)

text \<open>The packet identifier is kept in two bytes, so the key of a message determines its client and
  its packet.\<close>

lemma inflightKey_inject: "inflightKey c p = inflightKey c' p' \<longleftrightarrow> c = c' \<and> p = p'"
proof
  assume h: "inflightKey c p = inflightKey c' p'"
  have b: "unat q < 65536" for q :: "16 word" using unsigned_less [of q] by simp
  have d: "char_of (unat p div 256) = (char_of (unat p' div 256) :: char)"
    and m: "char_of (unat p mod 256) = (char_of (unat p' mod 256) :: char)" and c: "c = c'"
    using h by (simp_all add: inflightKey_def compositeKey_def)
  have "unat p div 256 < 256" "unat p' div 256 < 256" using b [of p] b [of p'] by simp_all
  with d have "unat p div 256 = unat p' div 256" by (simp add: char_of_eq_iff take_bit_eq_mod)
  moreover from m have "unat p mod 256 = unat p' mod 256" by (simp add: char_of_eq_iff take_bit_eq_mod)
  ultimately have "unat p = unat p'" by (metis div_mult_mod_eq)
  then have "p = p'" by (rule word_unat_eq_iff [THEN iffD2])
  with c show "c = c' \<and> p = p'" by simp
qed simp

section \<open>The queue of a client\<close>

definition packetOf :: "storedMessage \<Rightarrow> 16 word" where
  "packetOf r = msg_PacketID (sm_Message r)"

text \<open>The invariant of the inflight bucket: a record lies under the key of its client and packet,
  and sequence numbers are positive, unique and not ahead of the counter.\<close>

definition inflight_ok :: "'b bolt \<Rightarrow> 'b \<Rightarrow> bool" where
  "inflight_ok D b \<longleftrightarrow>
    (\<forall>k v. bGet D b k = Some v \<longrightarrow> (\<exists>r. v = RMessage r \<and> k = inflightKey (clientOf r) (packetOf r) \<and>
       0 < sm_Seq r \<and> sm_Seq r \<le> bSequence D b)) \<and>
    (\<forall>k r k' r'. bGet D b k = Some (RMessage r) \<longrightarrow> bGet D b k' = Some (RMessage r') \<longrightarrow>
       sm_Seq r = sm_Seq r' \<longrightarrow> k = k')"

definition messages :: "'b bolt \<Rightarrow> 'b \<Rightarrow> storedMessage list" where
  "messages D b = [r. (k, RMessage r) \<leftarrow> bItems D b]"

definition queue :: "'b bolt \<Rightarrow> 'b \<Rightarrow> string \<Rightarrow> storedMessage list" where
  "queue D b c = sort_key sm_Seq (filter (\<lambda>r. clientOf r = c) (messages D b))"

lemma set_messages: "bolt_laws D \<Longrightarrow> set (messages D b) = {r. \<exists>k. bGet D b k = Some (RMessage r)}"
  unfolding messages_def by (force simp: bolt_items_iff split: stored.splits)

lemma messages_distinct:
  assumes "bolt_laws D" "inflight_ok D b"
  shows "distinct (map sm_Seq (messages D b))"
proof -
  have "distinct (map sm_Seq [r. (k, RMessage r) \<leftarrow> xs])"
    if "distinct (map fst xs)" "\<And>k v. (k, v) \<in> set xs \<Longrightarrow> bGet D b k = Some v" for xs
    using that
  proof (induction xs)
    case (Cons x xs)
    obtain k v where x: "x = (k, v)" by (cases x)
    from Cons have IH: "distinct (map sm_Seq [r. (k, RMessage r) \<leftarrow> xs])" by auto
    have "sm_Seq r \<notin> sm_Seq ` set [r. (k, RMessage r) \<leftarrow> xs]" if v: "v = RMessage r" for r
    proof
      assume "sm_Seq r \<in> sm_Seq ` set [r. (k, RMessage r) \<leftarrow> xs]"
      then obtain k' r' where "(k', RMessage r') \<in> set xs" "sm_Seq r = sm_Seq r'"
        by (force split: stored.splits)
      moreover from this Cons.prems(2) x v have "bGet D b k' = Some (RMessage r')" "bGet D b k = Some (RMessage r)"
        by auto
      ultimately have "k = k'" using assms(2) unfolding inflight_ok_def by blast
      with \<open>(k', RMessage r') \<in> set xs\<close> Cons.prems(1) x show False by force
    qed
    with IH show ?case by (cases v) (auto simp: x)
  qed simp
  from this [OF bolt_items(2) [OF assms(1)]] show ?thesis
    unfolding messages_def using bolt_items_iff [OF assms(1)] by blast
qed

lemma strict_sorted_key_unique:
  fixes f :: "'a \<Rightarrow> nat"
  assumes "sorted_wrt (<) (map f xs)" "sorted_wrt (<) (map f ys)" "set xs = set ys"
  shows "xs = ys"
proof -
  have "map f xs = map f ys" using assms by (intro strict_sorted_equal) (auto simp: image_iff)
  moreover have "inj_on f (set xs)"
    using assms(1) by (simp add: strict_sorted_iff distinct_map)
  ultimately show ?thesis using assms(3) by (intro map_inj_on [of f]) simp_all
qed

lemma queue_sorted:
  assumes "bolt_laws D" "inflight_ok D b"
  shows "sorted_wrt (<) (map sm_Seq (queue D b c))"
proof -
  have "distinct (map sm_Seq (filter (\<lambda>r. clientOf r = c) (messages D b)))"
    using messages_distinct [OF assms] by (rule distinct_map_filter)
  then show ?thesis by (simp add: strict_sorted_iff queue_def distinct_map)
qed

lemma set_queue: "bolt_laws D \<Longrightarrow> set (queue D b c) = {r. clientOf r = c \<and> (\<exists>k. bGet D b k = Some (RMessage r))}"
  by (auto simp: queue_def set_messages)

lemma queue_unique:
  assumes "bolt_laws D" "inflight_ok D b" "sorted_wrt (<) (map sm_Seq xs)"
    and "set xs = {r. clientOf r = c \<and> (\<exists>k. bGet D b k = Some (RMessage r))}"
  shows "queue D b c = xs"
  using queue_sorted [OF assms(1,2), of c] assms(3)
  by (rule strict_sorted_key_unique) (simp add: set_queue [OF assms(1)] assms(4))

text \<open>Every record of a client's queue lies under its own key.\<close>

lemma queue_get:
  assumes "bolt_laws D" "inflight_ok D b"
  shows "r \<in> set (queue D b c) \<longleftrightarrow> clientOf r = c \<and> bGet D b (inflightKey c (packetOf r)) = Some (RMessage r)"
  using assms unfolding set_queue [OF assms(1)] inflight_ok_def by fastforce

lemma inflight_ok_seq: "inflight_ok D b \<Longrightarrow> bGet D b k = Some (RMessage r) \<Longrightarrow> 0 < sm_Seq r \<and> sm_Seq r \<le> bSequence D b"
  unfolding inflight_ok_def by blast

section \<open>The hooks refine queue operations\<close>

text \<open>The abstract queue of a client forgets the sequence numbers: publishing a packet identifier
  that is already queued replaces that message in place, a new one goes to the end, and
  completion removes it.\<close>

definition unsequenced :: "storedMessage \<Rightarrow> storedMessage" where
  "unsequenced r = r\<lparr>sm_Seq := 0\<rparr>"

definition abstractQueue :: "'b bolt \<Rightarrow> 'b \<Rightarrow> string \<Rightarrow> storedMessage list" where
  "abstractQueue D b c = map unsequenced (queue D b c)"

definition abstractPublish :: "string \<Rightarrow> wirePacket \<Rightarrow> storedMessage list \<Rightarrow> storedMessage list" where
  "abstractPublish c pk q =
    (let m = messageRecord pk c InflightKey 0
     in if wp_PacketID pk \<in> packetOf ` set q then map (\<lambda>r. if packetOf r = wp_PacketID pk then m else r) q
        else q @ [m])"

definition abstractComplete :: "16 word \<Rightarrow> storedMessage list \<Rightarrow> storedMessage list" where
  "abstractComplete p q = filter (\<lambda>r. packetOf r \<noteq> p) q"

lemma unsequenced_simps [simp]:
  "packetOf (unsequenced r) = packetOf r" "clientOf (unsequenced r) = clientOf r"
  "unsequenced (messageRecord pk c t n) = messageRecord pk c t 0"
  by (simp_all add: unsequenced_def packetOf_def clientOf_def messageRecord_def)

lemma messageRecord_simps [simp]:
  "packetOf (messageRecord pk c t n) = wp_PacketID pk" "clientOf (messageRecord pk c t n) = c"
  "sm_Seq (messageRecord pk c t n) = n"
  by (simp_all add: packetOf_def clientOf_def messageRecord_def)

lemma inflight_ok_delete:
  assumes "bolt_laws D" "inflight_ok D b"
  shows "inflight_ok D (bDelete D b k)"
  using assms(2) unfolding inflight_ok_def bolt_get_delete [OF assms(1)] bolt_sequence(2) [OF assms(1)]
  by (auto split: if_splits)

lemma queue_delete:
  assumes "bolt_laws D" "inflight_ok D b"
  shows "queue D (bDelete D b (inflightKey c p)) c' =
    (if c' = c then filter (\<lambda>r. packetOf r \<noteq> p) (queue D b c') else queue D b c')"
proof (rule queue_unique [OF assms(1) inflight_ok_delete [OF assms]])
  show "sorted_wrt (<) (map sm_Seq (if c' = c then filter (\<lambda>r. packetOf r \<noteq> p) (queue D b c') else queue D b c'))"
    using queue_sorted [OF assms, of c'] by (auto simp: sorted_wrt_map sorted_wrt_filter)
  have "r \<in> set (if c' = c then filter (\<lambda>r. packetOf r \<noteq> p) (queue D b c') else queue D b c') \<longleftrightarrow>
      clientOf r = c' \<and> (\<exists>k. bGet D (bDelete D b (inflightKey c p)) k = Some (RMessage r))" for r
  proof
    assume "r \<in> set (if c' = c then filter (\<lambda>r. packetOf r \<noteq> p) (queue D b c') else queue D b c')"
    then have r: "r \<in> set (queue D b c')" "c' \<noteq> c \<or> packetOf r \<noteq> p" by (auto split: if_splits)
    from r(1) have g: "clientOf r = c'" "bGet D b (inflightKey c' (packetOf r)) = Some (RMessage r)"
      by (simp_all add: queue_get [OF assms])
    with r(2) show "clientOf r = c' \<and> (\<exists>k. bGet D (bDelete D b (inflightKey c p)) k = Some (RMessage r))"
      by (auto simp: bolt_get_delete [OF assms(1)] inflightKey_inject intro!: exI [of _ "inflightKey c' (packetOf r)"])
  next
    assume "clientOf r = c' \<and> (\<exists>k. bGet D (bDelete D b (inflightKey c p)) k = Some (RMessage r))"
    then obtain k where k: "clientOf r = c'" "k \<noteq> inflightKey c p" "bGet D b k = Some (RMessage r)"
      by (auto simp: bolt_get_delete [OF assms(1)] split: if_splits)
    then have "k = inflightKey c' (packetOf r)" using assms(2) unfolding inflight_ok_def by blast
    with k show "r \<in> set (if c' = c then filter (\<lambda>r. packetOf r \<noteq> p) (queue D b c') else queue D b c')"
      by (auto simp: queue_get [OF assms])
  qed
  then show "set (if c' = c then filter (\<lambda>r. packetOf r \<noteq> p) (queue D b c') else queue D b c') =
      {r. clientOf r = c' \<and> (\<exists>k. bGet D (bDelete D b (inflightKey c p)) k = Some (RMessage r))}" by blast
qed

text \<open>The two cases of queueMessage under the invariant.\<close>

lemma queueMessage_resend:
  assumes "inflight_ok D b" "bGet D b (inflightKey c (wp_PacketID pk)) = Some (RMessage old)"
  shows "queueMessage D c pk b =
    bPut D b (inflightKey c (wp_PacketID pk)) (RMessage (messageRecord pk c InflightKey (sm_Seq old)))"
  using assms inflight_ok_seq [OF assms] by (simp add: queueMessage_def Let_def)

lemma queueMessage_new:
  assumes "bolt_laws D" "bGet D b (inflightKey c (wp_PacketID pk)) = None"
  shows "queueMessage D c pk b =
    bPut D (snd (bNextSequence D b)) (inflightKey c (wp_PacketID pk))
      (RMessage (messageRecord pk c InflightKey (Suc (bSequence D b))))"
  using assms by (simp add: queueMessage_def Let_def split_beta)

lemma queueMessage_cases:
  assumes "bolt_laws D" "inflight_ok D b"
  obtains (resend) old where "bGet D b (inflightKey c (wp_PacketID pk)) = Some (RMessage old)"
    "clientOf old = c" "packetOf old = wp_PacketID pk"
    "queueMessage D c pk b =
      bPut D b (inflightKey c (wp_PacketID pk)) (RMessage (messageRecord pk c InflightKey (sm_Seq old)))"
  | (new) "bGet D b (inflightKey c (wp_PacketID pk)) = None"
    "queueMessage D c pk b =
      bPut D (snd (bNextSequence D b)) (inflightKey c (wp_PacketID pk))
        (RMessage (messageRecord pk c InflightKey (Suc (bSequence D b))))"
proof (cases "bGet D b (inflightKey c (wp_PacketID pk))")
  case None
  with new queueMessage_new [OF assms(1)] show ?thesis by blast
next
  case (Some v)
  then obtain old where old: "v = RMessage old" "inflightKey c (wp_PacketID pk) = inflightKey (clientOf old) (packetOf old)"
    using assms(2) unfolding inflight_ok_def by blast
  from old(2) have id: "clientOf old = c" "packetOf old = wp_PacketID pk" by (simp_all add: inflightKey_inject)
  have g: "bGet D b (inflightKey c (wp_PacketID pk)) = Some (RMessage old)" using Some old(1) by simp
  show ?thesis by (rule resend [OF g id queueMessage_resend [OF assms(2) g]])
qed

lemma inflight_ok_unique:
  "inflight_ok D b \<Longrightarrow> bGet D b k = Some (RMessage r) \<Longrightarrow> bGet D b k' = Some (RMessage r') \<Longrightarrow>
    sm_Seq r = sm_Seq r' \<Longrightarrow> k = k'"
  unfolding inflight_ok_def by blast

lemma inflight_ok_record:
  "inflight_ok D b \<Longrightarrow> bGet D b k = Some v \<Longrightarrow>
    \<exists>r. v = RMessage r \<and> k = inflightKey (clientOf r) (packetOf r) \<and> 0 < sm_Seq r \<and> sm_Seq r \<le> bSequence D b"
  unfolding inflight_ok_def by blast

lemma inflight_ok_put:
  assumes "bolt_laws D" "inflight_ok D b" "k = inflightKey (clientOf m) (packetOf m)" "0 < sm_Seq m" "sm_Seq m \<le> bSequence D b"
    and "\<And>k' r. bGet D b k' = Some (RMessage r) \<Longrightarrow> sm_Seq r = sm_Seq m \<Longrightarrow> k' = k"
  shows "inflight_ok D (bPut D b k (RMessage m))"
proof -
  have g: "bGet D (bPut D b k (RMessage m)) k' = (if k' = k then Some (RMessage m) else bGet D b k')" for k'
    by (simp add: bolt_get_put [OF assms(1)])
  show ?thesis unfolding inflight_ok_def g bolt_sequence(1) [OF assms(1)]
  proof (intro conjI allI impI)
    fix k' v assume "(if k' = k then Some (RMessage m) else bGet D b k') = Some v"
    then show "\<exists>r. v = RMessage r \<and> k' = inflightKey (clientOf r) (packetOf r) \<and> 0 < sm_Seq r \<and> sm_Seq r \<le> bSequence D b"
      using assms(3-5) inflight_ok_record [OF assms(2)] by (metis option.inject)
  next
    fix k1 r1 k2 r2
    assume "(if k1 = k then Some (RMessage m) else bGet D b k1) = Some (RMessage r1)"
      "(if k2 = k then Some (RMessage m) else bGet D b k2) = Some (RMessage r2)" "sm_Seq r1 = sm_Seq r2"
    then show "k1 = k2"
      using assms(6) inflight_ok_unique [OF assms(2)] by (metis option.inject stored.inject(3))
  qed
qed

lemma inflight_ok_queueMessage:
  assumes "bolt_laws D" "inflight_ok D b"
  shows "inflight_ok D (queueMessage D c pk b)"
proof (cases rule: queueMessage_cases [OF assms, of c pk])
  case resend: (1 old)
  let ?k = "inflightKey c (wp_PacketID pk)"
  have s: "0 < sm_Seq old" "sm_Seq old \<le> bSequence D b" using inflight_ok_seq [OF assms(2) resend(1)] by simp_all
  have u: "bGet D b k = Some (RMessage r) \<Longrightarrow> sm_Seq r = sm_Seq old \<Longrightarrow> k = ?k" for k r
    using assms(2) resend(1) unfolding inflight_ok_def by blast
  show ?thesis unfolding resend(4)
    by (rule inflight_ok_put [OF assms(1) assms(2)]) (use s u in auto)
next
  case new: 2
  let ?b = "snd (bNextSequence D b)"
  have "inflight_ok D ?b"
    using assms(2) unfolding inflight_ok_def bolt_sequence(4,5) [OF assms(1)] by (meson le_SucI)
  then show ?thesis unfolding new(2)
  proof (rule inflight_ok_put [OF assms(1)])
    fix k r assume "bGet D ?b k = Some (RMessage r)" "sm_Seq r = sm_Seq (messageRecord pk c InflightKey (Suc (bSequence D b)))"
    then have False using inflight_ok_seq [OF assms(2), of k r] by (simp add: bolt_sequence(5) [OF assms(1)])
    then show "k = inflightKey c (wp_PacketID pk)" ..
  qed (simp_all add: bolt_sequence(4) [OF assms(1)])
qed

lemma set_queue_put:
  assumes "bolt_laws D" "inflight_ok D b" "clientOf m = c" "packetOf m = p"
  shows "{r. clientOf r = c' \<and> (\<exists>k. bGet D (bPut D b (inflightKey c p) (RMessage m)) k = Some (RMessage r))} =
    (if c' = c then insert m {r \<in> set (queue D b c'). packetOf r \<noteq> p} else set (queue D b c'))"
proof -
  have g: "bGet D (bPut D b (inflightKey c p) (RMessage m)) k =
      (if k = inflightKey c p then Some (RMessage m) else bGet D b k)" for k
    by (simp add: bolt_get_put [OF assms(1)])
  have "clientOf r = c' \<and> (\<exists>k. bGet D (bPut D b (inflightKey c p) (RMessage m)) k = Some (RMessage r)) \<longleftrightarrow>
      r = m \<and> c' = c \<or> r \<in> set (queue D b c') \<and> (c' = c \<longrightarrow> packetOf r \<noteq> p)" for r
  proof
    assume "clientOf r = c' \<and> (\<exists>k. bGet D (bPut D b (inflightKey c p) (RMessage m)) k = Some (RMessage r))"
    then obtain k where k: "clientOf r = c'" "(if k = inflightKey c p then Some (RMessage m) else bGet D b k) = Some (RMessage r)"
      unfolding g by blast
    show "r = m \<and> c' = c \<or> r \<in> set (queue D b c') \<and> (c' = c \<longrightarrow> packetOf r \<noteq> p)"
    proof (cases "k = inflightKey c p")
      case True
      with k assms(3) show ?thesis by simp
    next
      case False
      with k have "bGet D b k = Some (RMessage r)" by simp
      moreover from inflight_ok_record [OF assms(2) this] have "k = inflightKey c' (packetOf r)" using k(1) by simp
      ultimately show ?thesis using False k(1) queue_get [OF assms(1,2), of r c'] by auto
    qed
  next
    assume "r = m \<and> c' = c \<or> r \<in> set (queue D b c') \<and> (c' = c \<longrightarrow> packetOf r \<noteq> p)"
    then show "clientOf r = c' \<and> (\<exists>k. bGet D (bPut D b (inflightKey c p) (RMessage m)) k = Some (RMessage r))"
    proof
      assume "r = m \<and> c' = c"
      with assms(3) show ?thesis unfolding g by auto
    next
      assume "r \<in> set (queue D b c') \<and> (c' = c \<longrightarrow> packetOf r \<noteq> p)"
      then have "clientOf r = c'" "bGet D b (inflightKey c' (packetOf r)) = Some (RMessage r)"
        "inflightKey c' (packetOf r) \<noteq> inflightKey c p"
        by (auto simp: queue_get [OF assms(1,2)] inflightKey_inject)
      then show ?thesis unfolding g by (auto intro!: exI [of _ "inflightKey c' (packetOf r)"])
    qed
  qed
  then show ?thesis by auto
qed

lemma queue_publish_resend:
  assumes "bolt_laws D" "inflight_ok D b" "bGet D b (inflightKey c (wp_PacketID pk)) = Some (RMessage old)"
    and "clientOf old = c" "packetOf old = wp_PacketID pk"
  shows "queue D (queueMessage D c pk b) c =
    map (\<lambda>r. if packetOf r = wp_PacketID pk then messageRecord pk c InflightKey (sm_Seq r) else r) (queue D b c)"
proof -
  let ?m = "messageRecord pk c InflightKey (sm_Seq old)"
  let ?f = "\<lambda>r. if packetOf r = wp_PacketID pk then messageRecord pk c InflightKey (sm_Seq r) else r"
  have old: "old \<in> set (queue D b c)" using assms(3-5) by (simp add: queue_get [OF assms(1,2)])
  have only: "r \<in> set (queue D b c) \<Longrightarrow> packetOf r = wp_PacketID pk \<Longrightarrow> r = old" for r
    using assms(3) by (simp add: queue_get [OF assms(1,2)])
  show ?thesis
  proof (rule queue_unique [OF assms(1) inflight_ok_queueMessage [OF assms(1,2)]])
    have "map sm_Seq (map ?f (queue D b c)) = map sm_Seq (queue D b c)" by simp
    then show "sorted_wrt (<) (map sm_Seq (map ?f (queue D b c)))"
      using queue_sorted [OF assms(1,2), of c] by (simp only:)
    have "set (map ?f (queue D b c)) = insert ?m {r \<in> set (queue D b c). packetOf r \<noteq> wp_PacketID pk}"
    proof (intro equalityI subsetI)
      fix x assume "x \<in> set (map ?f (queue D b c))"
      then obtain r where "r \<in> set (queue D b c)" "x = ?f r" by auto
      then show "x \<in> insert ?m {r \<in> set (queue D b c). packetOf r \<noteq> wp_PacketID pk}"
        using only [of r] by (cases "packetOf r = wp_PacketID pk") simp_all
    next
      fix x assume "x \<in> insert ?m {r \<in> set (queue D b c). packetOf r \<noteq> wp_PacketID pk}"
      then consider "x = ?m" | "x \<in> set (queue D b c)" "packetOf x \<noteq> wp_PacketID pk" by blast
      then have "x \<in> ?f ` set (queue D b c)"
      proof cases
        case 1
        then show ?thesis by (intro image_eqI [OF _ old]) (simp add: assms(5))
      next
        case 2
        show ?thesis by (rule image_eqI [OF _ 2(1)]) (simp add: 2(2))
      qed
      then show "x \<in> set (map ?f (queue D b c))" by (simp only: set_map)
    qed
    also have "\<dots> = {r. clientOf r = c \<and> (\<exists>k. bGet D (queueMessage D c pk b) k = Some (RMessage r))}"
      unfolding queueMessage_resend [OF assms(2,3)]
      using set_queue_put [OF assms(1,2), of ?m c "wp_PacketID pk" c] by simp
    finally show "set (map ?f (queue D b c)) =
        {r. clientOf r = c \<and> (\<exists>k. bGet D (queueMessage D c pk b) k = Some (RMessage r))}" .
  qed
qed

lemma queue_publish_new:
  assumes "bolt_laws D" "inflight_ok D b" "bGet D b (inflightKey c (wp_PacketID pk)) = None"
  shows "queue D (queueMessage D c pk b) c =
    queue D b c @ [messageRecord pk c InflightKey (Suc (bSequence D b))]"
proof -
  let ?m = "messageRecord pk c InflightKey (Suc (bSequence D b))"
  let ?b = "snd (bNextSequence D b)"
  have okb: "inflight_ok D ?b"
    using assms(2) unfolding inflight_ok_def bolt_sequence(4,5) [OF assms(1)] by (meson le_SucI)
  have q: "queue D ?b c = queue D b c"
    by (rule queue_unique [OF assms(1) okb queue_sorted [OF assms(1,2)]])
      (simp add: set_queue [OF assms(1)] bolt_sequence(5) [OF assms(1)])
  have none: "r \<in> set (queue D b c) \<Longrightarrow> packetOf r \<noteq> wp_PacketID pk" for r
    using assms(3) by (auto simp: queue_get [OF assms(1,2)])
  have seq: "r \<in> set (queue D b c) \<Longrightarrow> sm_Seq r < Suc (bSequence D b)" for r
    using inflight_ok_seq [OF assms(2)] by (auto simp: queue_get [OF assms(1,2)] less_Suc_eq_le)
  show ?thesis
  proof (rule queue_unique [OF assms(1) inflight_ok_queueMessage [OF assms(1,2)]])
    show "sorted_wrt (<) (map sm_Seq (queue D b c @ [?m]))"
      using queue_sorted [OF assms(1,2), of c] seq by (simp add: sorted_wrt_append)
    have "set (queue D b c @ [?m]) = insert ?m {r \<in> set (queue D b c). packetOf r \<noteq> wp_PacketID pk}"
      using none by auto
    also have "\<dots> = {r. clientOf r = c \<and> (\<exists>k. bGet D (queueMessage D c pk b) k = Some (RMessage r))}"
      unfolding queueMessage_new [OF assms(1,3)]
      using set_queue_put [OF assms(1) okb, of ?m c "wp_PacketID pk" c] q by simp
    finally show "set (queue D b c @ [?m]) =
        {r. clientOf r = c \<and> (\<exists>k. bGet D (queueMessage D c pk b) k = Some (RMessage r))}" .
  qed
qed

lemma queue_publish_other:
  assumes "bolt_laws D" "inflight_ok D b" "c' \<noteq> c"
  shows "queue D (queueMessage D c pk b) c' = queue D b c'"
proof (rule queue_unique [OF assms(1) inflight_ok_queueMessage [OF assms(1,2)] queue_sorted [OF assms(1,2)]])
  have okb: "inflight_ok D (snd (bNextSequence D b))"
    using assms(2) unfolding inflight_ok_def bolt_sequence(4,5) [OF assms(1)] by (meson le_SucI)
  have q: "set (queue D (snd (bNextSequence D b)) c') = set (queue D b c')"
    by (simp add: set_queue [OF assms(1)] bolt_sequence(5) [OF assms(1)])
  show "set (queue D b c') = {r. clientOf r = c' \<and> (\<exists>k. bGet D (queueMessage D c pk b) k = Some (RMessage r))}"
  proof (cases rule: queueMessage_cases [OF assms(1,2), of c pk])
    case (1 old)
    then show ?thesis
      using set_queue_put [OF assms(1,2), of "messageRecord pk c InflightKey (sm_Seq old)" c "wp_PacketID pk" c'] assms(3)
      by simp
  next
    case 2
    then show ?thesis
      using set_queue_put [OF assms(1) okb, of "messageRecord pk c InflightKey (Suc (bSequence D b))" c "wp_PacketID pk" c']
        assms(3) q by simp
  qed
qed

lemma abstractQueue_publish:
  assumes "bolt_laws D" "inflight_ok D b"
  shows "abstractQueue D (queueMessage D c pk b) c' =
    (if c' = c then abstractPublish c pk (abstractQueue D b c') else abstractQueue D b c')"
proof (cases "c' = c")
  case True
  have mem: "wp_PacketID pk \<in> packetOf ` set (abstractQueue D b c) \<longleftrightarrow>
      bGet D b (inflightKey c (wp_PacketID pk)) \<noteq> None"
    using inflight_ok_record [OF assms(2)] queue_get [OF assms]
    by (force simp: abstractQueue_def image_iff inflightKey_inject)
  show ?thesis
  proof (cases rule: queueMessage_cases [OF assms, of c pk])
    case (1 old)
    then show ?thesis using mem queue_publish_resend [OF assms 1(1-3)] True
      by (simp add: abstractPublish_def Let_def) (simp add: abstractQueue_def)
  next
    case 2
    then show ?thesis using mem queue_publish_new [OF assms 2(1)] True
      by (simp add: abstractPublish_def Let_def) (simp add: abstractQueue_def)
  qed
next
  case False
  then show ?thesis by (simp add: abstractQueue_def queue_publish_other [OF assms])
qed

lemma abstractQueue_complete:
  assumes "bolt_laws D" "inflight_ok D b"
  shows "abstractQueue D (bDelete D b (inflightKey c p)) c' =
    (if c' = c then abstractComplete p (abstractQueue D b c') else abstractQueue D b c')"
  by (simp add: abstractQueue_def queue_delete [OF assms] abstractComplete_def filter_map o_def)

text \<open>Expiry of a client deletes by key prefix.\<close>

lemma bolt_get_fold_delete:
  assumes "bolt_laws D"
  shows "bGet D (fold (\<lambda>k b. bDelete D b k) ks b) = (\<lambda>k. if k \<in> set ks then None else bGet D b k)"
  by (induction ks arbitrary: b) (auto simp: bolt_get_delete [OF assms])

lemma bolt_get_deletePrefix:
  assumes "bolt_laws D"
  shows "bGet D (deletePrefix D pfx b) k = (if HasPrefix k pfx then None else bGet D b k)"
proof -
  have "k \<in> set (map fst (bItems D b)) \<longleftrightarrow> bGet D b k \<noteq> None"
    by (metis bolt_items(1) [OF assms] map_of_eq_None_iff set_map)
  then show ?thesis by (auto simp: deletePrefix_def bolt_get_fold_delete [OF assms])
qed

lemma bolt_sequence_fold_delete:
  "bolt_laws D \<Longrightarrow> bSequence D (fold (\<lambda>k b. bDelete D b k) ks b) = bSequence D b"
  by (induction ks arbitrary: b) (simp_all add: bolt_sequence(2))

lemma inflight_ok_sub:
  assumes "inflight_ok D b" "bSequence D b' = bSequence D b"
    and "\<And>k v. bGet D b' k = Some v \<Longrightarrow> bGet D b k = Some v"
  shows "inflight_ok D b'"
  using assms(1) unfolding inflight_ok_def assms(2) by (meson assms(3))

lemma inflight_ok_deletePrefix:
  assumes "bolt_laws D" "inflight_ok D b"
  shows "inflight_ok D (deletePrefix D pfx b)"
proof (rule inflight_ok_sub [OF assms(2)])
  show "bSequence D (deletePrefix D pfx b) = bSequence D b"
    unfolding deletePrefix_def by (rule bolt_sequence_fold_delete [OF assms(1)])
  show "bGet D b k = Some v" if "bGet D (deletePrefix D pfx b) k = Some v" for k v
    using that unfolding bolt_get_deletePrefix [OF assms(1)] by (metis option.distinct(1))
qed

lemma inflightKey_prefix:
  assumes "keySep \<notin> set c" "keySep \<notin> set c'"
  shows "HasPrefix (inflightKey c' p) (compositeKey c []) \<longleftrightarrow> c' = c"
proof
  assume "HasPrefix (inflightKey c' p) (compositeKey c [])"
  then obtain r where r: "c' @ keySep # [char_of (unat p div 256), char_of (unat p mod 256)] = c @ keySep # r"
    by (auto simp: HasPrefix_iff inflightKey_def compositeKey_def)
  then have "takeWhile (\<lambda>x. x \<noteq> keySep) (c' @ keySep # [char_of (unat p div 256), char_of (unat p mod 256)])
      = takeWhile (\<lambda>x. x \<noteq> keySep) (c @ keySep # r)" by (simp only:)
  with assms show "c' = c" by (subst (asm) (1 2) takeWhile_append2) auto
qed (simp add: HasPrefix_iff inflightKey_def compositeKey_def)

lemma queue_expired:
  assumes "bolt_laws D" "inflight_ok D b" "keySep \<notin> set c" "keySep \<notin> set c'"
  shows "queue D (deletePrefix D (compositeKey c []) b) c' = (if c' = c then [] else queue D b c')"
proof (rule queue_unique [OF assms(1) inflight_ok_deletePrefix [OF assms(1,2)]])
  show "sorted_wrt (<) (map sm_Seq (if c' = c then [] else queue D b c'))"
    using queue_sorted [OF assms(1,2), of c'] by simp
  have "r \<in> set (if c' = c then [] else queue D b c') \<longleftrightarrow>
      clientOf r = c' \<and> (\<exists>k. bGet D (deletePrefix D (compositeKey c []) b) k = Some (RMessage r))" for r
  proof
    assume "r \<in> set (if c' = c then [] else queue D b c')"
    then have "c' \<noteq> c" "clientOf r = c'" "bGet D b (inflightKey c' (packetOf r)) = Some (RMessage r)"
      by (auto simp: queue_get [OF assms(1,2)] split: if_splits)
    then show "clientOf r = c' \<and> (\<exists>k. bGet D (deletePrefix D (compositeKey c []) b) k = Some (RMessage r))"
      using inflightKey_prefix [OF assms(3,4), of "packetOf r"]
      by (auto simp: bolt_get_deletePrefix [OF assms(1)] intro!: exI [of _ "inflightKey c' (packetOf r)"])
  next
    assume "clientOf r = c' \<and> (\<exists>k. bGet D (deletePrefix D (compositeKey c []) b) k = Some (RMessage r))"
    then obtain k where k: "clientOf r = c'" "\<not> HasPrefix k (compositeKey c [])" "bGet D b k = Some (RMessage r)"
      unfolding bolt_get_deletePrefix [OF assms(1)] by (metis option.distinct(1))
    from inflight_ok_record [OF assms(2) k(3)] k(1) have "k = inflightKey c' (packetOf r)" by simp
    with k show "r \<in> set (if c' = c then [] else queue D b c')"
      using inflightKey_prefix [OF assms(3,4), of "packetOf r"] by (simp add: queue_get [OF assms(1,2)])
  qed
  then show "set (if c' = c then [] else queue D b c') =
      {r. clientOf r = c' \<and> (\<exists>k. bGet D (deletePrefix D (compositeKey c []) b) k = Some (RMessage r))}" by blast
qed

section \<open>Insertion sort and clamping\<close>

text \<open>The inner loop places one element into the sorted part and keeps the order of equal keys.\<close>

lemma swapDown_placed:
  "\<exists>zs. swapDown (xs @ y # rest) (length xs) = zs @ rest \<and> mset zs = mset (xs @ [y]) \<and>
     (sorted (map sm_Seq xs) \<longrightarrow> sorted (map sm_Seq zs)) \<and>
     (\<forall>k. filter (\<lambda>r. sm_Seq r = k) zs = filter (\<lambda>r. sm_Seq r = k) (xs @ [y]))"
proof (induction xs arbitrary: rest rule: rev_induct)
  case (snoc x xs)
  show ?case
  proof (cases "sm_Seq x > sm_Seq y")
    case True
    obtain zs where zs: "swapDown (xs @ y # x # rest) (length xs) = zs @ x # rest" "mset zs = mset (xs @ [y])"
      "sorted (map sm_Seq xs) \<longrightarrow> sorted (map sm_Seq zs)"
      "\<forall>k. filter (\<lambda>r. sm_Seq r = k) zs = filter (\<lambda>r. sm_Seq r = k) (xs @ [y])"
      using snoc.IH [of "x # rest"] by blast
    have "swapDown ((xs @ [x]) @ y # rest) (length (xs @ [x])) = (zs @ [x]) @ rest"
      using True zs(1) by (simp add: nth_append list_update_append)
    moreover have "mset (zs @ [x]) = mset ((xs @ [x]) @ [y])" using zs(2) by simp
    moreover have "sorted (map sm_Seq (zs @ [x]))" if s: "sorted (map sm_Seq (xs @ [x]))"
    proof -
      have "set zs = set (xs @ [y])" using zs(2) by (rule mset_eq_setD)
      with s zs(3) True show ?thesis by (auto simp: sorted_append)
    qed
    moreover have "\<forall>k. filter (\<lambda>r. sm_Seq r = k) (zs @ [x]) = filter (\<lambda>r. sm_Seq r = k) ((xs @ [x]) @ [y])"
      using zs(4) True by auto
    ultimately show ?thesis by blast
  next
    case False
    then have "swapDown ((xs @ [x]) @ y # rest) (length (xs @ [x])) = ((xs @ [x]) @ [y]) @ rest"
      by (simp add: nth_append)
    moreover have "sorted (map sm_Seq (xs @ [x])) \<longrightarrow> sorted (map sm_Seq ((xs @ [x]) @ [y]))"
      using False by (auto simp: sorted_append)
    ultimately show ?thesis by blast
  qed
qed simp

lemma insertionSort_prefix:
  "n \<le> length grp \<Longrightarrow>
     \<exists>zs. fold (\<lambda>i g. swapDown g i) [1..<n] grp = zs @ drop n grp \<and> mset zs = mset (take n grp) \<and>
       sorted (map sm_Seq zs) \<and> (\<forall>k. filter (\<lambda>r. sm_Seq r = k) zs = filter (\<lambda>r. sm_Seq r = k) (take n grp))"
proof (induction n)
  case (Suc n)
  then obtain zs where zs: "fold (\<lambda>i g. swapDown g i) [1..<n] grp = zs @ drop n grp" "mset zs = mset (take n grp)"
    "sorted (map sm_Seq zs)" "\<forall>k. filter (\<lambda>r. sm_Seq r = k) zs = filter (\<lambda>r. sm_Seq r = k) (take n grp)"
    by auto
  have d: "drop n grp = grp ! n # drop (Suc n) grp" "take (Suc n) grp = take n grp @ [grp ! n]"
    using Suc.prems by (simp_all add: Cons_nth_drop_Suc take_Suc_conv_app_nth)
  have len: "length zs = n" using mset_eq_length [OF zs(2)] Suc.prems by simp
  show ?case
  proof (cases n)
    case 0
    then show ?thesis using d by (auto intro!: exI [of _ "[grp ! 0]"])
  next
    case (Suc m)
    obtain zs' where "swapDown (zs @ grp ! n # drop (Suc n) grp) (length zs) = zs' @ drop (Suc n) grp"
      "mset zs' = mset (zs @ [grp ! n])" "sorted (map sm_Seq zs')"
      "\<forall>k. filter (\<lambda>r. sm_Seq r = k) zs' = filter (\<lambda>r. sm_Seq r = k) (zs @ [grp ! n])"
      using swapDown_placed [of zs "grp ! n" "drop (Suc n) grp"] zs(3) by blast
    moreover have "[1..<Suc n] = [1..<n] @ [n]" using Suc by simp
    ultimately show ?thesis using zs d len by (intro exI [of _ zs']) simp
  qed
qed simp

lemma insertionSort_sort_key: "insertionSort grp = sort_key sm_Seq grp"
proof -
  obtain zs where zs: "insertionSort grp = zs" "mset zs = mset grp" "sorted (map sm_Seq zs)"
    "\<forall>k. filter (\<lambda>r. sm_Seq r = k) zs = filter (\<lambda>r. sm_Seq r = k) grp"
    using insertionSort_prefix [of "length grp" grp] by (auto simp: insertionSort_def)
  have "sort_key sm_Seq grp = zs"
    by (rule properties_for_sort_key [OF zs(2) _ zs(3)]) (use zs(4) in \<open>simp add: eq_commute\<close>)
  with zs(1) show ?thesis by simp
qed

text \<open>Clamping changes only Created, and makes it strictly increase.\<close>

definition timeless :: "Message \<Rightarrow> Message" where
  "timeless m = m\<lparr>msg_Created := 0\<rparr>"

lemma clampCreated_timeless: "map timeless (clampCreated prev rs) = map (timeless \<circ> sm_Message) rs"
  by (induction prev rs rule: clampCreated.induct) (simp_all add: Let_def timeless_def)

lemma clampCreated_client: "m \<in> set (clampCreated prev rs) \<Longrightarrow> \<exists>r \<in> set rs. msg_Client m = clientOf r"
  by (induction prev rs rule: clampCreated.induct) (auto simp: Let_def clientOf_def)

lemma clampCreated_increasing:
  "sorted_wrt (<) (map msg_Created (clampCreated prev rs)) \<and>
   (\<forall>p m. prev = Some p \<longrightarrow> m \<in> set (clampCreated prev rs) \<longrightarrow> p < msg_Created m)"
proof (induction prev rs rule: clampCreated.induct)
  case (2 prev r rs)
  let ?c = "case prev of Some p \<Rightarrow> if msg_Created (sm_Message r) \<le> p then p + 1 else msg_Created (sm_Message r)
    | None \<Rightarrow> msg_Created (sm_Message r)"
  from 2 [OF refl refl] have IH: "sorted_wrt (<) (map msg_Created (clampCreated (Some ?c) rs))"
    "m \<in> set (clampCreated (Some ?c) rs) \<Longrightarrow> ?c < msg_Created m" for m by blast+
  have p: "prev = Some p \<Longrightarrow> p < ?c" for p by simp
  have eq: "clampCreated prev (r # rs) = (sm_Message r)\<lparr>msg_Created := ?c\<rparr> # clampCreated (Some ?c) rs"
    by (simp only: clampCreated.simps Let_def)
  show ?case unfolding eq
  proof (intro conjI allI impI)
    show "sorted_wrt (<) (map msg_Created ((sm_Message r)\<lparr>msg_Created := ?c\<rparr> # clampCreated (Some ?c) rs))"
      using IH by (simp only: list.map sorted_wrt.simps) (simp add: IH(2))
    fix q m assume "prev = Some q" "m \<in> set ((sm_Message r)\<lparr>msg_Created := ?c\<rparr> # clampCreated (Some ?c) rs)"
    then show "q < msg_Created m" using p [of q] IH(2) [of m] by force
  qed
qed simp

section \<open>Restart\<close>

lemma loadMessages_ok:
  "(\<And>k v. (k, v) \<in> set xs \<Longrightarrow> \<exists>r. v = RMessage r) \<Longrightarrow>
     \<exists>dead. loadMessages now xs = Inr (filter (\<lambda>r. \<not> expired now r) [r. (k, RMessage r) \<leftarrow> xs], dead)"
proof (induction now xs rule: loadMessages.induct)
  case (2 now k r vs)
  then obtain dead where "loadMessages now vs = Inr (filter (\<lambda>r. \<not> expired now r) [r. (k, RMessage r) \<leftarrow> vs], dead)"
    by auto
  then show ?case by (simp add: bindR_def)
qed auto

lemma clientOrder_props: "distinct (clientOrder recs) \<and> set (clientOrder recs) = clientOf ` set recs"
proof -
  have "distinct cs \<Longrightarrow>
      distinct (fold (\<lambda>r cs. if clientOf r \<in> set cs then cs else cs @ [clientOf r]) rs cs) \<and>
      set (fold (\<lambda>r cs. if clientOf r \<in> set cs then cs else cs @ [clientOf r]) rs cs) = set cs \<union> clientOf ` set rs" for cs rs
    by (induction rs arbitrary: cs) auto
  from this [of "[]" recs] show ?thesis by (simp add: clientOrder_def)
qed

lemma filter_concat_groups:
  assumes "distinct cs" "\<And>c m. m \<in> set (f c) \<Longrightarrow> key m = c"
  shows "filter (\<lambda>m. key m = c) (concat (map f cs)) = (if c \<in> set cs then f c else [])"
  using assms(1)
proof (induction cs)
  case (Cons d cs)
  have "filter (\<lambda>m. key m = c) (f d) = (if c = d then f d else [])"
    using assms(2) [of _ d] by (auto simp: filter_empty_conv intro: filter_True)
  with Cons show ?case by auto
qed simp

lemma normalizeInflightOrder_client:
  "filter (\<lambda>m. msg_Client m = c) (normalizeInflightOrder recs) =
     clampCreated None (sort_key sm_Seq (filter (\<lambda>r. clientOf r = c) recs))"
proof -
  let ?f = "\<lambda>c. clampCreated None (sort_key sm_Seq (filter (\<lambda>r. clientOf r = c) recs))"
  have "m \<in> set (?f d) \<Longrightarrow> msg_Client m = d" for d m
    by (drule clampCreated_client) auto
  from filter_concat_groups [of "clientOrder recs" ?f msg_Client c, OF _ this] clientOrder_props [of recs]
  have "filter (\<lambda>m. msg_Client m = c) (normalizeInflightOrder recs) = (if c \<in> clientOf ` set recs then ?f c else [])"
    by (simp add: normalizeInflightOrder_def Let_def insertionSort_sort_key)
  moreover have "?f c = []" if "c \<notin> clientOf ` set recs"
  proof -
    from that have "filter (\<lambda>r. clientOf r = c) recs = []" by (auto simp: filter_empty_conv)
    then show ?thesis by simp
  qed
  ultimately show ?thesis by simp
qed

lemma restart_queue:
  assumes "bolt_laws D" "inflight_ok D (ss_inflight s)"
  obtains ms st where "StoredInflightMessages D False now (Some s) = (Inr ms, st)"
    "\<And>c. filter (\<lambda>m. msg_Client m = c) ms =
      clampCreated None (filter (\<lambda>r. \<not> expired now r) (queue D (ss_inflight s) c))"
proof -
  let ?b = "ss_inflight s"
  have ex: "\<exists>r. v = RMessage r" if "(k, v) \<in> set (bItems D ?b)" for k v
    using that inflight_ok_record [OF assms(2), of k v] by (auto simp: bolt_items_iff [OF assms(1)])
  have "\<exists>dead. loadMessages now (bItems D ?b) = Inr (filter (\<lambda>r. \<not> expired now r) (messages D ?b), dead)"
    unfolding messages_def by (rule loadMessages_ok) (rule ex)
  then obtain dead where
    l: "loadMessages now (bItems D ?b) = Inr (filter (\<lambda>r. \<not> expired now r) (messages D ?b), dead)" ..
  let ?ms = "normalizeInflightOrder (filter (\<lambda>r. \<not> expired now r) (messages D ?b))"
  have "filter (\<lambda>m. msg_Client m = c) ?ms =
      clampCreated None (filter (\<lambda>r. \<not> expired now r) (queue D ?b c))" for c
    by (simp add: normalizeInflightOrder_client queue_def filter_sort conj_commute)
  moreover obtain st where "StoredInflightMessages D False now (Some s) = (Inr ?ms, st)"
    using l by (simp add: StoredInflightMessages_def)
  ultimately show ?thesis using that by blast
qed

section \<open>Traces of the queueing hooks\<close>

text \<open>The hooks that touch the inflight bucket, with whether the transaction fails, and what each of
  them does to the queues of all clients.\<close>

datatype qosOp =
    QosPublish bool string wirePacket
  | QosComplete bool string "16 word"
  | QosDropped bool string "16 word"
  | ClientExpired bool string

fun qosClient :: "qosOp \<Rightarrow> string" where
  "qosClient (QosPublish _ c _) = c"
| "qosClient (QosComplete _ c _) = c"
| "qosClient (QosDropped _ c _) = c"
| "qosClient (ClientExpired _ c) = c"

fun runQosOp :: "'b bolt \<Rightarrow> qosOp \<Rightarrow> 'b sessionStore option \<Rightarrow> 'b sessionStore option" where
  "runQosOp D (QosPublish fails c pk) st = OnQosPublish D fails c pk st"
| "runQosOp D (QosComplete fails c p) st = OnQosComplete D fails c p st"
| "runQosOp D (QosDropped fails c p) st = OnQosDropped D fails c p st"
| "runQosOp D (ClientExpired fails c) st = storeClientExpired D fails c st"

fun specQosOp :: "qosOp \<Rightarrow> (string \<Rightarrow> storedMessage list) \<Rightarrow> string \<Rightarrow> storedMessage list" where
  "specQosOp (QosPublish fails c pk) Q = (if fails then Q else Q(c := abstractPublish c pk (Q c)))"
| "specQosOp (QosComplete fails c p) Q = (if fails then Q else Q(c := abstractComplete p (Q c)))"
| "specQosOp (QosDropped fails c p) Q = (if fails then Q else Q(c := abstractComplete p (Q c)))"
| "specQosOp (ClientExpired fails c) Q = (if fails then Q else Q(c := []))"

text \<open>One step of the simulation: the queues of the clients whose identifier is free of the
  separator follow the specification.\<close>

definition simulates :: "'b bolt \<Rightarrow> 'b sessionStore option \<Rightarrow> (string \<Rightarrow> storedMessage list) \<Rightarrow> bool" where
  "simulates D st Q \<longleftrightarrow>
    (\<exists>s. st = Some s \<and> inflight_ok D (ss_inflight s) \<and>
      (\<forall>c. keySep \<notin> set c \<longrightarrow> abstractQueue D (ss_inflight s) c = Q c))"

lemma simulatesI:
  "inflight_ok D (ss_inflight s) \<Longrightarrow>
    (\<And>c. keySep \<notin> set c \<Longrightarrow> abstractQueue D (ss_inflight s) c = Q c) \<Longrightarrow> simulates D (Some s) Q"
  by (simp add: simulates_def)

lemma abstractQueue_expired:
  assumes "bolt_laws D" "inflight_ok D b" "keySep \<notin> set c" "keySep \<notin> set c'"
  shows "abstractQueue D (deletePrefix D (compositeKey c []) b) c' = (if c' = c then [] else abstractQueue D b c')"
  by (simp add: abstractQueue_def queue_expired [OF assms])

lemma simulates_step:
  assumes "bolt_laws D" "simulates D st Q" "keySep \<notin> set (qosClient q)"
  shows "simulates D (runQosOp D q st) (specQosOp q Q)"
proof -
  obtain s where s: "st = Some s" "inflight_ok D (ss_inflight s)"
    "\<And>c. keySep \<notin> set c \<Longrightarrow> abstractQueue D (ss_inflight s) c = Q c"
    using assms(2) unfolding simulates_def by blast
  show ?thesis unfolding s(1)
  proof (cases q)
    case (QosPublish fails c pk)
    then show "simulates D (runQosOp D q (Some s)) (specQosOp q Q)"
      using s by (auto simp: OnQosPublish_def abstractQueue_publish [OF assms(1) s(2)]
        intro!: simulatesI inflight_ok_queueMessage [OF assms(1) s(2)])
  next
    case (QosComplete fails c p)
    then show "simulates D (runQosOp D q (Some s)) (specQosOp q Q)"
      using s by (auto simp: OnQosComplete_def deleteRecord_def abstractQueue_complete [OF assms(1) s(2)]
        intro!: simulatesI inflight_ok_delete [OF assms(1) s(2)])
  next
    case (QosDropped fails c p)
    then show "simulates D (runQosOp D q (Some s)) (specQosOp q Q)"
      using s by (auto simp: OnQosDropped_def deleteRecord_def abstractQueue_complete [OF assms(1) s(2)]
        intro!: simulatesI inflight_ok_delete [OF assms(1) s(2)])
  next
    case (ClientExpired fails c)
    then show "simulates D (runQosOp D q (Some s)) (specQosOp q Q)"
      using s assms(3) by (auto simp: storeClientExpired_def dropClient_def Let_def
        abstractQueue_expired [OF assms(1) s(2)]
        intro!: simulatesI inflight_ok_deletePrefix [OF assms(1) s(2)])
  qed
qed

lemma simulates_trace:
  assumes "bolt_laws D" "simulates D st Q" "\<forall>q \<in> set ops. keySep \<notin> set (qosClient q)"
  shows "simulates D (fold (runQosOp D) ops st) (fold specQosOp ops Q)"
  using assms(2,3)
proof (induction ops arbitrary: st Q)
  case (Cons q ops)
  from Cons.prems have "simulates D (runQosOp D q st) (specQosOp q Q)"
    by (intro simulates_step [OF assms(1)]) simp_all
  from Cons.IH [OF this] Cons.prems(2) show ?case by simp
qed simp

lemma simulates_empty:
  assumes "bolt_laws D" "bItems D (ss_inflight s) = []"
  shows "simulates D (Some s) (\<lambda>c. [])"
proof (rule simulatesI)
  have "bGet D (ss_inflight s) k = None" for k
    by (simp flip: bolt_items(1) [OF assms(1)] add: assms(2))
  then show "inflight_ok D (ss_inflight s)" by (simp add: inflight_ok_def)
qed (simp add: abstractQueue_def queue_def messages_def assms(2))

text \<open>C4. A restart replays what was queued: after any sequence of QoS publishes, completions, drops
  and client expiries on an initially empty inflight bucket, some of their transactions failing, the
  restore hook succeeds, hands back for each client exactly the unexpired messages of its abstract
  FIFO queue (a resend replaced in place, completed ones gone) in queue order, and gives them
  strictly increasing Created stamps; nothing else of a message changes.\<close>

theorem restart_replays_queues:
  assumes "bolt_laws D" "bItems D (ss_inflight s) = []" "\<forall>q \<in> set ops. keySep \<notin> set (qosClient q)"
  shows "\<exists>ms st. StoredInflightMessages D False now (fold (runQosOp D) ops (Some s)) = (Inr ms, st) \<and>
    (\<forall>c. keySep \<notin> set c \<longrightarrow>
      map timeless (filter (\<lambda>m. msg_Client m = c) ms) =
        map (timeless \<circ> sm_Message) (filter (\<lambda>r. \<not> expired now r) (fold specQosOp ops (\<lambda>c. []) c)) \<and>
      sorted_wrt (<) (map msg_Created (filter (\<lambda>m. msg_Client m = c) ms)))"
proof -
  obtain s' where s': "fold (runQosOp D) ops (Some s) = Some s'" "inflight_ok D (ss_inflight s')"
    "\<And>c. keySep \<notin> set c \<Longrightarrow> abstractQueue D (ss_inflight s') c = fold specQosOp ops (\<lambda>c. []) c"
    using simulates_trace [OF assms(1) simulates_empty [OF assms(1,2)] assms(3)] unfolding simulates_def by blast
  obtain ms st where r: "StoredInflightMessages D False now (Some s') = (Inr ms, st)"
    "\<And>c. filter (\<lambda>m. msg_Client m = c) ms =
      clampCreated None (filter (\<lambda>r. \<not> expired now r) (queue D (ss_inflight s') c))"
    using restart_queue [OF assms(1) s'(2)] by metis
  have "map (timeless \<circ> sm_Message) (filter (\<lambda>r. \<not> expired now r) (queue D (ss_inflight s') c)) =
      map (timeless \<circ> sm_Message) (filter (\<lambda>r. \<not> expired now r) (abstractQueue D (ss_inflight s') c))" for c
    by (simp add: abstractQueue_def filter_map o_def expired_def unsequenced_def)
  with s'(3) r have "keySep \<notin> set c \<longrightarrow>
      map timeless (filter (\<lambda>m. msg_Client m = c) ms) =
        map (timeless \<circ> sm_Message) (filter (\<lambda>r. \<not> expired now r) (fold specQosOp ops (\<lambda>c. []) c)) \<and>
      sorted_wrt (<) (map msg_Created (filter (\<lambda>m. msg_Client m = c) ms))" for c
    by (simp add: clampCreated_timeless clampCreated_increasing)
  with s'(1) r(1) show ?thesis by auto
qed

section \<open>A concrete database\<close>

text \<open>Association lists with a counter satisfy the laws.\<close>

definition sampleBolt :: "((string \<times> stored) list \<times> nat) bolt" where
  "sampleBolt = \<lparr>bGet = (\<lambda>b. map_of (fst b)),
     bPut = (\<lambda>b k v. (AList.update k v (fst b), snd b)),
     bDelete = (\<lambda>b k. (AList.delete k (fst b), snd b)),
     bItems = (\<lambda>b. sort_key fst (AList.clearjunk (fst b))),
     bSequence = snd, bNextSequence = (\<lambda>b. (Suc (snd b), (fst b, Suc (snd b))))\<rparr>"

lemma sampleBolt_laws: "bolt_laws sampleBolt"
proof -
  have d: "distinct (map fst (sort_key fst (AList.clearjunk xs)))" for xs :: "(string \<times> stored) list"
    by (simp add: distinct_map distinct_clearjunk) (metis distinct_clearjunk distinct_map)
  have "map_of (sort_key fst (AList.clearjunk xs)) = map_of xs" for xs :: "(string \<times> stored) list"
    using map_of_inject_set [OF d distinct_clearjunk, of xs xs] by (simp add: map_of_clearjunk)
  with d show ?thesis
    by (simp add: bolt_laws_def sampleBolt_def update_conv' delete_conv')
qed

definition samplePacket :: "16 word \<Rightarrow> string \<Rightarrow> int \<Rightarrow> wirePacket" where
  "samplePacket p topic created =
    \<lparr>wp_Origin = ''realm/dev'', wp_TopicName = topic, wp_Payload = [], wp_Created = created,
     wp_PacketID = p, wp_FixedHeader = \<lparr>fh_Type = 3, fh_Qos = 1, fh_Retain = False, fh_Dup = False\<rparr>,
     wp_Properties = \<lparr>mp_PayloadFormat = 0, mp_PayloadFormatFlag = False, mp_MessageExpiryInterval = 0,
       mp_ContentType = [], mp_ResponseTopic = [], mp_CorrelationData = [], mp_User = []\<rparr>,
     wp_Filters = [], wp_Expiry = 0, wp_ProtocolVersion = 4\<rparr>"

definition sampleStore :: "((string \<times> stored) list \<times> nat) sessionStore" where
  "sampleStore = \<lparr>ss_clients = ([], 0), ss_subscriptions = ([], 0), ss_inflight = ([], 0), ss_retained = ([], 0)\<rparr>"

definition sampleOps :: "qosOp list" where
  "sampleOps = [QosPublish False ''d'' (samplePacket 2 ''t1'' 7), QosPublish False ''d'' (samplePacket 1 ''t2'' 7),
     QosPublish False ''e'' (samplePacket 1 ''t3'' 7), QosPublish False ''d'' (samplePacket 2 ''t1'' 7),
     QosPublish True ''d'' (samplePacket 3 ''t4'' 8), QosComplete False ''e'' 1, QosPublish False ''d'' (samplePacket 5 ''t5'' 9)]"

theorem restart_replays_queues_witness:
  "\<exists>ms st. StoredInflightMessages sampleBolt False 0 (fold (runQosOp sampleBolt) sampleOps (Some sampleStore)) = (Inr ms, st) \<and>
    map msg_TopicName (filter (\<lambda>m. msg_Client m = ''d'') ms) = [''t1'', ''t2'', ''t5''] \<and>
    sorted_wrt (<) (map msg_Created (filter (\<lambda>m. msg_Client m = ''d'') ms))"
proof -
  have e: "bItems sampleBolt (ss_inflight sampleStore) = []" by code_simp
  have c: "\<forall>q \<in> set sampleOps. keySep \<notin> set (qosClient q)" by code_simp
  have d: "keySep \<notin> set ''d''" by code_simp
  have q: "map (msg_TopicName \<circ> timeless \<circ> sm_Message) (filter (\<lambda>r. \<not> expired 0 r) (fold specQosOp sampleOps (\<lambda>c. []) ''d''))
      = [''t1'', ''t2'', ''t5'']" by code_simp
  obtain ms st where r: "StoredInflightMessages sampleBolt False 0 (fold (runQosOp sampleBolt) sampleOps (Some sampleStore)) = (Inr ms, st)"
    "map timeless (filter (\<lambda>m. msg_Client m = ''d'') ms) =
        map (timeless \<circ> sm_Message) (filter (\<lambda>r. \<not> expired 0 r) (fold specQosOp sampleOps (\<lambda>c. []) ''d''))"
    "sorted_wrt (<) (map msg_Created (filter (\<lambda>m. msg_Client m = ''d'') ms))"
    using restart_replays_queues [OF sampleBolt_laws e c, of 0] d by blast
  have "map msg_TopicName (filter (\<lambda>m. msg_Client m = ''d'') ms) =
      map msg_TopicName (map timeless (filter (\<lambda>m. msg_Client m = ''d'') ms))"
    by (simp add: timeless_def)
  also have "\<dots> = [''t1'', ''t2'', ''t5'']" unfolding r(2) using q by (simp add: o_assoc)
  finally have t: "map msg_TopicName (filter (\<lambda>m. msg_Client m = ''d'') ms) = [''t1'', ''t2'', ''t5'']" .
  show ?thesis by (intro exI conjI) (rule r(1) t r(3))+
qed

end
