(* ===== verification/Go_Float.thy ===== *)
theory Go_Float
  imports Go_Prelude
begin

text \<open>
  The type float64 as its IEEE 754 bit pattern: classification, the comparisons of the
  language, the conversion of integers (round to nearest, ties to even) and the exact integer
  value.  For patterns that are not NaN, comparing the numbers is comparing sign and magnitude
  of the patterns.
\<close>

type_synonym float64 = "64 word"

section \<open>Patterns\<close>

definition f64_neg :: "float64 \<Rightarrow> bool" where
  "f64_neg b \<longleftrightarrow> unat b \<ge> 2 ^ 63"

definition f64_magnitude :: "float64 \<Rightarrow> nat" where
  "f64_magnitude b = unat b mod 2 ^ 63"

definition f64_exponent :: "float64 \<Rightarrow> nat" where
  "f64_exponent b = f64_magnitude b div 2 ^ 52"

definition f64_fraction :: "float64 \<Rightarrow> nat" where
  "f64_fraction b = unat b mod 2 ^ 52"

definition IsNaN :: "float64 \<Rightarrow> bool" where
  "IsNaN b \<longleftrightarrow> f64_magnitude b > 2047 * 2 ^ 52"

definition IsInf :: "float64 \<Rightarrow> bool" where
  "IsInf b \<longleftrightarrow> f64_magnitude b = 2047 * 2 ^ 52"

text \<open>The order key: both zeros are 0.\<close>

definition f64_key :: "float64 \<Rightarrow> int" where
  "f64_key b = (if f64_neg b then - int (f64_magnitude b) else int (f64_magnitude b))"

definition f64_eq :: "float64 \<Rightarrow> float64 \<Rightarrow> bool" where
  "f64_eq a b \<longleftrightarrow> \<not> IsNaN a \<and> \<not> IsNaN b \<and> f64_key a = f64_key b"

definition f64_less :: "float64 \<Rightarrow> float64 \<Rightarrow> bool" where
  "f64_less a b \<longleftrightarrow> \<not> IsNaN a \<and> \<not> IsNaN b \<and> f64_key a < f64_key b"

definition f64_le :: "float64 \<Rightarrow> float64 \<Rightarrow> bool" where
  "f64_le a b \<longleftrightarrow> \<not> IsNaN a \<and> \<not> IsNaN b \<and> f64_key a \<le> f64_key b"

section \<open>Conversion of integers\<close>

fun bitlen :: "nat \<Rightarrow> nat" where
  "bitlen n = (if n = 0 then 0 else Suc (bitlen (n div 2)))"

declare bitlen.simps [simp del]

text \<open>The 53-bit significand of a positive integer, rounded to nearest even.\<close>

definition f64_significand :: "nat \<Rightarrow> nat" where
  "f64_significand m =
    (let k = bitlen m
     in if k \<le> 53 then m * 2 ^ (53 - k)
        else (let q = m div 2 ^ (k - 53); r = m mod 2 ^ (k - 53); half = 2 ^ (k - 54)
              in if r > half \<or> r = half \<and> odd q then q + 1 else q))"

definition f64_of_nat :: "nat \<Rightarrow> nat" where
  "f64_of_nat m = (if m = 0 then 0 else (bitlen m + 1021) * 2 ^ 52 + f64_significand m)"

text \<open>float64(i) for an integer of at most 64 bits.\<close>

definition f64_of_int :: "int \<Rightarrow> float64" where
  "f64_of_int i = (if i < 0 then word_of_nat (2 ^ 63 + f64_of_nat (nat (- i))) else word_of_nat (f64_of_nat (nat i)))"

text \<open>The integer a pattern denotes, if it denotes one: math.Trunc(f) == f with its value.\<close>

definition f64_int :: "float64 \<Rightarrow> int option" where
  "f64_int b =
    (let e = f64_exponent b; s = f64_fraction b + (if e = 0 then 0 else 2 ^ 52);
         sgn = (if f64_neg b then - 1 else 1)
     in if e = 2047 then None
        else if e \<ge> 1075 then Some (sgn * int (s * 2 ^ (e - 1075)))
        else if s mod 2 ^ (1075 - max 1 e) = 0 then Some (sgn * int (s div 2 ^ (1075 - max 1 e)))
        else None)"

section \<open>Exactness up to 53 bits\<close>

lemma bitlen_bounds: "0 < n \<Longrightarrow> 2 ^ (bitlen n - 1) \<le> n \<and> n < 2 ^ bitlen n \<and> 0 < bitlen n"
proof (induction n rule: bitlen.induct)
  case (1 n)
  show ?case
  proof (cases "n div 2 = 0")
    case True
    with 1 have "n = 1" by linarith
    then show ?thesis by (simp add: bitlen.simps)
  next
    case False
    with 1 have IH: "2 ^ (bitlen (n div 2) - 1) \<le> n div 2" "n div 2 < 2 ^ bitlen (n div 2)" "0 < bitlen (n div 2)"
      by simp_all
    then obtain k where k: "bitlen (n div 2) = Suc k" using gr0_implies_Suc by blast
    have "bitlen n = Suc (Suc k)" using 1 k by (simp add: bitlen.simps [of n])
    with IH k show ?thesis by simp linarith
  qed
qed

lemma bitlen_unique: "2 ^ k \<le> n \<Longrightarrow> n < 2 ^ Suc k \<Longrightarrow> bitlen n = Suc k"
proof -
  assume h: "2 ^ k \<le> n" "n < 2 ^ Suc k"
  then have p: "0 < n" by (metis gr0I not_le zero_less_numeral zero_less_power)
  from bitlen_bounds [OF p] have b: "2 ^ (bitlen n - 1) \<le> n" "n < 2 ^ bitlen n" "0 < bitlen n" by auto
  have "k < bitlen n" using h(1) b(2) by (metis le_less_trans power_less_imp_less_exp one_less_numeral_iff semiring_norm(76))
  moreover have "bitlen n - 1 < Suc k"
    using h(2) b(1) by (metis le_less_trans power_less_imp_less_exp one_less_numeral_iff semiring_norm(76))
  ultimately show ?thesis using b(3) by linarith
qed

lemma bitlen_mono53: "0 < m \<Longrightarrow> m < 2 ^ 53 \<Longrightarrow> bitlen m \<le> 53"
  using bitlen_bounds [of m]
  by (metis One_nat_def Suc_pred le_less_trans less_eq_Suc_le not_less power_less_imp_less_exp one_less_numeral_iff semiring_norm(76))

lemma significand_exact:
  assumes "0 < m" "m < 2 ^ 53"
  shows "f64_significand m = m * 2 ^ (53 - bitlen m)" "2 ^ 52 \<le> f64_significand m" "f64_significand m < 2 ^ 53"
proof -
  from bitlen_mono53 [OF assms] have k: "bitlen m \<le> 53" .
  then show s: "f64_significand m = m * 2 ^ (53 - bitlen m)" by (simp add: f64_significand_def Let_def)
  from bitlen_bounds [OF assms(1)] have b: "2 ^ (bitlen m - 1) \<le> m" "m < 2 ^ bitlen m" "0 < bitlen m" by auto
  have "(2::nat) ^ 52 = 2 ^ (bitlen m - 1) * 2 ^ (53 - bitlen m)" using k b(3) by (simp flip: power_add)
  also have "\<dots> \<le> f64_significand m" unfolding s using b(1) by (intro mult_right_mono) simp_all
  finally show "2 ^ 52 \<le> f64_significand m" .
  have "f64_significand m < 2 ^ bitlen m * 2 ^ (53 - bitlen m)" unfolding s using b(2) by (intro mult_strict_right_mono) simp_all
  also have "\<dots> = 2 ^ 53" using k by (simp flip: power_add)
  finally show "f64_significand m < 2 ^ 53" .
qed

lemma bitlen_mono: "m \<le> n \<Longrightarrow> bitlen m \<le> bitlen n"
proof (induction n arbitrary: m rule: bitlen.induct)
  case (1 n)
  show ?case
  proof (cases "m = 0")
    case False
    then have "bitlen (m div 2) \<le> bitlen (n div 2)" using 1 by (simp add: div_le_mono)
    with False 1 show ?thesis by (simp add: bitlen.simps [of m] bitlen.simps [of n])
  qed (simp add: bitlen.simps)
qed

lemma f64_of_nat_strict:
  assumes "m < n" "n < 2 ^ 53"
  shows "f64_of_nat m < f64_of_nat n"
proof (cases "m = 0")
  case True
  then show ?thesis using assms by (simp add: f64_of_nat_def)
next
  case False
  note sm = significand_exact [of m] and sn = significand_exact [of n]
  consider "bitlen m = bitlen n" | "Suc (bitlen m) \<le> bitlen n" using bitlen_mono [of m n] assms(1) by linarith
  then show ?thesis
  proof cases
    case 1
    then have "f64_significand m < f64_significand n" using sm(1) sn(1) False assms by simp
    with 1 False assms(1) show ?thesis by (simp add: f64_of_nat_def)
  next
    case 2
    then obtain d where "bitlen n = Suc (bitlen m) + d" using le_Suc_ex by blast
    with sm(3) sn(2) False assms show ?thesis by (simp add: f64_of_nat_def)
  qed
qed

lemma f64_of_nat_bound: "n < 2 ^ 53 \<Longrightarrow> f64_of_nat n < 2047 * 2 ^ 52"
  using significand_exact(3) [of n] bitlen_mono53 [of n] by (cases "n = 0") (auto simp: f64_of_nat_def)

lemma f64_of_int_parts:
  assumes "\<bar>i\<bar> < 2 ^ 53"
  shows "f64_neg (f64_of_int i) \<longleftrightarrow> i < 0" "f64_magnitude (f64_of_int i) = f64_of_nat (nat \<bar>i\<bar>)"
proof -
  have b: "f64_of_nat (nat \<bar>i\<bar>) < 2047 * 2 ^ 52" using assms by (intro f64_of_nat_bound) (simp add: nat_less_iff)
  then have u: "unat (f64_of_int i) = (if i < 0 then 2 ^ 63 else 0) + f64_of_nat (nat \<bar>i\<bar>)"
  proof -
    have w: "n < 2 ^ 64 \<Longrightarrow> unat (word_of_nat n :: 64 word) = n" for n
      by (simp add: unsigned_of_nat take_bit_eq_mod)
    show ?thesis
    proof (cases "i < 0")
      case True
      with b show ?thesis unfolding f64_of_int_def if_P [OF True] by (subst w) auto
    next
      case False
      with b show ?thesis unfolding f64_of_int_def if_not_P [OF False] by (subst w) auto
    qed
  qed
  show "f64_neg (f64_of_int i) \<longleftrightarrow> i < 0" "f64_magnitude (f64_of_int i) = f64_of_nat (nat \<bar>i\<bar>)"
    using b unfolding f64_neg_def f64_magnitude_def u by (cases "i < 0"; simp only: if_True if_False; simp)+
qed

lemma f64_of_int_not_nan: "\<bar>i\<bar> < 2 ^ 53 \<Longrightarrow> \<not> IsNaN (f64_of_int i)"
  using f64_of_nat_bound [of "nat \<bar>i\<bar>"] by (simp add: IsNaN_def f64_of_int_parts nat_less_iff)

lemma f64_key_of_int:
  "\<bar>i\<bar> < 2 ^ 53 \<Longrightarrow> f64_key (f64_of_int i) = (if i < 0 then - int (f64_of_nat (nat (- i))) else int (f64_of_nat (nat i)))"
  by (simp add: f64_key_def f64_of_int_parts)

lemma f64_key_of_int_less:
  assumes "\<bar>i\<bar> < 2 ^ 53" "\<bar>j\<bar> < 2 ^ 53" "i < j"
  shows "f64_key (f64_of_int i) < f64_key (f64_of_int j)"
proof -
  have z: "0 < n \<Longrightarrow> 0 < f64_of_nat n" for n by (simp add: f64_of_nat_def)
  consider "0 \<le> i" | "j < 0" | "i < 0" "0 \<le> j" by linarith
  then show ?thesis
  proof cases
    case 1
    then show ?thesis using assms f64_of_nat_strict [of "nat i" "nat j"] by (simp add: f64_key_of_int)
  next
    case 2
    then show ?thesis using assms f64_of_nat_strict [of "nat (- j)" "nat (- i)"] by (simp add: f64_key_of_int)
  next
    case 3
    then show ?thesis using assms z [of "nat (- i)"] by (simp add: f64_key_of_int)
  qed
qed

text \<open>On integers below 2^53 in magnitude the comparisons of the language are those of the
  integers.\<close>

lemma f64_compare_int:
  assumes "\<bar>i\<bar> < 2 ^ 53" "\<bar>j\<bar> < 2 ^ 53"
  shows "f64_less (f64_of_int i) (f64_of_int j) \<longleftrightarrow> i < j"
    and "f64_le (f64_of_int i) (f64_of_int j) \<longleftrightarrow> i \<le> j"
    and "f64_eq (f64_of_int i) (f64_of_int j) \<longleftrightarrow> i = j"
proof -
  have "f64_key (f64_of_int i) < f64_key (f64_of_int j) \<longleftrightarrow> i < j"
    "f64_key (f64_of_int i) = f64_key (f64_of_int j) \<longleftrightarrow> i = j"
    using f64_key_of_int_less [OF assms] f64_key_of_int_less [OF assms(2,1)]
    by (cases i j rule: linorder_cases; force)+
  with assms show "f64_less (f64_of_int i) (f64_of_int j) \<longleftrightarrow> i < j"
    "f64_le (f64_of_int i) (f64_of_int j) \<longleftrightarrow> i \<le> j" "f64_eq (f64_of_int i) (f64_of_int j) \<longleftrightarrow> i = j"
    by (auto simp: f64_less_def f64_le_def f64_eq_def f64_of_int_not_nan order_le_less)
qed

end
