(* ===== verification/Go_Utf8.thy ===== *)
theory Go_Utf8
  imports Go_Prelude
begin

text \<open>
  The part of the packages unicode/utf8 and strings the sources use on texts: the width of the
  first rune of a byte string, rune counting, validity, substring search, and the ASCII part of
  lower and upper casing and of trimming.
\<close>

section \<open>Runes\<close>

definition byteIn :: "nat \<Rightarrow> nat \<Rightarrow> char \<Rightarrow> bool" where
  "byteIn lo hi c \<longleftrightarrow> lo \<le> of_char c \<and> of_char c \<le> hi"

definition isCont :: "char \<Rightarrow> bool" where
  "isCont = byteIn 0x80 0xBF"

text \<open>The number of bytes of a well-formed first rune; None for an ill-formed one, which the
  package treats as one byte.\<close>

fun runeWidth :: "string \<Rightarrow> nat option" where
  "runeWidth [] = None"
| "runeWidth (a # cs) =
    (if byteIn 0 0x7F a then Some 1
     else if byteIn 0xC2 0xDF a then
       (case cs of b # _ \<Rightarrow> if isCont b then Some 2 else None | _ \<Rightarrow> None)
     else if byteIn 0xE0 0xEF a then
       (case cs of b # c # _ \<Rightarrow>
          if byteIn (if byteIn 0xE0 0xE0 a then 0xA0 else 0x80) (if byteIn 0xED 0xED a then 0x9F else 0xBF) b \<and> isCont c
          then Some 3 else None
        | _ \<Rightarrow> None)
     else if byteIn 0xF0 0xF4 a then
       (case cs of b # c # d # _ \<Rightarrow>
          if byteIn (if byteIn 0xF0 0xF0 a then 0x90 else 0x80) (if byteIn 0xF4 0xF4 a then 0x8F else 0xBF) b
            \<and> isCont c \<and> isCont d
          then Some 4 else None
        | _ \<Rightarrow> None)
     else None)"

definition runeStep :: "string \<Rightarrow> nat" where
  "runeStep s = (case runeWidth s of Some (Suc n) \<Rightarrow> Suc n | _ \<Rightarrow> 1)"

lemma runeStep_pos: "0 < runeStep s"
  by (auto simp: runeStep_def split: option.splits nat.splits)

function RuneCount :: "string \<Rightarrow> nat" where
  "RuneCount s = (if s = [] then 0 else Suc (RuneCount (drop (runeStep s) s)))"
  by auto
termination
  by (relation "measure length") (auto simp: runeStep_pos)

declare RuneCount.simps [simp del]

function ValidString :: "string \<Rightarrow> bool" where
  "ValidString s = (if s = [] then True else if runeWidth s = None then False else ValidString (drop (runeStep s) s))"
  by auto
termination
  by (relation "measure length") (auto simp: runeStep_pos)

declare ValidString.simps [simp del]

section \<open>Package strings on texts\<close>

definition Contains :: "string \<Rightarrow> string \<Rightarrow> bool" where
  "Contains s sub = list_ex (\<lambda>i. HasPrefix (drop i s) sub) [0..<Suc (length s)]"

definition ToLower :: "string \<Rightarrow> string" where
  "ToLower = map (\<lambda>c. if CHR ''A'' \<le> c \<and> c \<le> CHR ''Z'' then char_of (of_char c + 32 :: nat) else c)"

definition ToUpper :: "string \<Rightarrow> string" where
  "ToUpper = map (\<lambda>c. if CHR ''a'' \<le> c \<and> c \<le> CHR ''z'' then char_of (of_char c - 32 :: nat) else c)"

definition isSpace :: "char \<Rightarrow> bool" where
  "isSpace c \<longleftrightarrow> c \<in> {CHR '' '', CHR 0x09, CHR 0x0A, CHR 0x0B, CHR 0x0C, CHR 0x0D}"

definition TrimSpace :: "string \<Rightarrow> string" where
  "TrimSpace s = rev (dropWhile isSpace (rev (dropWhile isSpace s)))"

section \<open>Laws\<close>

lemma Contains_iff: "Contains s sub \<longleftrightarrow> (\<exists>a b. s = a @ sub @ b)"
proof
  assume "Contains s sub"
  then obtain i where "HasPrefix (drop i s) sub" unfolding Contains_def list_ex_iff by blast
  then obtain b where "drop i s = sub @ b" by (auto simp: HasPrefix_iff)
  then have "s = take i s @ sub @ b" by (metis append_take_drop_id)
  then show "\<exists>a b. s = a @ sub @ b" by blast
next
  assume "\<exists>a b. s = a @ sub @ b"
  then obtain a b where s: "s = a @ sub @ b" by blast
  have "HasPrefix (drop (length a) s) sub" by (simp add: s)
  moreover have "length a \<in> set [0..<Suc (length s)]" by (simp add: s)
  ultimately show "Contains s sub" unfolding Contains_def list_ex_iff by blast
qed

lemma Contains_char: "Contains s [c] \<longleftrightarrow> c \<in> set s"
  by (auto simp: Contains_iff in_set_conv_decomp)

lemma RuneCount_le: "RuneCount s \<le> length s"
proof (induction s rule: RuneCount.induct)
  case (1 s)
  show ?case
  proof (cases "s = []")
    case False
    with 1 have "RuneCount (drop (runeStep s) s) \<le> length s - runeStep s" by simp
    with False runeStep_pos [of s] show ?thesis by (cases s) (auto simp: RuneCount.simps)
  qed (simp add: RuneCount.simps)
qed

end
