(* ===== verification/Payload_Value.thy ===== *)
theory Payload_Value
  imports Schema_Types Device_Id Go_Float Go_Utf8
begin

text \<open>
  Model of pkg/payload/value.go and of the parts of strconv and encoding/base64 the codec uses: the
  closed set of payload values, reject reasons, the coercion table and the array collectors.  A time
  is in nanoseconds since the Unix epoch.  The detail text of a rejection is left out; annotate only
  prefixes it.
\<close>

section \<open>Values\<close>

text \<open>The Go values the codec and the JSON decoder put into an interface value.\<close>

datatype dyn =
    ANil
  | AFloat float64
  | AInt32 "32 word"
  | AInt64 int64
  | AInt int
  | ABool bool
  | AString string
  | ABytes "byte list"
  | ATime int
  | AFloats "float64 list"
  | AInt32s "32 word list"
  | AInt64s "int64 list"
  | ABools "bool list"
  | AStrings "string list"
  | ABytess "byte list list"
  | ATimes "int list"
  | AList "dyn list"
  | AMap "(string \<times> dyn) list"

datatype Format = FormatInvalid | FormatEmpty | FormatBSON | FormatJSON

fun Format_String :: "Format \<Rightarrow> string" where
  "Format_String FormatInvalid = ''invalid''"
| "Format_String FormatEmpty = ''empty''"
| "Format_String FormatBSON = ''bson''"
| "Format_String FormatJSON = ''json''"

record DecodedPayload =
  dp_Value :: dyn
  dp_Timestamp :: "int option"
  dp_Format :: Format

definition IsUnset :: "DecodedPayload \<Rightarrow> bool" where
  "IsUnset d = (dp_Value d = ANil)"

definition DefaultMaxSize :: int where "DefaultMaxSize = 65536"
definition MaxStringLen :: nat where "MaxStringLen = 65536"
definition MaxArrayLen :: nat where "MaxArrayLen = 1024"

text \<open>0001-01-01T00:00:00Z and 9999-12-31T23:59:59.999Z in milliseconds and nanoseconds.\<close>

definition minDateTimeMillis :: int where "minDateTimeMillis = - 62135596800000"
definition maxDateTimeMillis :: int where "maxDateTimeMillis = 253402300799999"
definition MinDateTime :: int where "MinDateTime = minDateTimeMillis * 1000000"
definition MaxDateTime :: int where "MaxDateTime = maxDateTimeMillis * 1000000"

section \<open>Rejections\<close>

datatype RejectReason =
    ReasonTooLarge
  | ReasonUnknownFormat
  | ReasonMalformed
  | ReasonNoValue
  | ReasonBadTimestamp
  | ReasonTypeMismatch
  | ReasonValueTooLarge
  | ReasonBadObject
  | ReasonUnsetNotAllowed
  | ReasonMissingRequired

definition RejectReasons :: "RejectReason list" where
  "RejectReasons = [ReasonTooLarge, ReasonUnknownFormat, ReasonMalformed, ReasonNoValue, ReasonBadTimestamp,
     ReasonTypeMismatch, ReasonValueTooLarge, ReasonBadObject, ReasonUnsetNotAllowed, ReasonMissingRequired]"

definition rejectReasonLabels :: "string list" where
  "rejectReasonLabels = [''too_large'', ''unknown_format'', ''malformed'', ''no_value'', ''bad_timestamp'',
     ''type_mismatch'', ''value_too_large'', ''bad_object'', ''unset_not_allowed'', ''missing_required'']"

definition RejectReason_String :: "RejectReason \<Rightarrow> string" where
  "RejectReason_String r = the (map_of (zip RejectReasons rejectReasonLabels) r)"

text \<open>The errors of the package: a rejection, an error without reason (a bug of the caller), and the
  panic of a failed type assertion.\<close>

datatype payload_error =
    RejectError RejectReason
  | PlainError
  | AssertionPanic

fun ReasonOf :: "payload_error \<Rightarrow> RejectReason option" where
  "ReasonOf (RejectError r) = Some r"
| "ReasonOf _ = None"

abbreviation rejectf :: "RejectReason \<Rightarrow> payload_error + 'a" where
  "rejectf r \<equiv> Inl (RejectError r)"

section \<open>Number texts\<close>

datatype parsedInt = IntOk int | IntRange | IntSyntax

definition ParseInt :: "string \<Rightarrow> parsedInt" where
  "ParseInt s =
    (let signed = (s \<noteq> [] \<and> (hd s = CHR ''-'' \<or> hd s = CHR ''+''));
         ds = (if signed then tl s else s);
         v = (if s \<noteq> [] \<and> hd s = CHR ''-'' then - int (digits_val ds) else int (digits_val ds))
     in if ds = [] \<or> \<not> list_all is_digit ds then IntSyntax
        else if - (2 ^ 63) \<le> v \<and> v < 2 ^ 63 then IntOk v else IntRange)"

text \<open>A JSON number literal as sign, digits and decimal exponent.\<close>

definition parseExponent :: "string \<Rightarrow> int option" where
  "parseExponent s =
    (if s = [] then Some 0
     else if hd s \<noteq> CHR ''e'' \<and> hd s \<noteq> CHR ''E'' then None
     else (case ParseInt (tl s) of IntOk e \<Rightarrow> Some e | _ \<Rightarrow> None))"

definition parseDecimal :: "string \<Rightarrow> (bool \<times> nat \<times> int) option" where
  "parseDecimal s =
    (let neg = (s \<noteq> [] \<and> hd s = CHR ''-'');
         s1 = (if neg then tl s else s);
         ip = takeWhile is_digit s1;
         s2 = dropWhile is_digit s1;
         point = (s2 \<noteq> [] \<and> hd s2 = CHR ''.'');
         fp = (if point then takeWhile is_digit (tl s2) else []);
         s3 = (if point then dropWhile is_digit (tl s2) else s2)
     in if ip = [] \<or> (point \<and> fp = []) then None
        else map_option (\<lambda>e. (neg, digits_val (ip @ fp), e - int (length fp))) (parseExponent s3))"

text \<open>The magnitude of the float64 nearest to n / d, ties to even; None when it overflows.\<close>

definition ratio_exponent :: "nat \<Rightarrow> nat \<Rightarrow> int" where
  "ratio_exponent n d =
    (let l = int (bitlen n) - int (bitlen d) - 1;
         up = (if l + 1 \<ge> 0 then d * 2 ^ nat (l + 1) \<le> n else d \<le> n * 2 ^ nat (- (l + 1)))
     in max ((if up then l + 1 else l) - 52) (- 1074))"

definition f64_of_ratio :: "nat \<Rightarrow> nat \<Rightarrow> nat option" where
  "f64_of_ratio n d =
    (if n = 0 then Some 0
     else
       (let k = ratio_exponent n d;
            num = (if k \<ge> 0 then n else n * 2 ^ nat (- k));
            den = (if k \<ge> 0 then d * 2 ^ nat k else d);
            q = num div den;
            r = num mod den;
            q' = (if 2 * r > den \<or> 2 * r = den \<and> odd q then q + 1 else q);
            bits = nat (k + 1074) * 2 ^ 52 + q'
        in if bits \<ge> 2047 * 2 ^ 52 then None else Some bits))"

definition ParseFloat :: "string \<Rightarrow> float64 option" where
  "ParseFloat s =
    (case parseDecimal s of
       None \<Rightarrow> None
     | Some (neg, digits, e) \<Rightarrow>
         map_option (\<lambda>m. word_of_nat ((if neg then 2 ^ 63 else 0) + m))
           (if e \<ge> 0 then f64_of_ratio (digits * 10 ^ nat e) 1 else f64_of_ratio digits (10 ^ nat (- e))))"

section \<open>base64.StdEncoding\<close>

definition toStd :: "char \<Rightarrow> char" where
  "toStd c = (if c = CHR ''-'' then CHR ''+'' else if c = CHR ''_'' then CHR ''/'' else c)"

definition fromStd :: "char \<Rightarrow> char" where
  "fromStd c = (if c = CHR ''+'' then CHR ''-'' else if c = CHR ''/'' then CHR ''_'' else c)"

definition stdPad :: "nat \<Rightarrow> nat" where
  "stdPad n = (if n mod 3 = 0 then 0 else 3 - n mod 3)"

definition stdEncode :: "byte list \<Rightarrow> string" where
  "stdEncode bs = map toStd (b64Encode bs) @ replicate (stdPad (length bs)) CHR ''=''"

text \<open>StdEncoding.Strict: line breaks are skipped, the padding is mandatory and the unused bits are
  zero.\<close>

definition stdDecodeStrict :: "string \<Rightarrow> byte list option" where
  "stdDecodeStrict s =
    (let t = filter (\<lambda>c. c \<noteq> CHR 0x0A \<and> c \<noteq> CHR 0x0D) s;
         body = takeWhile (\<lambda>c. c \<noteq> CHR ''='') t;
         pad = dropWhile (\<lambda>c. c \<noteq> CHR ''='') t
     in if length t mod 4 \<noteq> 0 \<or> length pad > 2 \<or> \<not> list_all (\<lambda>c. c = CHR ''='') pad then None
        else if CHR ''-'' \<in> set body \<or> CHR ''_'' \<in> set body then None
        else b64Decode (map fromStd body))"

section \<open>Coercions\<close>

definition checkDouble :: "float64 \<Rightarrow> payload_error + float64" where
  "checkDouble f = (if IsNaN f \<or> IsInf f then rejectf ReasonTypeMismatch else Inr f)"

text \<open>The comparisons with math.Trunc and the bounds are on the integer a pattern denotes: a pattern
  that denotes none is fractional, infinite or not a number, and all of them are refused.\<close>

definition doubleFromInt64 :: "int64 \<Rightarrow> payload_error + float64" where
  "doubleFromInt64 i =
    (let f = f64_of_int (sint i)
     in case f64_int f of
          None \<Rightarrow> rejectf ReasonTypeMismatch
        | Some j \<Rightarrow> if j < - (2 ^ 63) \<or> j \<ge> 2 ^ 63 \<or> j \<noteq> sint i then rejectf ReasonTypeMismatch else Inr f)"

definition int32FromInt64 :: "int64 \<Rightarrow> payload_error + 32 word" where
  "int32FromInt64 i =
    (if sint i < - (2 ^ 31) \<or> sint i > 2 ^ 31 - 1 then rejectf ReasonTypeMismatch else Inr (word_of_int (sint i)))"

definition int32FromFloat64 :: "float64 \<Rightarrow> payload_error + 32 word" where
  "int32FromFloat64 f =
    (case f64_int f of
       None \<Rightarrow> rejectf ReasonTypeMismatch
     | Some j \<Rightarrow> if j < - (2 ^ 31) \<or> j > 2 ^ 31 - 1 then rejectf ReasonTypeMismatch else Inr (word_of_int j))"

definition int64FromFloat64 :: "float64 \<Rightarrow> payload_error + int64" where
  "int64FromFloat64 f =
    (case f64_int f of
       None \<Rightarrow> rejectf ReasonTypeMismatch
     | Some j \<Rightarrow> if j < - (2 ^ 63) \<or> j \<ge> 2 ^ 63 then rejectf ReasonTypeMismatch else Inr (word_of_int j))"

definition checkString :: "string \<Rightarrow> payload_error + string" where
  "checkString s =
    (if length s > MaxStringLen then rejectf ReasonValueTooLarge
     else if \<not> ValidString s then rejectf ReasonTypeMismatch
     else Inr s)"

definition dateTimeFromMillis :: "int64 \<Rightarrow> payload_error + int" where
  "dateTimeFromMillis ms =
    (if sint ms < minDateTimeMillis \<or> sint ms > maxDateTimeMillis then rejectf ReasonBadTimestamp
     else Inr (sint ms * 1000000))"

definition checkDateTime :: "int \<Rightarrow> payload_error + int" where
  "checkDateTime ts =
    (if ts < MinDateTime \<or> ts > MaxDateTime then rejectf ReasonBadTimestamp
     else Inr (ts div 1000000 * 1000000))"

section \<open>Arrays\<close>

text \<open>collectArray over the results of its element callback, in order; unwrap is the type assertion.\<close>

fun collectElems :: "(dyn \<Rightarrow> 'a option) \<Rightarrow> (payload_error + dyn) list \<Rightarrow> payload_error + 'a list" where
  "collectElems unwrap [] = Inr []"
| "collectElems unwrap (r # rs) =
     bindR r (\<lambda>v. case unwrap v of
        None \<Rightarrow> Inl AssertionPanic
      | Some a \<Rightarrow> bindR (collectElems unwrap rs) (\<lambda>as. Inr (a # as)))"

definition collectArray :: "(dyn \<Rightarrow> 'a option) \<Rightarrow> (payload_error + dyn) list \<Rightarrow> payload_error + 'a list" where
  "collectArray unwrap rs =
    (if length rs > MaxArrayLen then rejectf ReasonValueTooLarge else collectElems unwrap rs)"

fun asFloat :: "dyn \<Rightarrow> float64 option" where "asFloat (AFloat f) = Some f" | "asFloat _ = None"
fun asInt32 :: "dyn \<Rightarrow> 32 word option" where "asInt32 (AInt32 i) = Some i" | "asInt32 _ = None"
fun asInt64 :: "dyn \<Rightarrow> int64 option" where "asInt64 (AInt64 i) = Some i" | "asInt64 _ = None"
fun asBool :: "dyn \<Rightarrow> bool option" where "asBool (ABool b) = Some b" | "asBool _ = None"
fun asString :: "dyn \<Rightarrow> string option" where "asString (AString s) = Some s" | "asString _ = None"
fun asBytes :: "dyn \<Rightarrow> byte list option" where "asBytes (ABytes b) = Some b" | "asBytes _ = None"
fun asTime :: "dyn \<Rightarrow> int option" where "asTime (ATime t) = Some t" | "asTime _ = None"

definition asValue :: "('a \<Rightarrow> dyn) \<Rightarrow> payload_error + 'a \<Rightarrow> payload_error + dyn" where
  "asValue wrap r = bindR r (\<lambda>a. Inr (wrap a))"

definition decodeArray :: "ValueType \<Rightarrow> (payload_error + dyn) list \<Rightarrow> payload_error + dyn" where
  "decodeArray vt rs =
    (case vt of
       DoubleArray \<Rightarrow> asValue AFloats (collectArray asFloat rs)
     | IntegerArray \<Rightarrow> asValue AInt32s (collectArray asInt32 rs)
     | BooleanArray \<Rightarrow> asValue ABools (collectArray asBool rs)
     | LongIntegerArray \<Rightarrow> asValue AInt64s (collectArray asInt64 rs)
     | StringArray \<Rightarrow> asValue AStrings (collectArray asString rs)
     | BinaryBlobArray \<Rightarrow> asValue ABytess (collectArray asBytes rs)
     | DateTimeArray \<Rightarrow> asValue ATimes (collectArray asTime rs)
     | _ \<Rightarrow> Inl PlainError)"

section \<open>What a decoded value satisfies\<close>

definition double_ok :: "float64 \<Rightarrow> bool" where "double_ok f \<longleftrightarrow> \<not> IsNaN f \<and> \<not> IsInf f"
definition string_ok :: "string \<Rightarrow> bool" where "string_ok s \<longleftrightarrow> length s \<le> MaxStringLen \<and> ValidString s"
definition time_ok :: "int \<Rightarrow> bool" where
  "time_ok t \<longleftrightarrow> MinDateTime \<le> t \<and> t \<le> MaxDateTime \<and> t mod 1000000 = 0"

definition has_type :: "ValueType \<Rightarrow> dyn \<Rightarrow> bool" where
  "has_type vt v =
    (case vt of
       Double \<Rightarrow> (case v of AFloat f \<Rightarrow> double_ok f | _ \<Rightarrow> False)
     | Integer \<Rightarrow> (case v of AInt32 i \<Rightarrow> True | _ \<Rightarrow> False)
     | LongInteger \<Rightarrow> (case v of AInt64 i \<Rightarrow> True | _ \<Rightarrow> False)
     | Boolean \<Rightarrow> (case v of ABool b \<Rightarrow> True | _ \<Rightarrow> False)
     | String \<Rightarrow> (case v of AString s \<Rightarrow> string_ok s | _ \<Rightarrow> False)
     | BinaryBlob \<Rightarrow> (case v of ABytes b \<Rightarrow> True | _ \<Rightarrow> False)
     | DateTime \<Rightarrow> (case v of ATime t \<Rightarrow> time_ok t | _ \<Rightarrow> False)
     | DoubleArray \<Rightarrow> (case v of AFloats xs \<Rightarrow> length xs \<le> MaxArrayLen \<and> list_all double_ok xs | _ \<Rightarrow> False)
     | IntegerArray \<Rightarrow> (case v of AInt32s xs \<Rightarrow> length xs \<le> MaxArrayLen | _ \<Rightarrow> False)
     | LongIntegerArray \<Rightarrow> (case v of AInt64s xs \<Rightarrow> length xs \<le> MaxArrayLen | _ \<Rightarrow> False)
     | BooleanArray \<Rightarrow> (case v of ABools xs \<Rightarrow> length xs \<le> MaxArrayLen | _ \<Rightarrow> False)
     | StringArray \<Rightarrow> (case v of AStrings xs \<Rightarrow> length xs \<le> MaxArrayLen \<and> list_all string_ok xs | _ \<Rightarrow> False)
     | BinaryBlobArray \<Rightarrow> (case v of ABytess xs \<Rightarrow> length xs \<le> MaxArrayLen | _ \<Rightarrow> False)
     | DateTimeArray \<Rightarrow> (case v of ATimes xs \<Rightarrow> length xs \<le> MaxArrayLen \<and> list_all time_ok xs | _ \<Rightarrow> False))"


section \<open>Laws\<close>

lemma Elem_array [simp]:
  "Elem DoubleArray = Double" "Elem IntegerArray = Integer" "Elem BooleanArray = Boolean"
  "Elem LongIntegerArray = LongInteger" "Elem StringArray = String" "Elem BinaryBlobArray = BinaryBlob"
  "Elem DateTimeArray = DateTime"
  by code_simp+

lemma IsArray_cases: "IsArray vt \<longleftrightarrow>
  vt \<in> {DoubleArray, IntegerArray, BooleanArray, LongIntegerArray, StringArray, BinaryBlobArray, DateTimeArray}"
  by (cases vt; simp; code_simp)

lemma checkDouble_ok: "checkDouble f = Inr g \<longleftrightarrow> g = f \<and> double_ok f"
  by (auto simp: checkDouble_def double_ok_def split: if_splits)

lemma checkString_ok: "checkString s = Inr t \<longleftrightarrow> t = s \<and> string_ok s"
  by (auto simp: checkString_def string_ok_def)

lemma dateTimeFromMillis_ok: "dateTimeFromMillis ms = Inr t \<Longrightarrow> time_ok t"
  by (auto simp: dateTimeFromMillis_def time_ok_def MinDateTime_def MaxDateTime_def split: if_splits)

lemma checkDateTime_ok:
  assumes "checkDateTime ts = Inr t"
  shows "time_ok t"
proof -
  from assms have t: "t = ts div 1000000 * 1000000" and b: "MinDateTime \<le> ts" "ts \<le> MaxDateTime"
    by (auto simp: checkDateTime_def split: if_splits)
  have "minDateTimeMillis \<le> ts div 1000000" using zdiv_mono1 [OF b(1), of 1000000] by (simp add: MinDateTime_def)
  then have "MinDateTime \<le> t" by (simp add: t MinDateTime_def)
  moreover have "t \<le> ts" by (simp add: t)
  ultimately show ?thesis using b by (simp add: time_ok_def t)
qed

text \<open>A well-formed time passes unchanged.\<close>

lemma checkDateTime_id: "time_ok t \<Longrightarrow> checkDateTime t = Inr t"
  by (auto simp: checkDateTime_def time_ok_def)

lemma collectElems_ok:
  "collectElems unwrap rs = Inr as \<longleftrightarrow> list_all2 (\<lambda>r a. \<exists>v. r = Inr v \<and> unwrap v = Some a) rs as"
  by (induction unwrap rs arbitrary: as rule: collectElems.induct)
    (auto simp: bindR_Inr_iff list_all2_Cons1 split: option.splits)

lemma collectArray_ok:
  "collectArray unwrap rs = Inr as \<longleftrightarrow>
     length as \<le> MaxArrayLen \<and> list_all2 (\<lambda>r a. \<exists>v. r = Inr v \<and> unwrap v = Some a) rs as"
  by (auto simp: collectArray_def collectElems_ok dest: list_all2_lengthD)

lemma unwrap_iff [simp]:
  "asFloat v = Some f \<longleftrightarrow> v = AFloat f" "asInt32 v = Some i \<longleftrightarrow> v = AInt32 i" "asInt64 v = Some j \<longleftrightarrow> v = AInt64 j"
  "asBool v = Some b \<longleftrightarrow> v = ABool b" "asString v = Some s \<longleftrightarrow> v = AString s" "asBytes v = Some bs \<longleftrightarrow> v = ABytes bs"
  "asTime v = Some t \<longleftrightarrow> v = ATime t"
  by (cases v; simp)+

lemma list_all2_wrapped: "list_all2 (\<lambda>r a. r = Inr (wrap a)) rs as \<longleftrightarrow> rs = map (\<lambda>a. Inr (wrap a)) as"
  by (induction rs arbitrary: as) (auto simp: list_all2_Cons1)

text \<open>An array of elements of the element type has the array type.\<close>

lemma decodeArray_typed:
  assumes "IsArray vt" "\<And>v. Inr v \<in> set rs \<Longrightarrow> has_type (Elem vt) v" "decodeArray vt rs = Inr w"
  shows "has_type vt w"
proof -
  have "list_all (case_sum (\<lambda>_. True) (has_type (Elem vt))) rs"
    using assms(2) by (auto simp: list_all_iff split: sum.split)
  with assms(1,3) show ?thesis unfolding IsArray_cases
    by (elim insertE emptyE)
      (auto simp: decodeArray_def asValue_def bindR_Inr_iff collectArray_ok has_type_def list_all2_wrapped list.pred_map comp_def)
qed

lemma has_type_unwrap:
  "has_type Double v \<Longrightarrow> asFloat v \<noteq> None" "has_type Integer v \<Longrightarrow> asInt32 v \<noteq> None"
  "has_type LongInteger v \<Longrightarrow> asInt64 v \<noteq> None" "has_type Boolean v \<Longrightarrow> asBool v \<noteq> None"
  "has_type String v \<Longrightarrow> asString v \<noteq> None" "has_type BinaryBlob v \<Longrightarrow> asBytes v \<noteq> None"
  "has_type DateTime v \<Longrightarrow> asTime v \<noteq> None"
  by (cases v; simp add: has_type_def)+

lemma asValue_Inl [simp]: "asValue wrap r = Inl e \<longleftrightarrow> r = Inl e"
  by (cases r) (simp_all add: asValue_def bindR_def)

lemma ParseInt_Atoi: "ParseInt s = IntOk v \<longleftrightarrow> Atoi s = Some v"
  by (auto simp: ParseInt_def Atoi_def Let_def)

lemma ParseInt_Itoa: "- (2 ^ 63) \<le> i \<Longrightarrow> i < 2 ^ 63 \<Longrightarrow> ParseInt (Itoa i) = IntOk i"
  by (simp add: ParseInt_Atoi Atoi_Itoa)

lemma stdEncode_length: "length (stdEncode bs) mod 4 = 0" "stdPad (length bs) \<le> 2"
proof -
  have l: "length (b64Encode bs) = length (b64Sextets bs)" by (simp add: b64Encode_sextets)
  let ?k = "length bs div 3"
  have n: "length bs = 3 * ?k + length bs mod 3" by simp
  have "length bs mod 3 < 3" by simp
  then consider "length bs mod 3 = 0" | "length bs mod 3 = 1" | "length bs mod 3 = 2" by linarith
  then have "length (b64Sextets bs) + stdPad (length bs) = 4 * ?k \<or> length (b64Sextets bs) + stdPad (length bs) = 4 * ?k + 4"
    using b64Sextets_length [of bs] n by cases (simp_all add: stdPad_def)
  then show "length (stdEncode bs) mod 4 = 0" by (auto simp: stdEncode_def l)
  show "stdPad (length bs) \<le> 2" by (auto simp: stdPad_def)
qed

lemma toStd_alphabet:
  "c \<in> set b64alphabet \<Longrightarrow> fromStd (toStd c) = c \<and> toStd c \<notin> {CHR ''='', CHR ''-'', CHR ''_'', CHR 0x0A, CHR 0x0D}"
proof -
  have "list_all (\<lambda>c. fromStd (toStd c) = c \<and> toStd c \<notin> {CHR ''='', CHR ''-'', CHR ''_'', CHR 0x0A, CHR 0x0D}) b64alphabet"
    by code_simp
  then show "c \<in> set b64alphabet \<Longrightarrow> ?thesis" by (simp add: list_all_iff)
qed

lemma stdDecode_Encode: "stdDecodeStrict (stdEncode bs) = Some bs"
proof -
  let ?b = "map toStd (b64Encode bs)" and ?p = "replicate (stdPad (length bs)) CHR ''=''"
  have c: "toStd c \<notin> {CHR ''='', CHR ''-'', CHR ''_'', CHR 0x0A, CHR 0x0D}" "fromStd (toStd c) = c"
    if "c \<in> set (b64Encode bs)" for c
    using that toStd_alphabet b64Encode_chars by blast+
  have f: "filter (\<lambda>c. c \<noteq> CHR 0x0A \<and> c \<noteq> CHR 0x0D) (stdEncode bs) = ?b @ ?p"
    unfolding stdEncode_def using c(1) by (intro filter_True) auto
  have t: "takeWhile (\<lambda>c. c \<noteq> CHR ''='') (?b @ ?p) = ?b" "dropWhile (\<lambda>c. c \<noteq> CHR ''='') (?b @ ?p) = ?p"
    using c(1) by (subst takeWhile_append2 dropWhile_append2; force simp: takeWhile_eq_Nil_iff dropWhile_eq_self_iff hd_replicate)+
  have m: "map fromStd ?b = b64Encode bs" using c(2) by (simp add: map_idI)
  have "CHR ''-'' \<notin> set ?b" "CHR ''_'' \<notin> set ?b" using c(1) by fastforce+
  moreover have "length (?b @ ?p) mod 4 = 0" "length ?p \<le> 2" using stdEncode_length [of bs] by (simp_all add: stdEncode_def)
  moreover have "list_all (\<lambda>c. c = CHR ''='') ?p" by (simp add: list_all_iff)
  ultimately show ?thesis
    unfolding stdDecodeStrict_def Let_def f t m by (simp add: b64Decode_Encode)
qed

end
