(* ===== verification/Trigger_Policy.thy ===== *)
theory Trigger_Policy
  imports Go_Regexp
begin

text \<open>
  Model of internal/engine/triggers/policy.go: compilation of a trigger delivery policy and
  its decision for a finished delivery attempt.  The JSON text layer is left out: a document
  is the struct it decodes into, and an on clause is the outcome of the three json.Unmarshal
  calls that are tried on it.  None as the outcome of a compilation is an index panic.
\<close>

section \<open>Handlers\<close>

datatype Strategy = StrategyDiscard | StrategyRetry

definition StatusTransport :: int where "StatusTransport = 0"

datatype handlerOnKind = onKeyword | onExplicit

record compiledHandler =
  ch_onKind :: handlerOnKind
  ch_keyword :: string
  ch_codes :: "int list"
  ch_strategy :: Strategy

definition claims :: "compiledHandler \<Rightarrow> int \<Rightarrow> bool" where
  "claims h status =
    (if status = StatusTransport then
       (if ch_onKind h \<noteq> onKeyword then False
        else ch_keyword h = ''any_error'' \<or> ch_keyword h = ''server_error'')
     else
       (case ch_onKind h of
          onKeyword \<Rightarrow>
            (if ch_keyword h = ''any_error'' then status \<ge> 400 \<and> status \<le> 599
             else if ch_keyword h = ''client_error'' then status \<ge> 400 \<and> status \<le> 499
             else if ch_keyword h = ''server_error'' then status \<ge> 500 \<and> status \<le> 599
             else False)
        | onExplicit \<Rightarrow> list_ex (\<lambda>c. c = status) (ch_codes h)))"

definition onLabel :: "compiledHandler \<Rightarrow> string" where
  "onLabel h =
    (if ch_onKind h = onKeyword then ch_keyword h
     else if length (ch_codes h) = 1 then ''status '' @ Itoa (ch_codes h ! 0)
     else ''status codes ['' @ Join (map Itoa (ch_codes h)) '' '' @ '']'')"

record Policy =
  pol_Name :: string
  pol_MaximumCapacity :: int
  pol_PrefetchCount :: int
  pol_RetryTimes :: int
  pol_EventTTL :: int64
  pol_handlers :: "compiledHandler list"

text \<open>The pattern {1,128} is one occurrence followed by up to 127 more.\<close>

fun RUpTo :: "regex \<Rightarrow> nat \<Rightarrow> regex" where
  "RUpTo r 0 = REps"
| "RUpTo r (Suc n) = ROpt (RCat r (RUpTo r n))"

definition policyNameChars :: "(char \<times> char) list" where
  "policyNameChars = [(CHR ''a'', CHR ''z''), (CHR ''A'', CHR ''Z''), (CHR ''0'', CHR ''9''),
     (CHR ''_'', CHR ''_''), (CHR ''.'', CHR ''.''), (CHR ''~'', CHR ''~''), (CHR ''-'', CHR ''-'')]"

definition policyNameRE :: regex where
  "policyNameRE = RCat (RClass policyNameChars) (RUpTo (RClass policyNameChars) 127)"

section \<open>Compilation\<close>

text \<open>An on clause: the string, the array of integers and the custom_status_codes member it
  decodes to, None where json.Unmarshal fails (or leaves the member nil).\<close>

record rawOn =
  ro_keyword :: "string option"
  ro_codes :: "int list option"
  ro_custom :: "int list option"

record policyDoc =
  pd_Name :: string
  pd_ErrorHandlers :: "(rawOn \<times> string) list"
  pd_MaximumCapacity :: int
  pd_PrefetchCount :: "int option"
  pd_RetryTimes :: "int option"
  pd_EventTTL :: "int option"

datatype on_error = BadKeyword | OnShape | EmptyCodes | CodeRange

datatype policy_error =
    PolicyParse
  | PolicyName
  | NoHandlers
  | BadStrategy
  | HandlerOn nat on_error
  | HandlersOverlap
  | RetryTimesRange
  | RetryTimesWithoutRetry
  | CapacityNotPositive
  | PrefetchRange
  | EventTTLNegative

definition compileHandlerOn :: "rawOn \<Rightarrow> Strategy \<Rightarrow> on_error + compiledHandler" where
  "compileHandlerOn raw strat =
    (case ro_keyword raw of
       Some keyword \<Rightarrow>
         (if keyword \<in> {''any_error'', ''client_error'', ''server_error''}
          then Inr \<lparr>ch_onKind = onKeyword, ch_keyword = keyword, ch_codes = [], ch_strategy = strat\<rparr>
          else Inl BadKeyword)
     | None \<Rightarrow>
         (case (case ro_codes raw of Some codes \<Rightarrow> Some codes | None \<Rightarrow> ro_custom raw) of
            None \<Rightarrow> Inl OnShape
          | Some codes \<Rightarrow>
              (if codes = [] then Inl EmptyCodes
               else if list_ex (\<lambda>c. c < 400 \<or> c > 599) codes then Inl CodeRange
               else Inr \<lparr>ch_onKind = onExplicit, ch_keyword = [], ch_codes = codes, ch_strategy = strat\<rparr>)))"

fun compileHandlers ::
  "nat \<Rightarrow> (rawOn \<times> string) list \<Rightarrow> bool \<Rightarrow> policy_error + compiledHandler list \<times> bool" where
  "compileHandlers i [] hasRetry = Inr ([], hasRetry)"
| "compileHandlers i ((on, s) # hs) hasRetry =
     bindR (if s = ''discard'' then Inr (StrategyDiscard, hasRetry)
            else if s = ''retry'' then Inr (StrategyRetry, True)
            else Inl BadStrategy) (\<lambda>(strat, hasRetry).
       case compileHandlerOn on strat of
         Inl e \<Rightarrow> Inl (HandlerOn (i + 1) e)
       | Inr ch \<Rightarrow> bindR (compileHandlers (i + 1) hs hasRetry) (\<lambda>(chs, r). Inr (ch # chs, r)))"

text \<open>The codes a handler claims, and the mask over 400..599.\<close>

definition ownCodes :: "compiledHandler \<Rightarrow> int list" where
  "ownCodes h =
    (case ch_onKind h of
       onKeyword \<Rightarrow>
         [(if ch_keyword h = ''server_error'' then 500 else 400) ..
          (if ch_keyword h = ''client_error'' then 499 else 599)]
     | onExplicit \<Rightarrow> ch_codes h)"

text \<open>Reading and writing the array; None is the panic of an index out of range.\<close>

definition maskAt :: "bool list \<Rightarrow> int \<Rightarrow> bool option" where
  "maskAt bits idx = (if 0 \<le> idx \<and> idx < int (length bits) then Some (bits ! nat idx) else None)"

definition maskSet :: "bool list \<Rightarrow> int \<Rightarrow> bool list option" where
  "maskSet bits idx = (if 0 \<le> idx \<and> idx < int (length bits) then Some (bits[nat idx := True]) else None)"

fun anyClaimed :: "bool list \<Rightarrow> int list \<Rightarrow> bool option" where
  "anyClaimed bits [] = Some False"
| "anyClaimed bits (c # cs) =
     Option.bind (maskAt bits (c - 400)) (\<lambda>b. if b then Some True else anyClaimed bits cs)"

fun markClaimed :: "bool list \<Rightarrow> int list \<Rightarrow> bool list option" where
  "markClaimed bits [] = Some bits"
| "markClaimed bits (c # cs) = Option.bind (maskSet bits (c - 400)) (\<lambda>bits. markClaimed bits cs)"

fun disjointLoop :: "bool list \<Rightarrow> compiledHandler list \<Rightarrow> bool option" where
  "disjointLoop claimed [] = Some True"
| "disjointLoop claimed (h # hs) =
     Option.bind (anyClaimed claimed (ownCodes h)) (\<lambda>clash.
       if clash then Some False
       else Option.bind (markClaimed claimed (ownCodes h)) (\<lambda>claimed. disjointLoop claimed hs))"

definition checkHandlersDisjoint :: "compiledHandler list \<Rightarrow> bool option" where
  "checkHandlersDisjoint handlers = disjointLoop (replicate 200 False) handlers"

definition checkLimits :: "policyDoc \<Rightarrow> bool \<Rightarrow> policy_error + unit" where
  "checkLimits doc hasRetry =
    (if hasRetry \<and> (case pd_RetryTimes doc of None \<Rightarrow> True | Some n \<Rightarrow> n < 1 \<or> n > 100) then Inl RetryTimesRange
     else if \<not> hasRetry \<and> pd_RetryTimes doc \<noteq> None then Inl RetryTimesWithoutRetry
     else if pd_MaximumCapacity doc < 1 then Inl CapacityNotPositive
     else if (case pd_PrefetchCount doc of None \<Rightarrow> False | Some n \<Rightarrow> n < 1 \<or> n > 300) then Inl PrefetchRange
     else if (case pd_EventTTL doc of None \<Rightarrow> False | Some n \<Rightarrow> n < 0) then Inl EventTTLNegative
     else Inr ())"

definition buildPolicy :: "policyDoc \<Rightarrow> compiledHandler list \<Rightarrow> Policy" where
  "buildPolicy doc handlers =
    \<lparr>pol_Name = pd_Name doc, pol_MaximumCapacity = pd_MaximumCapacity doc,
     pol_PrefetchCount = (case pd_PrefetchCount doc of None \<Rightarrow> 1 | Some n \<Rightarrow> n),
     pol_RetryTimes = (case pd_RetryTimes doc of None \<Rightarrow> 0 | Some n \<Rightarrow> n),
     pol_EventTTL = (case pd_EventTTL doc of None \<Rightarrow> 0 | Some n \<Rightarrow> word_of_int n * 1000000000),
     pol_handlers = handlers\<rparr>"

definition CompilePolicy :: "policyDoc option \<Rightarrow> (policy_error + Policy) option" where
  "CompilePolicy d =
    (case d of
       None \<Rightarrow> Some (Inl PolicyParse)
     | Some doc \<Rightarrow>
         (if \<not> MatchString policyNameRE (pd_Name doc) then Some (Inl PolicyName)
          else if pd_ErrorHandlers doc = [] then Some (Inl NoHandlers)
          else
            (case compileHandlers 0 (pd_ErrorHandlers doc) False of
               Inl e \<Rightarrow> Some (Inl e)
             | Inr (handlers, hasRetry) \<Rightarrow>
                 Option.bind (checkHandlersDisjoint handlers) (\<lambda>ok.
                   if \<not> ok then Some (Inl HandlersOverlap)
                   else Some (bindR (checkLimits doc hasRetry) (\<lambda>_. Inr (buildPolicy doc handlers)))))))"

section \<open>Decisions\<close>

record Decision =
  dec_Strategy :: Strategy
  dec_Reason :: string

fun decideLoop :: "nat \<Rightarrow> compiledHandler list \<Rightarrow> int \<Rightarrow> Decision" where
  "decideLoop i [] status =
     \<lparr>dec_Strategy = StrategyDiscard,
      dec_Reason =
        (if status = StatusTransport
         then ''transport failure, treated as a server error; no handler claims it: discard''
         else ''no handler claims status '' @ Itoa status @ '': discard'')\<rparr>"
| "decideLoop i (h # hs) status =
     (if \<not> claims h status then decideLoop (i + 1) hs status
      else
        (let strat = (if ch_strategy h = StrategyRetry then ''retry'' else ''discard'')
         in \<lparr>dec_Strategy = ch_strategy h,
             dec_Reason =
               (if status = StatusTransport then ''transport failure, treated as a server error; '' else []) @
               ''handler '' @ Itoa (int i + 1) @ '' ('' @ onLabel h @ ''): '' @ strat\<rparr>))"

definition Decide :: "Policy option \<Rightarrow> int \<Rightarrow> Decision" where
  "Decide pol status =
    (case pol of
       None \<Rightarrow> \<lparr>dec_Strategy = StrategyDiscard, dec_Reason = ''no policy applies''\<rparr>
     | Some p \<Rightarrow>
         (if status \<ge> 200 \<and> status \<le> 399
          then \<lparr>dec_Strategy = StrategyDiscard, dec_Reason = ''not a failure status code''\<rparr>
          else decideLoop 0 (pol_handlers p) status))"

section \<open>The name pattern\<close>

lemma lang_upto: "w \<in> lang (RUpTo (RClass cs) n) \<longleftrightarrow> length w \<le> n \<and> list_all (in_class cs) w"
proof (induction n arbitrary: w)
  case (Suc n)
  have "w \<in> lang (RCat (RClass cs) (RUpTo (RClass cs) n)) \<longleftrightarrow>
      (\<exists>c v. w = c # v \<and> in_class cs c \<and> length v \<le> n \<and> list_all (in_class cs) v)"
    unfolding lang_cat lang_class Suc.IH by (metis append_Cons append_Nil)
  then show ?case by (cases w) (auto simp: ROpt_def)
qed auto

lemma policyNameRE_iff:
  "MatchString policyNameRE s \<longleftrightarrow> 1 \<le> length s \<and> length s \<le> 128 \<and> list_all (in_class policyNameChars) s"
proof -
  have "MatchString policyNameRE s \<longleftrightarrow>
      (\<exists>c v. s = c # v \<and> in_class policyNameChars c \<and> length v \<le> 127 \<and> list_all (in_class policyNameChars) v)"
    unfolding MatchString_lang policyNameRE_def lang_cat lang_class lang_upto by (metis append_Cons append_Nil)
  then show ?thesis by (cases s) auto
qed

section \<open>Compiled handlers\<close>

definition handler_ok :: "compiledHandler \<Rightarrow> bool" where
  "handler_ok h \<longleftrightarrow>
    (case ch_onKind h of
       onKeyword \<Rightarrow> ch_keyword h \<in> {''any_error'', ''client_error'', ''server_error''}
     | onExplicit \<Rightarrow> ch_codes h \<noteq> [] \<and> (\<forall>c \<in> set (ch_codes h). 400 \<le> c \<and> c \<le> 599))"

lemma compileHandlerOn_ok: "compileHandlerOn on strat = Inr h \<Longrightarrow> handler_ok h \<and> ch_strategy h = strat"
  by (auto simp: compileHandlerOn_def handler_ok_def list_ex_iff not_less split: option.splits if_splits)

lemma compileHandlers_ok:
  "compileHandlers i hs b = Inr (chs, r) \<Longrightarrow>
     list_all handler_ok chs \<and> (r \<longleftrightarrow> b \<or> (\<exists>h \<in> set chs. ch_strategy h = StrategyRetry)) \<and> length chs = length hs"
proof (induction hs arbitrary: i b chs r)
  case (Cons x hs)
  obtain on s where x: "x = (on, s)" by (cases x)
  have step: ?case if strat: "compileHandlers i ((on, s) # hs) b =
      (case compileHandlerOn on strat of
         Inl e \<Rightarrow> Inl (HandlerOn (i + 1) e)
       | Inr ch \<Rightarrow> bindR (compileHandlers (i + 1) hs (b \<or> strat = StrategyRetry)) (\<lambda>(chs, r). Inr (ch # chs, r)))" for strat
  proof -
    from Cons.prems obtain ch chs' where h: "compileHandlerOn on strat = Inr ch"
      "compileHandlers (i + 1) hs (b \<or> strat = StrategyRetry) = Inr (chs', r)" "chs = ch # chs'"
      unfolding x strat by (cases "compileHandlerOn on strat") auto
    from Cons.IH [OF h(2)] compileHandlerOn_ok [OF h(1)] h(3) show ?thesis by auto
  qed
  consider "s = ''discard''" | "s = ''retry''" | "s \<noteq> ''discard''" "s \<noteq> ''retry''" by blast
  then show ?case
  proof cases
    case 1
    then show ?thesis by (intro step [of StrategyDiscard]) (simp split: sum.split)
  next
    case 2
    then show ?thesis by (intro step [of StrategyRetry]) (simp split: sum.split)
  next
    case 3
    with Cons.prems show ?thesis by (simp add: x)
  qed
qed simp

text \<open>A compiled handler claims its own codes, and a transport failure like any code above 499.\<close>

lemma claims_iff_own:
  assumes "handler_ok h"
  shows "claims h s \<longleftrightarrow>
    (if s = StatusTransport then ch_onKind h = onKeyword \<and> 599 \<in> set (ownCodes h) else s \<in> set (ownCodes h))"
  using assms
  by (auto simp: claims_def handler_ok_def ownCodes_def StatusTransport_def list_ex_iff split: handlerOnKind.splits)

lemma own_range: "handler_ok h \<Longrightarrow> c \<in> set (ownCodes h) \<Longrightarrow> 400 \<le> c \<and> c \<le> 599"
  by (auto simp: handler_ok_def ownCodes_def split: handlerOnKind.splits if_splits)

section \<open>The mask decides disjointness\<close>

definition mask_of :: "int set \<Rightarrow> bool list" where
  "mask_of S = map (\<lambda>i. int i + 400 \<in> S) [0..<200]"

lemma mask_of_nth: "i < 200 \<Longrightarrow> mask_of S ! i \<longleftrightarrow> int i + 400 \<in> S" "length (mask_of S) = 200"
  by (simp_all add: mask_of_def)

lemma maskAt_of: "400 \<le> c \<Longrightarrow> c \<le> 599 \<Longrightarrow> maskAt (mask_of S) (c - 400) = Some (c \<in> S)"
  by (simp add: maskAt_def mask_of_nth nat_less_iff)

lemma maskSet_of: "400 \<le> c \<Longrightarrow> c \<le> 599 \<Longrightarrow> maskSet (mask_of S) (c - 400) = Some (mask_of (insert c S))"
  by (auto simp: maskSet_def mask_of_nth nth_list_update intro!: nth_equalityI split: if_splits)

lemma anyClaimed_of:
  "\<forall>c \<in> set cs. 400 \<le> c \<and> c \<le> 599 \<Longrightarrow> anyClaimed (mask_of S) cs = Some (set cs \<inter> S \<noteq> {})"
  by (induction cs) (auto simp: maskAt_of)

lemma markClaimed_of:
  "\<forall>c \<in> set cs. 400 \<le> c \<and> c \<le> 599 \<Longrightarrow> markClaimed (mask_of S) cs = Some (mask_of (set cs \<union> S))"
  by (induction cs arbitrary: S) (auto simp: maskSet_of)

lemma disjointLoop_of:
  "list_all handler_ok hs \<Longrightarrow>
     disjointLoop (mask_of S) hs = Some ((\<forall>h \<in> set hs. set (ownCodes h) \<inter> S = {}) \<and>
       sorted_wrt (\<lambda>h k. set (ownCodes h) \<inter> set (ownCodes k) = {}) hs)"
proof (induction hs arbitrary: S)
  case (Cons h hs)
  have r: "\<forall>c \<in> set (ownCodes h). 400 \<le> c \<and> c \<le> 599" using Cons.prems own_range by auto
  show ?case
    using Cons by (auto simp: anyClaimed_of [OF r] markClaimed_of [OF r] Int_Un_distrib Int_commute)
qed simp

lemma checkHandlersDisjoint_iff:
  assumes "list_all handler_ok hs"
  shows "checkHandlersDisjoint hs =
    Some (sorted_wrt (\<lambda>h k. set (ownCodes h) \<inter> set (ownCodes k) = {}) hs)"
proof -
  have "replicate 200 False = mask_of {}"
    by (rule nth_equalityI) (simp_all add: mask_of_nth)
  then show ?thesis using disjointLoop_of [OF assms, of "{}"] by (simp add: checkHandlersDisjoint_def)
qed

text \<open>Disjoint codes are disjoint claims, the transport pseudo-status included.\<close>

lemma disjoint_claims:
  assumes "handler_ok h" "handler_ok k" "set (ownCodes h) \<inter> set (ownCodes k) = {}"
  shows "\<not> (claims h s \<and> claims k s)"
  using assms(3) by (auto simp: claims_iff_own [OF assms(1)] claims_iff_own [OF assms(2)] split: if_splits)

section \<open>Compiled policies\<close>

definition policy_ok :: "Policy \<Rightarrow> bool" where
  "policy_ok p \<longleftrightarrow>
    list_all handler_ok (pol_handlers p) \<and> pol_handlers p \<noteq> [] \<and>
    sorted_wrt (\<lambda>h k. set (ownCodes h) \<inter> set (ownCodes k) = {}) (pol_handlers p) \<and>
    (if \<exists>h \<in> set (pol_handlers p). ch_strategy h = StrategyRetry
     then 1 \<le> pol_RetryTimes p \<and> pol_RetryTimes p \<le> 100 else pol_RetryTimes p = 0) \<and>
    1 \<le> pol_MaximumCapacity p \<and> 1 \<le> pol_PrefetchCount p \<and> pol_PrefetchCount p \<le> 300"

lemma checkLimits_ok:
  "checkLimits doc r = Inr () \<longleftrightarrow>
     (if r then (\<exists>n. pd_RetryTimes doc = Some n \<and> 1 \<le> n \<and> n \<le> 100) else pd_RetryTimes doc = None) \<and>
     1 \<le> pd_MaximumCapacity doc \<and>
     (\<forall>n. pd_PrefetchCount doc = Some n \<longrightarrow> 1 \<le> n \<and> n \<le> 300) \<and>
     (\<forall>n. pd_EventTTL doc = Some n \<longrightarrow> 0 \<le> n)"
  by (auto simp: checkLimits_def not_less split: option.splits)

lemma CompilePolicy_total: "CompilePolicy d \<noteq> None"
proof -
  have "\<exists>b. checkHandlersDisjoint hs = Some b" if "compileHandlers 0 xs False = Inr (hs, r)" for xs hs r
    using compileHandlers_ok [OF that] checkHandlersDisjoint_iff by simp
  then have "\<exists>y. Option.bind (checkHandlersDisjoint hs) (\<lambda>ok. if \<not> ok then Some e else Some (f ok)) = Some y"
    if "compileHandlers 0 xs False = Inr (hs, r)" for xs hs r e and f :: "bool \<Rightarrow> policy_error + Policy"
    using that by fastforce
  then show ?thesis by (auto simp: CompilePolicy_def split: option.splits sum.splits)
qed

lemma CompilePolicy_ok:
  assumes "CompilePolicy d = Some (Inr p)"
  shows "policy_ok p"
proof -
  from assms obtain doc hs r where d: "d = Some doc" "pd_ErrorHandlers doc \<noteq> []"
    "compileHandlers 0 (pd_ErrorHandlers doc) False = Inr (hs, r)"
    "checkHandlersDisjoint hs = Some True" "checkLimits doc r = Inr ()" "p = buildPolicy doc hs"
    by (auto simp: CompilePolicy_def bind_eq_Some_conv split: option.splits sum.splits if_splits)
  from compileHandlers_ok [OF d(3)] have h: "list_all handler_ok hs" "length hs = length (pd_ErrorHandlers doc)"
    "r \<longleftrightarrow> (\<exists>h \<in> set hs. ch_strategy h = StrategyRetry)" by simp_all
  show ?thesis
  proof (cases r)
    case True
    with h(3) have "\<exists>h \<in> set hs. ch_strategy h = StrategyRetry" by simp
    with True d(2,4,5) h(1,2) show ?thesis
      by (auto simp: policy_ok_def d(6) buildPolicy_def checkHandlersDisjoint_iff checkLimits_ok split: option.splits)
  next
    case False
    with h(3) have "\<not> (\<exists>h \<in> set hs. ch_strategy h = StrategyRetry)" by simp
    with False d(2,4,5) h(1,2) show ?thesis
      by (auto simp: policy_ok_def d(6) buildPolicy_def checkHandlersDisjoint_iff checkLimits_ok split: option.splits)
  qed
qed

lemma decideLoop_strategy:
  "dec_Strategy (decideLoop i hs s) =
     (case find (\<lambda>h. claims h s) hs of None \<Rightarrow> StrategyDiscard | Some h \<Rightarrow> ch_strategy h)"
  by (induction i hs s rule: decideLoop.induct) (simp_all add: Let_def)

lemma policy_claims_unique:
  assumes "policy_ok p" "i < j" "j < length (pol_handlers p)"
  shows "\<not> (claims (pol_handlers p ! i) s \<and> claims (pol_handlers p ! j) s)"
proof (rule disjoint_claims)
  show "handler_ok (pol_handlers p ! i)" "handler_ok (pol_handlers p ! j)"
    using assms by (auto simp: policy_ok_def list_all_length)
  show "set (ownCodes (pol_handlers p ! i)) \<inter> set (ownCodes (pol_handlers p ! j)) = {}"
    using assms by (auto simp: policy_ok_def sorted_wrt_iff_nth_less)
qed

lemma policy_claims_same:
  assumes "policy_ok p" "h \<in> set (pol_handlers p)" "k \<in> set (pol_handlers p)" "claims h s" "claims k s"
  shows "h = k"
proof -
  from assms(2,3) obtain i j where ij: "h = pol_handlers p ! i" "k = pol_handlers p ! j"
    "i < length (pol_handlers p)" "j < length (pol_handlers p)" by (metis in_set_conv_nth)
  have "\<not> i < j" "\<not> j < i"
    using policy_claims_unique [OF assms(1), of i j s] policy_claims_unique [OF assms(1), of j i s] assms(4,5) ij
    by blast+
  with ij show ?thesis by (metis nat_neq_iff)
qed

lemma claims_status: "claims h s \<Longrightarrow> handler_ok h \<Longrightarrow> s = StatusTransport \<or> 400 \<le> s \<and> s \<le> 599"
  using own_range by (auto simp: claims_iff_own split: if_splits)

lemma Decide_retry_iff:
  assumes "policy_ok p"
  shows "dec_Strategy (Decide (Some p) s) = StrategyRetry \<longleftrightarrow>
    (\<exists>h \<in> set (pol_handlers p). claims h s \<and> ch_strategy h = StrategyRetry)"
proof (cases "find (\<lambda>h. claims h s) (pol_handlers p)")
  case None
  then have "dec_Strategy (Decide (Some p) s) = StrategyDiscard" by (simp add: Decide_def decideLoop_strategy)
  with None show ?thesis by (auto simp: find_None_iff)
next
  case (Some h)
  then have h: "h \<in> set (pol_handlers p)" "claims h s" by (auto simp: find_Some_iff in_set_conv_nth)
  then have "\<not> (200 \<le> s \<and> s \<le> 399)"
    using claims_status [of h s] assms by (auto simp: policy_ok_def list_all_iff StatusTransport_def)
  then have "dec_Strategy (Decide (Some p) s) = ch_strategy h"
    using Some by (auto simp: Decide_def decideLoop_strategy)
  with h policy_claims_same [OF assms h(1)] show ?thesis by metis
qed

text \<open>C15. Compilation of a delivery policy never indexes outside its mask, and in a policy it accepts
  no two handlers claim the same failure, the transport pseudo-status included.  Hence a decision is
  to retry exactly when some retry handler claims the status, whatever the order of the handlers, and
  a policy that can retry bounds the retries between 1 and 100.\<close>

theorem compiled_policy_decides:
  "CompilePolicy d \<noteq> None \<and>
   (CompilePolicy d = Some (Inr p) \<longrightarrow>
     (\<forall>s i j. i < j \<and> j < length (pol_handlers p) \<longrightarrow>
       \<not> (claims (pol_handlers p ! i) s \<and> claims (pol_handlers p ! j) s)) \<and>
     (\<forall>s. dec_Strategy (Decide (Some p) s) = StrategyRetry \<longleftrightarrow>
       (\<exists>h \<in> set (pol_handlers p). claims h s \<and> ch_strategy h = StrategyRetry)) \<and>
     (\<forall>s. dec_Strategy (Decide (Some p) s) = StrategyRetry \<longrightarrow>
       1 \<le> pol_RetryTimes p \<and> pol_RetryTimes p \<le> 100))"
proof (intro conjI impI CompilePolicy_total)
  assume "CompilePolicy d = Some (Inr p)"
  then have ok: "policy_ok p" by (rule CompilePolicy_ok)
  show "\<forall>s i j. i < j \<and> j < length (pol_handlers p) \<longrightarrow>
       \<not> (claims (pol_handlers p ! i) s \<and> claims (pol_handlers p ! j) s)"
    using policy_claims_unique [OF ok] by blast
  show "\<forall>s. dec_Strategy (Decide (Some p) s) = StrategyRetry \<longleftrightarrow>
       (\<exists>h \<in> set (pol_handlers p). claims h s \<and> ch_strategy h = StrategyRetry)"
    using Decide_retry_iff [OF ok] by blast
  show "\<forall>s. dec_Strategy (Decide (Some p) s) = StrategyRetry \<longrightarrow>
       1 \<le> pol_RetryTimes p \<and> pol_RetryTimes p \<le> 100"
    using ok unfolding Decide_retry_iff [OF ok] by (auto simp: policy_ok_def split: if_splits)
qed

definition samplePolicyDoc :: policyDoc where
  "samplePolicyDoc =
    \<lparr>pd_Name = ''retry-5xx'',
     pd_ErrorHandlers =
       [(\<lparr>ro_keyword = None, ro_codes = Some [404, 410], ro_custom = None\<rparr>, ''discard''),
        (\<lparr>ro_keyword = Some ''server_error'', ro_codes = None, ro_custom = None\<rparr>, ''retry'')],
     pd_MaximumCapacity = 100, pd_PrefetchCount = None, pd_RetryTimes = Some 3, pd_EventTTL = Some 60\<rparr>"

definition sampleHandlers :: "compiledHandler list" where
  "sampleHandlers =
    [\<lparr>ch_onKind = onExplicit, ch_keyword = [], ch_codes = [404, 410], ch_strategy = StrategyDiscard\<rparr>,
     \<lparr>ch_onKind = onKeyword, ch_keyword = ''server_error'', ch_codes = [], ch_strategy = StrategyRetry\<rparr>]"

lemma samplePolicy_compiles:
  "CompilePolicy (Some samplePolicyDoc) = Some (Inr (buildPolicy samplePolicyDoc sampleHandlers))"
proof -
  have n: "MatchString policyNameRE (pd_Name samplePolicyDoc)"
    unfolding policyNameRE_iff by code_simp
  have h: "compileHandlers 0 (pd_ErrorHandlers samplePolicyDoc) False = Inr (sampleHandlers, True)" by code_simp
  have "list_all handler_ok sampleHandlers" by (simp add: sampleHandlers_def handler_ok_def)
  then have d: "checkHandlersDisjoint sampleHandlers = Some True"
    by (simp add: checkHandlersDisjoint_iff) (simp add: sampleHandlers_def ownCodes_def)
  have l: "checkLimits samplePolicyDoc True = Inr ()" by code_simp
  have "pd_ErrorHandlers samplePolicyDoc \<noteq> []" by (simp add: samplePolicyDoc_def)
  with n h d l show ?thesis by (simp add: CompilePolicy_def)
qed

theorem compiled_policy_decides_witness:
  "dec_Strategy (Decide (Some (buildPolicy samplePolicyDoc sampleHandlers)) 503) = StrategyRetry \<and>
   1 \<le> pol_RetryTimes (buildPolicy samplePolicyDoc sampleHandlers)"
proof -
  have "claims (sampleHandlers ! 1) 503 \<and> ch_strategy (sampleHandlers ! 1) = StrategyRetry"
    by code_simp
  then have "\<exists>h \<in> set (pol_handlers (buildPolicy samplePolicyDoc sampleHandlers)). claims h 503 \<and> ch_strategy h = StrategyRetry"
    by (auto simp: buildPolicy_def sampleHandlers_def)
  with compiled_policy_decides [of "Some samplePolicyDoc" "buildPolicy samplePolicyDoc sampleHandlers"] samplePolicy_compiles
  show ?thesis by blast
qed

end
