(* ===== verification/Trigger_Match.thy ===== *)
theory Trigger_Match
  imports Schema_Compile Payload_Value Trigger_Policy
begin

text \<open>
  Model of internal/engine/triggers: match.go (compilation of stored trigger definitions into
  matchers and their evaluation), validation.go (the field rules of actions), transient.go, the
  action parser of actions.go, errorname.go and the device_error event of events.go.  The JSON
  text layer is left out: a definition is the struct it decodes into.  Package net/url is an
  argument (the scheme and host a text parses to); casing and trimming of header names are
  modelled on ASCII.
\<close>

section \<open>Condition names\<close>

definition OnIncomingData :: string where "OnIncomingData = ''incoming_data''"
definition OnValueChange :: string where "OnValueChange = ''value_change''"
definition OnValueChangeApplied :: string where "OnValueChangeApplied = ''value_change_applied''"
definition OnPathCreated :: string where "OnPathCreated = ''path_created''"
definition OnPathRemoved :: string where "OnPathRemoved = ''path_removed''"
definition OnValueStored :: string where "OnValueStored = ''value_stored''"
definition OnDeviceRegistered :: string where "OnDeviceRegistered = ''device_registered''"
definition OnDeviceConnected :: string where "OnDeviceConnected = ''device_connected''"
definition OnDeviceDisconnected :: string where "OnDeviceDisconnected = ''device_disconnected''"
definition OnDeviceDeletionStarted :: string where "OnDeviceDeletionStarted = ''device_deletion_started''"
definition OnDeviceDeletionFinished :: string where "OnDeviceDeletionFinished = ''device_deletion_finished''"
definition OnDeviceEmptyCacheReceived :: string where "OnDeviceEmptyCacheReceived = ''device_empty_cache_received''"
definition OnDeviceError :: string where "OnDeviceError = ''device_error''"
definition OnIncomingIntrospection :: string where "OnIncomingIntrospection = ''incoming_introspection''"
definition OnInterfaceAdded :: string where "OnInterfaceAdded = ''interface_added''"
definition OnInterfaceRemoved :: string where "OnInterfaceRemoved = ''interface_removed''"
definition OnInterfaceMinorUpdated :: string where "OnInterfaceMinorUpdated = ''interface_minor_updated''"

definition anyToken :: string where "anyToken = ''*''"
definition anyPath :: string where "anyPath = ''/*''"

text \<open>The set tables are lists of their members; deviceOns maps a condition to whether it is
  evaluated.\<close>

definition dataOns :: "string list" where
  "dataOns = [OnIncomingData, OnValueChange, OnValueChangeApplied, OnPathCreated, OnPathRemoved, OnValueStored]"

definition prevOns :: "string list" where
  "prevOns = [OnValueChange, OnValueChangeApplied, OnPathCreated, OnPathRemoved]"

definition deviceOns :: "(string \<times> bool) list" where
  "deviceOns =
    [(OnDeviceRegistered, True), (OnDeviceConnected, True), (OnDeviceDisconnected, True),
     (OnDeviceDeletionStarted, True), (OnDeviceDeletionFinished, True),
     (OnDeviceEmptyCacheReceived, False), (OnDeviceError, True), (OnIncomingIntrospection, True),
     (OnInterfaceAdded, True), (OnInterfaceRemoved, True), (OnInterfaceMinorUpdated, False)]"

definition introspectionOns :: "string list" where
  "introspectionOns = [OnInterfaceAdded, OnInterfaceRemoved, OnInterfaceMinorUpdated]"

definition valueOperators :: "string list" where
  "valueOperators = [anyToken, ''=='', ''!='', ''>'', ''>='', ''<'', ''<='', ''contains'', ''not_contains'']"

section \<open>Patterns\<close>

definition identStart :: "(char \<times> char) list" where
  "identStart = [(CHR ''a'', CHR ''z''), (CHR ''A'', CHR ''Z''), (CHR ''_'', CHR ''_'')]"

definition identRest :: "(char \<times> char) list" where
  "identRest = [(CHR ''a'', CHR ''z''), (CHR ''A'', CHR ''Z''), (CHR ''0'', CHR ''9''), (CHR ''_'', CHR ''_'')]"

definition identRE :: regex where
  "identRE = RCat (RCat (RClass identStart) (RStar (RClass identStart))) (RStar (RClass identRest))"

definition levelRE :: regex where
  "levelRE = RCat (RLit CHR ''/'')
     (RAlt (RCat (RLit CHR ''%'') (RCat (RLit CHR ''{'') (RCat identRE (RLit CHR ''}'')))) identRE)"

definition matchPathRE :: regex where
  "matchPathRE = RCat levelRE (RUpTo levelRE 63)"

section \<open>Matchers and triggers\<close>

record DataEvent =
  ev_DeviceID :: string
  ev_On :: string
  ev_Interface :: string
  ev_Major :: int
  ev_Path :: string
  ev_Value :: dyn

record DeviceEvent =
  dv_DeviceID :: string
  dv_On :: string
  dv_Interface :: string
  dv_Major :: int

record dataMatcher =
  dm_on :: string
  dm_deviceID :: string
  dm_iface :: string
  dm_major :: int
  dm_anyPath :: bool
  dm_pathSegs :: "string list"
  dm_operator :: string
  dm_known :: dyn
  dm_evaluated :: bool

record deviceMatcher =
  vm_on :: string
  vm_deviceID :: string
  vm_iface :: string
  vm_major :: "int option"
  vm_evaluated :: bool

record Action =
  ac_Method :: string
  ac_URL :: string
  ac_StaticHeaders :: "(string \<times> string) list"
  ac_IgnoreSSLErrors :: bool
  ac_Custom :: "string option"
  ac_Template :: string
  ac_TemplateType :: string

text \<open>The accepted features that are not evaluated; the source keeps their rendering.\<close>

datatype unsupported =
    UnsupportedTemplate string
  | UnsupportedDataOn string
  | UnsupportedDeviceOn string
  | UnsupportedGroup

record Trigger =
  tr_Name :: string
  tr_Action :: "Action option"
  tr_Unsupported :: "unsupported list"
  tr_PolicyName :: string
  tr_data :: "dataMatcher list"
  tr_device :: "deviceMatcher list"
  tr_policy :: "Policy option"

definition AttachPolicy :: "Policy option \<Rightarrow> Trigger \<Rightarrow> Trigger" where
  "AttachPolicy p t = t\<lparr>tr_policy := p\<rparr>"

definition TriggerPolicy :: "Trigger option \<Rightarrow> Policy option" where
  "TriggerPolicy t = Option.bind t tr_policy"

record simpleTriggerConfig =
  sc_Type :: string
  sc_On :: string
  sc_GroupName :: string
  sc_DeviceID :: string
  sc_InterfaceName :: "string option"
  sc_InterfaceMajor :: "int option"
  sc_MatchPath :: string
  sc_ValueMatchOperator :: string
  sc_KnownValue :: "dyn option"

section \<open>Field errors\<close>

text \<open>A map from fields to messages, as the list of the add calls in order.\<close>

type_synonym fieldErrs = "(string \<times> string) list"

definition add_field :: "string \<Rightarrow> string \<Rightarrow> fieldErrs \<Rightarrow> fieldErrs" where
  "add_field field msg fe = fe @ [(field, msg)]"

definition fieldMessages :: "fieldErrs \<Rightarrow> string \<Rightarrow> string list" where
  "fieldMessages fe field = map snd (filter (\<lambda>e. fst e = field) fe)"

definition add_if :: "bool \<Rightarrow> string \<Rightarrow> string \<Rightarrow> fieldErrs \<Rightarrow> fieldErrs" where
  "add_if b field msg fe = (if b then add_field field msg fe else fe)"

datatype simple_error =
    FieldViolations fieldErrs
  | UnknownTriggerType string

section \<open>Compilation of conditions\<close>

definition isExtendedDeviceID :: "string \<Rightarrow> bool" where
  "isExtendedDeviceID s =
    (if length s \<le> EncodedLen then False
     else list_all (\<lambda>c. CHR ''A'' \<le> c \<and> c \<le> CHR ''Z'' \<or> CHR ''a'' \<le> c \<and> c \<le> CHR ''z'' \<or>
       CHR ''0'' \<le> c \<and> c \<le> CHR ''9'' \<or> c = CHR ''-'' \<or> c = CHR ''_'') s)"

definition deviceFilterErrs :: "string \<Rightarrow> string \<Rightarrow> fieldErrs \<Rightarrow> fieldErrs" where
  "deviceFilterErrs deviceID groupName fe =
    (let fe = add_if (deviceID \<noteq> [] \<and> groupName \<noteq> []) ''group_name''
           ''must not be defined if device_id is defined'' fe
     in if deviceID \<noteq> [] \<and> deviceID \<noteq> anyToken \<and> \<not> is_ok (Parse deviceID) then
          (if isExtendedDeviceID deviceID
           then add_field ''device_id'' ''is too long, device id must be 128 bits'' fe
           else add_field ''device_id'' ''is not a valid device id'' fe)
        else fe)"

definition noteUnsupported :: "bool \<Rightarrow> unsupported \<Rightarrow> Trigger \<Rightarrow> Trigger" where
  "noteUnsupported cond what t =
    (if \<not> cond then t
     else if what \<in> set (tr_Unsupported t) then t
     else t\<lparr>tr_Unsupported := tr_Unsupported t @ [what]\<rparr>)"

text \<open>The violations compileData accumulates, in the order of its checks.\<close>

definition dataErrs :: "simpleTriggerConfig \<Rightarrow> fieldErrs" where
  "dataErrs c =
    (let known = (sc_On c \<in> set dataOns);
         iface = (case sc_InterfaceName c of Some n \<Rightarrow> n | None \<Rightarrow> []);
         op = sc_ValueMatchOperator c;
         fe = [];
         fe = (if sc_On c = [] then add_field ''on'' ''can't be blank'' fe
               else if \<not> known then add_field ''on'' ''is invalid'' fe else fe);
         fe = add_if (iface = []) ''interface_name'' ''can't be blank'' fe;
         fe = add_if (sc_MatchPath c = []) ''match_path'' ''can't be blank'' fe;
         fe = (if op = [] then add_field ''value_match_operator'' ''can't be blank'' fe
               else if op \<notin> set valueOperators then add_field ''value_match_operator'' ''is invalid'' fe else fe);
         fe = (if iface = anyToken then
                 (if sc_On c \<noteq> OnIncomingData
                  then add_field ''on'' ''must be incoming_data when interface_name is *'' fe
                  else if sc_MatchPath c \<noteq> anyPath
                  then add_field ''match_path'' ''must be /* when interface_name is *'' fe else fe)
               else
                 (let fe = add_if (iface \<noteq> [] \<and> \<not> MatchString interfaceNameRe iface)
                        ''interface_name'' ''has invalid format'' fe
                  in add_if (sc_InterfaceMajor c = None) ''interface_major'' ''can't be blank'' fe));
         fe = deviceFilterErrs (sc_DeviceID c) (sc_GroupName c) fe;
         fe = (if sc_MatchPath c = anyPath
               then add_if (op \<noteq> anyToken \<and> op \<noteq> []) ''value_match_operator'' ''must be * when match_path is /*'' fe
               else add_if (sc_MatchPath c \<noteq> [] \<and> \<not> MatchString matchPathRE (sc_MatchPath c))
                      ''match_path'' ''has invalid format'' fe)
     in add_if (op \<noteq> anyToken \<and> op \<noteq> [] \<and> sc_KnownValue c = None) ''known_value'' ''can't be blank'' fe)"

definition dataMatcherOf :: "simpleTriggerConfig \<Rightarrow> dataMatcher" where
  "dataMatcherOf c =
    \<lparr>dm_on = sc_On c, dm_deviceID = sc_DeviceID c,
     dm_iface = (case sc_InterfaceName c of Some n \<Rightarrow> n | None \<Rightarrow> []),
     dm_major = (case sc_InterfaceMajor c of Some n \<Rightarrow> n | None \<Rightarrow> 0),
     dm_anyPath = (sc_MatchPath c = anyPath),
     dm_pathSegs = (if sc_MatchPath c = anyPath then [] else drop 1 (SplitByte CHR ''/'' (sc_MatchPath c))),
     dm_operator = sc_ValueMatchOperator c,
     dm_known = (case sc_KnownValue c of Some v \<Rightarrow> v | None \<Rightarrow> ANil),
     dm_evaluated = (sc_On c \<in> set dataOns \<and> sc_GroupName c = [])\<rparr>"

definition compileData :: "simpleTriggerConfig \<Rightarrow> Trigger \<Rightarrow> simple_error + Trigger" where
  "compileData c t =
    (let fe = dataErrs c
     in if fe \<noteq> [] then Inl (FieldViolations fe)
        else
          (let t = noteUnsupported (sc_On c \<notin> set dataOns) (UnsupportedDataOn (sc_On c)) t;
               t = noteUnsupported (sc_GroupName c \<noteq> []) UnsupportedGroup t
           in Inr (t\<lparr>tr_data := tr_data t @ [dataMatcherOf c]\<rparr>)))"

definition deviceErrs :: "simpleTriggerConfig \<Rightarrow> fieldErrs" where
  "deviceErrs c =
    (let known = (map_of deviceOns (sc_On c) \<noteq> None);
         hasName = (case sc_InterfaceName c of Some n \<Rightarrow> n \<noteq> [] | None \<Rightarrow> False);
         name = (if hasName then the (sc_InterfaceName c) else []);
         intro = (sc_On c \<in> set introspectionOns);
         minor = (sc_On c = OnInterfaceMinorUpdated);
         fe = [];
         fe = (if sc_On c = [] then add_field ''on'' ''can't be blank'' fe
               else if \<not> known then add_field ''on'' ''is invalid'' fe else fe);
         fe = deviceFilterErrs (sc_DeviceID c) (sc_GroupName c) fe;
         fe = add_if (hasName \<and> \<not> intro) ''interface_name''
                ''is allowed only in if 'on' is one of interface_minor_updated, interface_removed, interface_added'' fe;
         fe = (if intro then
                 (if name = [] then
                    (let fe = add_if minor ''interface_name'' ''must be set in interface_minor_updated triggers'' fe
                     in add_if (sc_InterfaceMajor c = None) ''interface_major'' ''can't be blank'' fe)
                  else if name = anyToken then
                    add_if minor ''interface_name'' ''must not be '*' in interface_minor_updated triggers'' fe
                  else
                    (let fe = add_if (\<not> MatchString interfaceNameRe name) ''interface_name'' ''has invalid format'' fe
                     in add_if (sc_InterfaceMajor c = None) ''interface_major'' ''can't be blank'' fe))
               else fe)
     in add_if (sc_On c = OnIncomingIntrospection \<and> hasName) ''interface_name''
          ''must not be set in incoming_introspection triggers'' fe)"

definition compileDevice :: "simpleTriggerConfig \<Rightarrow> Trigger \<Rightarrow> simple_error + Trigger" where
  "compileDevice c t =
    (let evaluated = (map_of deviceOns (sc_On c) = Some True);
         hasName = (case sc_InterfaceName c of Some n \<Rightarrow> n \<noteq> [] | None \<Rightarrow> False);
         name = (if hasName then the (sc_InterfaceName c) else []);
         fe = deviceErrs c
     in if fe \<noteq> [] then Inl (FieldViolations fe)
        else
          (let m = \<lparr>vm_on = sc_On c, vm_deviceID = sc_DeviceID c, vm_iface = name,
                    vm_major = (if sc_On c \<in> set introspectionOns \<and> name \<noteq> anyToken then sc_InterfaceMajor c else None),
                    vm_evaluated = (evaluated \<and> sc_GroupName c = [])\<rparr>;
               t = noteUnsupported (\<not> evaluated) (UnsupportedDeviceOn (sc_On c)) t;
               t = noteUnsupported (sc_GroupName c \<noteq> []) UnsupportedGroup t
           in Inr (t\<lparr>tr_device := tr_device t @ [m]\<rparr>)))"

definition compileSimple :: "simpleTriggerConfig \<Rightarrow> Trigger \<Rightarrow> simple_error + Trigger" where
  "compileSimple c t =
    (if sc_Type c = ''data_trigger'' then compileData c t
     else if sc_Type c = ''device_trigger'' then compileDevice c t
     else Inl (UnknownTriggerType (sc_Type c)))"

section \<open>Actions\<close>

definition minURLRunes :: nat where "minURLRunes = 8"
definition maxURLRunes :: nat where "maxURLRunes = 8192"
definition maxHeadersBytes :: nat where "maxHeadersBytes = 8192"
definition maxTemplateRunes :: nat where "maxTemplateRunes = 1048576"

definition blockedHeaderNames :: "string list" where
  "blockedHeaderNames =
    [''connection'', ''content-length'', ''date'', ''host'', ''te'', ''upgrade'', ''x-forwarded-for'',
     ''x-forwarded-host'', ''x-forwarded-proto'', ''sec-websocket-accept'', ''proxy-authorization'',
     ''proxy-authenticate'']"

record httpAction =
  ha_HTTPURL :: string
  ha_HTTPMethod :: string
  ha_HTTPPostURL :: string
  ha_HTTPStaticHeaders :: "(string \<times> string) list"
  ha_IgnoreSSLErrors :: bool
  ha_Template :: string
  ha_TemplateType :: string

text \<open>A stored action: its text, the struct it decodes into and the amqp_exchange member, None
  where decoding fails.\<close>

record rawAction =
  ra_text :: string
  ra_http :: "httpAction option"
  ra_amqp :: "string option"

definition httpMethods :: "string list" where
  "httpMethods = [''delete'', ''get'', ''head'', ''options'', ''patch'', ''post'', ''put'']"

text \<open>parseURL stands for url.Parse: the scheme and the host, or None on an error.\<close>

definition isHTTPURL :: "(string \<Rightarrow> (string \<times> string) option) \<Rightarrow> string \<Rightarrow> bool" where
  "isHTTPURL parseURL raw =
    (case parseURL raw of
       None \<Rightarrow> False
     | Some (scheme, host) \<Rightarrow> (scheme = ''http'' \<or> scheme = ''https'') \<and> host \<noteq> [])"

definition validateURLField ::
  "(string \<Rightarrow> (string \<times> string) option) \<Rightarrow> string \<Rightarrow> string \<Rightarrow> fieldErrs \<Rightarrow> fieldErrs" where
  "validateURLField parseURL field raw fe =
    (let n = RuneCount raw;
         fe = (if n < minURLRunes then add_field field (''should be at least '' @ Itoa (int minURLRunes) @ '' character(s)'') fe
               else if n > maxURLRunes then add_field field (''should be at most '' @ Itoa (int maxURLRunes) @ '' character(s)'') fe
               else fe)
     in add_if (\<not> isHTTPURL parseURL raw) field ''must be a valid http(s) URL'' fe)"

definition validateStaticHeaders :: "(string \<times> string) list \<Rightarrow> fieldErrs \<Rightarrow> fieldErrs" where
  "validateStaticHeaders headers fe =
    (let fe = add_if (list_ex (\<lambda>h. ToLower (TrimSpace (fst h)) \<in> set blockedHeaderNames) headers)
           ''http_static_headers'' ''must contain only allowed http headers'' fe;
         total = sum_list (map (\<lambda>h. length (fst h) + 2 + length (snd h)) headers)
     in add_if (total \<ge> maxHeadersBytes) ''http_static_headers''
          (''headers total size must be lower than '' @ Itoa (int maxHeadersBytes)) fe)"

definition validateTemplate :: "string \<Rightarrow> fieldErrs \<Rightarrow> fieldErrs" where
  "validateTemplate template fe =
    add_if (RuneCount template > maxTemplateRunes) ''template''
      (''should be at most '' @ Itoa (int maxTemplateRunes) @ '' character(s)'') fe"

datatype action_error =
    MissingAction
  | ActionParse
  | ActionFields fieldErrs
  | AmqpUnsupported

definition legacyErrs :: "(string \<Rightarrow> (string \<times> string) option) \<Rightarrow> httpAction \<Rightarrow> fieldErrs" where
  "legacyErrs parseURL h =
    (let fe = add_if (ha_HTTPURL h \<noteq> []) ''http_url'' ''must be blank'' [];
         fe = add_if (ha_HTTPMethod h \<noteq> []) ''http_method'' ''must be blank'' fe;
         fe = add_if (ha_HTTPStaticHeaders h \<noteq> []) ''http_static_headers'' ''must be blank'' fe;
         fe = validateURLField parseURL ''http_post_url'' (ha_HTTPPostURL h) fe
     in validateTemplate (ha_Template h) fe)"

definition modernErrs :: "(string \<Rightarrow> (string \<times> string) option) \<Rightarrow> httpAction \<Rightarrow> fieldErrs" where
  "modernErrs parseURL h =
    (let fe = (if ha_HTTPMethod h = [] then add_field ''http_method'' ''can't be blank'' []
               else if ha_HTTPMethod h \<notin> set httpMethods then add_field ''http_method'' ''is invalid'' [] else []);
         fe = add_if (ha_HTTPPostURL h \<noteq> []) ''http_post_url'' ''must be blank'' fe;
         fe = validateURLField parseURL ''http_url'' (ha_HTTPURL h) fe;
         fe = validateStaticHeaders (ha_HTTPStaticHeaders h) fe
     in validateTemplate (ha_Template h) fe)"

definition parseAction ::
  "(string \<Rightarrow> (string \<times> string) option) \<Rightarrow> rawAction option \<Rightarrow> action_error + Action \<times> unsupported list" where
  "parseAction parseURL raw =
    (case raw of
       None \<Rightarrow> Inl MissingAction
     | Some a \<Rightarrow>
         (case ra_http a of
            None \<Rightarrow> Inl ActionParse
          | Some h \<Rightarrow>
              (let unsup = (if ha_TemplateType h \<noteq> [] \<and> ha_TemplateType h \<noteq> ''mustache''
                            then [UnsupportedTemplate (ha_TemplateType h)] else [])
               in if ha_HTTPPostURL h \<noteq> [] then
                    (let fe = legacyErrs parseURL h
                     in if fe \<noteq> [] then Inl (ActionFields fe)
                        else Inr (\<lparr>ac_Method = ''POST'', ac_URL = ha_HTTPPostURL h,
                               ac_StaticHeaders = ha_HTTPStaticHeaders h, ac_IgnoreSSLErrors = ha_IgnoreSSLErrors h,
                               ac_Custom = None, ac_Template = ha_Template h, ac_TemplateType = ha_TemplateType h\<rparr>, unsup))
                  else if ha_HTTPURL h \<noteq> [] then
                    (let fe = modernErrs parseURL h
                     in if fe \<noteq> [] then Inl (ActionFields fe)
                        else Inr (\<lparr>ac_Method = ToUpper (ha_HTTPMethod h), ac_URL = ha_HTTPURL h,
                               ac_StaticHeaders = ha_HTTPStaticHeaders h, ac_IgnoreSSLErrors = ha_IgnoreSSLErrors h,
                               ac_Custom = None, ac_Template = ha_Template h, ac_TemplateType = ha_TemplateType h\<rparr>, unsup))
                  else if (case ra_amqp a of Some x \<Rightarrow> x \<noteq> [] | None \<Rightarrow> False) then Inl AmqpUnsupported
                  else Inr (\<lparr>ac_Method = [], ac_URL = [], ac_StaticHeaders = [], ac_IgnoreSSLErrors = False,
                         ac_Custom = Some (ra_text a), ac_Template = [], ac_TemplateType = []\<rparr>, unsup))))"

section \<open>Compilation of definitions\<close>

record triggerDefinition =
  td_Action :: "rawAction option"
  td_Policy :: string
  td_SimpleTriggers :: "simpleTriggerConfig list"

text \<open>TriggerErrors: the violations of the action, and those of the conditions by index (an empty
  entry is a condition without violations).\<close>

datatype trigger_error =
    TriggerParse
  | NoSimpleTriggers
  | ActionError action_error
  | SimpleError nat string
  | TriggerErrors fieldErrs "fieldErrs list"

text \<open>The loop over the conditions: the trigger and the violations collected so far.\<close>

fun compileSimples ::
  "nat \<Rightarrow> simpleTriggerConfig list \<Rightarrow> Trigger \<Rightarrow> fieldErrs list \<Rightarrow> trigger_error + Trigger \<times> fieldErrs list" where
  "compileSimples i [] t st = Inr (t, st)"
| "compileSimples i (c # cs) t st =
     (case compileSimple c t of
        Inr t' \<Rightarrow> compileSimples (i + 1) cs t' st
      | Inl (FieldViolations fe) \<Rightarrow>
          compileSimples (i + 1) cs t (st @ replicate (i - length st) [] @ [fe])
      | Inl (UnknownTriggerType ty) \<Rightarrow> Inl (SimpleError i ty))"

definition Compile_trigger ::
  "(string \<Rightarrow> (string \<times> string) option) \<Rightarrow> string \<Rightarrow> triggerDefinition option \<Rightarrow> trigger_error + Trigger" where
  "Compile_trigger parseURL name d =
    (case d of
       None \<Rightarrow> Inl TriggerParse
     | Some d \<Rightarrow>
         (if td_SimpleTriggers d = [] then Inl NoSimpleTriggers
          else
            (let t = \<lparr>tr_Name = name, tr_Action = None, tr_Unsupported = [], tr_PolicyName = td_Policy d,
                      tr_data = [], tr_device = [], tr_policy = None\<rparr>
             in bindR (case parseAction parseURL (td_Action d) of
                  Inl (ActionFields fe) \<Rightarrow> Inr (t, fe)
                | Inl e \<Rightarrow> Inl (ActionError e)
                | Inr (action, unsup) \<Rightarrow>
                    Inr (t\<lparr>tr_Action := Some action, tr_Unsupported := tr_Unsupported t @ unsup\<rparr>, []))
                (\<lambda>(t, afe). bindR (compileSimples 0 (td_SimpleTriggers d) t [])
                  (\<lambda>(t, st). if afe \<noteq> [] \<or> st \<noteq> [] then Inl (TriggerErrors afe st) else Inr t)))))"

text \<open>Transient triggers (transient.go) have a condition and no action.\<close>

definition CompileCondition :: "string \<Rightarrow> simpleTriggerConfig option \<Rightarrow> simple_error option + Trigger" where
  "CompileCondition name c =
    (case c of
       None \<Rightarrow> Inl None
     | Some c \<Rightarrow>
         (case compileSimple c \<lparr>tr_Name = name, tr_Action = None, tr_Unsupported = [], tr_PolicyName = [],
             tr_data = [], tr_device = [], tr_policy = None\<rparr> of
            Inl e \<Rightarrow> Inl (Some e)
          | Inr t \<Rightarrow> Inr t))"

section \<open>Evaluation\<close>

definition deviceIDMatches :: "string \<Rightarrow> string \<Rightarrow> bool" where
  "deviceIDMatches filt deviceID = (filt = [] \<or> filt = anyToken \<or> filt = deviceID)"

definition segMatches_trigger :: "string \<Rightarrow> string \<Rightarrow> bool" where
  "segMatches_trigger pattern seg =
    (if HasPrefix pattern ''%{'' \<and> HasSuffix pattern ''}'' then seg \<noteq> [] else pattern = seg)"

text \<open>The loop over the compiled levels: the last one takes all that is left.\<close>

fun pathLoop :: "string list \<Rightarrow> string \<Rightarrow> bool" where
  "pathLoop [] rest = (rest = [])"
| "pathLoop [seg] rest = (\<not> Contains rest ''/'' \<and> segMatches_trigger seg rest)"
| "pathLoop (seg # segs) rest =
     (case Cut rest CHR ''/'' of (cur, rest, ok) \<Rightarrow>
        ok \<and> \<not> Contains cur ''/'' \<and> segMatches_trigger seg cur \<and> pathLoop segs rest)"

definition pathMatches_trigger :: "string list \<Rightarrow> string \<Rightarrow> bool" where
  "pathMatches_trigger segs path = (HasPrefix path ''/'' \<and> pathLoop segs (drop 1 path))"

fun numeric :: "dyn \<Rightarrow> float64 option" where
  "numeric (AFloat n) = Some n"
| "numeric (AInt32 n) = Some (f64_of_int (sint n))"
| "numeric (AInt64 n) = Some (f64_of_int (sint n))"
| "numeric (AInt n) = Some (f64_of_int n)"
| "numeric _ = None"

text \<open>valueEquals: whether the two are equal, and whether they were comparable.\<close>

definition valueEquals :: "dyn \<Rightarrow> dyn \<Rightarrow> bool \<times> bool" where
  "valueEquals val known =
    (case numeric val of
       Some a \<Rightarrow> (case numeric known of Some b \<Rightarrow> (f64_eq a b, True) | None \<Rightarrow> (False, False))
     | None \<Rightarrow>
         (case val of
            AString v \<Rightarrow> (case known of AString s \<Rightarrow> (v = s, True) | _ \<Rightarrow> (False, False))
          | ABool v \<Rightarrow> (case known of ABool b \<Rightarrow> (v = b, True) | _ \<Rightarrow> (False, False))
          | _ \<Rightarrow> (False, False)))"

definition sliceContains :: "dyn list \<Rightarrow> dyn \<Rightarrow> bool" where
  "sliceContains xs known = list_ex (\<lambda>x. case valueEquals x known of (eq, ok) \<Rightarrow> ok \<and> eq) xs"

definition containable :: "dyn \<Rightarrow> (dyn \<Rightarrow> bool) option" where
  "containable val =
    (case val of
       AString v \<Rightarrow> Some (\<lambda>known. case known of AString s \<Rightarrow> Contains v s | _ \<Rightarrow> False)
     | AStrings v \<Rightarrow> Some (sliceContains (map AString v))
     | AFloats v \<Rightarrow> Some (sliceContains (map AFloat v))
     | AInt32s v \<Rightarrow> Some (sliceContains (map AInt32 v))
     | AInt64s v \<Rightarrow> Some (sliceContains (map AInt64 v))
     | ABools v \<Rightarrow> Some (sliceContains (map ABool v))
     | _ \<Rightarrow> None)"

definition containsValue :: "dyn \<Rightarrow> dyn \<Rightarrow> bool" where
  "containsValue val known = (case containable val of Some c \<Rightarrow> c known | None \<Rightarrow> False)"

definition valueMatches :: "string \<Rightarrow> dyn \<Rightarrow> dyn \<Rightarrow> bool" where
  "valueMatches op val known =
    (if op = anyToken then True
     else if val = ANil then False
     else if op = ''=='' then (case valueEquals val known of (eq, ok) \<Rightarrow> ok \<and> eq)
     else if op = ''!='' then (case valueEquals val known of (eq, ok) \<Rightarrow> ok \<and> \<not> eq)
     else if op \<in> {''>'', ''>='', ''<'', ''<=''} then
       (case (numeric val, numeric known) of
          (Some a, Some b) \<Rightarrow>
            (if op = ''>'' then f64_less b a else if op = ''>='' then f64_le b a
             else if op = ''<'' then f64_less a b else f64_le a b)
        | _ \<Rightarrow> False)
     else if op = ''contains'' then containsValue val known
     else if op = ''not_contains'' then (case containable val of Some c \<Rightarrow> \<not> c known | None \<Rightarrow> False)
     else False)"

definition matches :: "dataMatcher \<Rightarrow> DataEvent \<Rightarrow> bool" where
  "matches m ev =
    (if \<not> dm_evaluated m \<or> dm_on m \<noteq> ev_On ev then False
     else if \<not> deviceIDMatches (dm_deviceID m) (ev_DeviceID ev) then False
     else if dm_iface m \<noteq> anyToken \<and> (dm_iface m \<noteq> ev_Interface ev \<or> dm_major m \<noteq> ev_Major ev) then False
     else if \<not> dm_anyPath m \<and> \<not> pathMatches_trigger (dm_pathSegs m) (ev_Path ev) then False
     else if ev_On ev = OnPathRemoved then True
     else valueMatches (dm_operator m) (ev_Value ev) (dm_known m))"

definition MatchesData :: "Trigger \<Rightarrow> DataEvent \<Rightarrow> bool" where
  "MatchesData t ev = list_ex (\<lambda>m. matches m ev) (tr_data t)"

definition matchesDevice :: "deviceMatcher \<Rightarrow> DeviceEvent \<Rightarrow> bool" where
  "matchesDevice m ev =
    (if \<not> vm_evaluated m \<or> vm_on m \<noteq> dv_On ev then False
     else if \<not> deviceIDMatches (vm_deviceID m) (dv_DeviceID ev) then False
     else if vm_on m \<in> set introspectionOns \<and> vm_iface m \<noteq> [] \<and> vm_iface m \<noteq> anyToken \<and> vm_iface m \<noteq> dv_Interface ev
     then False
     else if vm_on m \<in> set introspectionOns \<and> vm_major m \<noteq> None \<and> vm_major m \<noteq> Some (dv_Major ev) then False
     else True)"

definition MatchesDevice :: "Trigger \<Rightarrow> DeviceEvent \<Rightarrow> bool" where
  "MatchesDevice t ev = list_ex (\<lambda>m. matchesDevice m ev) (tr_device t)"

definition tracks :: "dataMatcher \<Rightarrow> DataEvent \<Rightarrow> bool" where
  "tracks m ev =
    (if \<not> dm_evaluated m \<or> dm_on m \<notin> set prevOns then False
     else if \<not> deviceIDMatches (dm_deviceID m) (ev_DeviceID ev) then False
     else if dm_iface m \<noteq> anyToken \<and> (dm_iface m \<noteq> ev_Interface ev \<or> dm_major m \<noteq> ev_Major ev) then False
     else if \<not> dm_anyPath m \<and> \<not> pathMatches_trigger (dm_pathSegs m) (ev_Path ev) then False
     else True)"

definition TracksChanges :: "Trigger \<Rightarrow> DataEvent \<Rightarrow> bool" where
  "TracksChanges t ev = list_ex (\<lambda>m. tracks m ev) (tr_data t)"

section \<open>Error names\<close>

definition upstreamErrorNames :: "string list" where
  "upstreamErrorNames =
    [''write_on_server_owned_interface'', ''invalid_interface'', ''invalid_path'', ''mapping_not_found'',
     ''interface_loading_failed'', ''ambiguous_path'', ''undecodable_bson_payload'', ''unexpected_value_type'',
     ''value_size_exceeded'', ''unexpected_object_key'', ''invalid_introspection'', ''unexpected_control_message'',
     ''device_session_not_found'', ''resend_interface_properties_failed'', ''empty_cache_error'']"

definition upstreamFallback :: string where "upstreamFallback = ''interface_loading_failed''"

definition astrateToUpstream :: "(string \<times> string) list" where
  "astrateToUpstream =
    [(''realm_unknown'', ''device_session_not_found''), (''device_unknown'', ''device_session_not_found''),
     (''malformed_topic'', ''invalid_path''), (''interface_not_in_introspection'', ''interface_loading_failed''),
     (''interface_not_installed'', ''interface_loading_failed''),
     (''ownership_violation'', ''write_on_server_owned_interface''), (''unexpected_path'', ''mapping_not_found''),
     (''introspection_invalid'', ''invalid_introspection''), (''control_unknown'', ''unexpected_control_message''),
     (''control_payload_invalid'', ''unexpected_control_message''), (''too_large'', ''value_size_exceeded''),
     (''unknown_format'', ''undecodable_bson_payload''), (''malformed'', ''undecodable_bson_payload''),
     (''no_value'', ''unexpected_value_type''), (''bad_timestamp'', ''unexpected_value_type''),
     (''type_mismatch'', ''unexpected_value_type''), (''value_too_large'', ''value_size_exceeded''),
     (''bad_object'', ''unexpected_object_key''), (''missing_required'', ''unexpected_object_key''),
     (''unset_not_allowed'', ''unexpected_value_type'')]"

definition UpstreamErrorName :: "string \<Rightarrow> string" where
  "UpstreamErrorName reason =
    (if reason \<in> set upstreamErrorNames then reason
     else (case map_of astrateToUpstream reason of Some m \<Rightarrow> m | None \<Rightarrow> upstreamFallback))"

record DeviceErrorEvent =
  de_Type :: string
  de_ErrorName :: string
  de_Metadata :: "string \<Rightarrow> string option"

definition NewDeviceErrorEvent :: "string \<Rightarrow> (string \<Rightarrow> string option) \<Rightarrow> DeviceErrorEvent" where
  "NewDeviceErrorEvent errorName metadata =
    (let upstream = UpstreamErrorName errorName
     in \<lparr>de_Type = OnDeviceError, de_ErrorName = upstream,
         de_Metadata = (if upstream \<noteq> errorName then metadata(''astrate_reason'' \<mapsto> errorName) else metadata)\<rparr>)"

section \<open>The pattern of match paths\<close>

lemma lang_ident: "w \<in> lang identRE \<longleftrightarrow> validIdentifier w"
proof -
  have s: "in_class identStart c \<longleftrightarrow> c = CHR ''_'' \<or> c \<in> {CHR ''A''..CHR ''Z''} \<or> c \<in> {CHR ''a''..CHR ''z''}" for c
    by (auto simp: in_class_def identStart_def)
  have r: "in_class identRest c \<longleftrightarrow> identChar c" for c
    by (auto simp: in_class_def identRest_def identChar_def)
  have sr: "in_class identStart c \<Longrightarrow> in_class identRest c" for c unfolding s r identChar_def by auto
  have loop: "identLoop (Suc i) v \<longleftrightarrow> list_all identChar v" for i v
    by (induction v arbitrary: i) (auto simp: identChar_def)
  have "w \<in> lang identRE \<longleftrightarrow> w \<noteq> [] \<and> in_class identStart (hd w) \<and> list_all identChar (tl w)"
  proof
    assume "w \<in> lang identRE"
    then obtain u v where uv: "w = u @ v" "u \<noteq> []" "in_class identStart (hd u)" "list_all (in_class identStart) (tl u)"
      "list_all (in_class identRest) v"
      unfolding identRE_def lang_cat [of _ "RCat _ _"] lang_head_star lang_star_class by blast
    then show "w \<noteq> [] \<and> in_class identStart (hd w) \<and> list_all identChar (tl w)"
      using sr by (cases u) (auto simp: list_all_iff r)
  next
    assume h: "w \<noteq> [] \<and> in_class identStart (hd w) \<and> list_all identChar (tl w)"
    then have "w = [hd w] @ tl w" "[hd w] \<in> lang (RCat (RClass identStart) (RStar (RClass identStart)))"
      "tl w \<in> lang (RStar (RClass identRest))"
      unfolding lang_head_star lang_star_class by (simp_all add: list_all_iff r)
    then show "w \<in> lang identRE" unfolding identRE_def lang_cat [of _ "RCat _ _"] by blast
  qed
  then show ?thesis by (cases w) (auto simp: validIdentifier_def s loop)
qed

lemma lang_level: "w \<in> lang levelRE \<longleftrightarrow> (\<exists>s. segment_ok s \<and> w = CHR ''/'' # renderSegment s)"
proof -
  have "w \<in> lang levelRE \<longleftrightarrow>
      (\<exists>n. validIdentifier n \<and> (w = CHR ''/'' # CHR ''%'' # CHR ''{'' # n @ ''}'' \<or> w = CHR ''/'' # n))"
    unfolding levelRE_def lang_cat lang.simps(4) Un_iff lang_lit lang_ident by fastforce
  also have "\<dots> \<longleftrightarrow> (\<exists>s. segment_ok s \<and> w = CHR ''/'' # renderSegment s)"
  proof
    assume "\<exists>n. validIdentifier n \<and> (w = CHR ''/'' # CHR ''%'' # CHR ''{'' # n @ ''}'' \<or> w = CHR ''/'' # n)"
    then obtain n where n: "validIdentifier n" "w = CHR ''/'' # CHR ''%'' # CHR ''{'' # n @ ''}'' \<or> w = CHR ''/'' # n" by blast
    from n(2) show "\<exists>s. segment_ok s \<and> w = CHR ''/'' # renderSegment s"
    proof
      assume "w = CHR ''/'' # CHR ''%'' # CHR ''{'' # n @ ''}''"
      with n(1) show ?thesis
        by (intro exI [of _ "\<lparr>es_literal = n, es_param = True\<rparr>"]) (simp add: segment_ok_def renderSegment_def)
    next
      assume "w = CHR ''/'' # n"
      with n(1) show ?thesis
        by (intro exI [of _ "\<lparr>es_literal = n, es_param = False\<rparr>"]) (simp add: segment_ok_def renderSegment_def)
    qed
  qed (auto simp: segment_ok_def renderSegment_def)
  finally show ?thesis .
qed

lemma renderEndpoint_step: "renderEndpoint (s # segs) = (CHR ''/'' # renderSegment s) @ renderEndpoint segs"
  by (simp add: renderEndpoint_def)

lemma ex_nonempty: "(\<exists>x xs. P (x # xs)) \<longleftrightarrow> (\<exists>xs. xs \<noteq> [] \<and> P xs)"
  by (metis list.distinct(1) neq_Nil_conv)

lemma lang_upto_levels:
  "w \<in> lang (RUpTo levelRE n) \<longleftrightarrow> (\<exists>segs. length segs \<le> n \<and> list_all segment_ok segs \<and> w = renderEndpoint segs)"
proof (induction n arbitrary: w)
  case 0
  then show ?case by (auto simp: renderEndpoint_def)
next
  case (Suc n)
  have "w \<in> lang (RCat levelRE (RUpTo levelRE n)) \<longleftrightarrow>
      (\<exists>s segs. segment_ok s \<and> length segs \<le> n \<and> list_all segment_ok segs \<and> w = renderEndpoint (s # segs))"
    unfolding lang_cat lang_level Suc.IH renderEndpoint_step by blast
  also have "\<dots> \<longleftrightarrow> (\<exists>segs. segs \<noteq> [] \<and> length segs \<le> Suc n \<and> list_all segment_ok segs \<and> w = renderEndpoint segs)"
    using ex_nonempty [of "\<lambda>x. length x \<le> Suc n \<and> list_all segment_ok x \<and> w = renderEndpoint x"] by simp blast
  finally have c: "w \<in> lang (RCat levelRE (RUpTo levelRE n)) \<longleftrightarrow>
      (\<exists>segs. segs \<noteq> [] \<and> length segs \<le> Suc n \<and> list_all segment_ok segs \<and> w = renderEndpoint segs)" .
  have "w \<in> lang (RUpTo levelRE (Suc n)) \<longleftrightarrow> w \<in> lang (RCat levelRE (RUpTo levelRE n)) \<or> w = renderEndpoint []"
    by (auto simp: ROpt_def renderEndpoint_def)
  then show ?case unfolding c by (metis le0 list.size(3) list.pred_inject(1))
qed

lemma matchPathRE_endpoint: "MatchString matchPathRE s \<longleftrightarrow> is_ok (splitEndpoint s)"
proof -
  have "MatchString matchPathRE s \<longleftrightarrow>
      (\<exists>sg segs. segment_ok sg \<and> length segs \<le> 63 \<and> list_all segment_ok segs \<and> s = renderEndpoint (sg # segs))"
    unfolding MatchString_lang matchPathRE_def lang_cat lang_level lang_upto_levels renderEndpoint_step by blast
  also have "\<dots> \<longleftrightarrow> (\<exists>segs. s = renderEndpoint segs \<and> segs \<noteq> [] \<and> length segs \<le> MaxEndpointDepth \<and> list_all segment_ok segs)"
    using ex_nonempty [of "\<lambda>x. length x \<le> 64 \<and> list_all segment_ok x \<and> s = renderEndpoint x"]
    by (auto simp: MaxEndpointDepth_def)
  also have "\<dots> \<longleftrightarrow> is_ok (splitEndpoint s)"
    unfolding is_ok_ex splitEndpoint_iff by blast
  finally show ?thesis .
qed

section \<open>Match paths and endpoints\<close>

lemma pathLoop_levels:
  "segs \<noteq> [] \<Longrightarrow> pathLoop segs rest \<longleftrightarrow> list_all2 segMatches_trigger segs (SplitByte CHR ''/'' rest)"
proof (induction segs rest rule: pathLoop.induct)
  case (2 seg rest)
  show ?case
  proof (cases "CHR ''/'' \<in> set rest")
    case True
    then obtain a b where "rest = a @ CHR ''/'' # b" "CHR ''/'' \<notin> set a" by (metis split_list_first)
    moreover obtain l ls where "SplitByte CHR ''/'' b = l # ls" by (meson SplitByte_nonempty neq_Nil_conv)
    ultimately show ?thesis by (simp add: SplitByte_app Contains_char)
  qed (simp add: Contains_char)
next
  case (3 seg s2 segs rest)
  show ?case
  proof (cases "CHR ''/'' \<in> set rest")
    case True
    then obtain a b where "rest = a @ CHR ''/'' # b" "CHR ''/'' \<notin> set a" by (metis split_list_first)
    then show ?thesis using "3.IH" [of a "(b, True)" b True] by (simp add: SplitByte_app Contains_char)
  qed simp
qed simp

lemma renderEndpoint_Join:
  "segs \<noteq> [] \<Longrightarrow> renderEndpoint segs = CHR ''/'' # Join (map renderSegment segs) ''/''"
proof (induction segs)
  case (Cons s segs)
  then show ?case by (cases segs) (simp_all add: renderEndpoint_def)
qed simp

lemma renderSegment_no_slash: "segment_ok s \<Longrightarrow> CHR ''/'' \<notin> set (renderSegment s)"
  using validIdentifier_chars [of "es_literal s" "CHR ''/''"]
  by (auto simp: segment_ok_def renderSegment_def identChar_def)

lemma endpoint_levels:
  assumes "segs \<noteq> []" "list_all segment_ok segs"
  shows "drop 1 (SplitByte CHR ''/'' (renderEndpoint segs)) = map renderSegment segs"
proof -
  have "SplitByte CHR ''/'' (Join (map renderSegment segs) ''/'') = map renderSegment segs"
    using assms renderSegment_no_slash by (intro SplitByte_Join) (auto simp: list_all_iff)
  then show ?thesis
    using SplitByte_app [of "CHR ''/''" "[]" "Join (map renderSegment segs) ''/''"]
    by (simp add: renderEndpoint_Join [OF assms(1)])
qed

lemma segMatches_trigger_of:
  assumes "segment_ok s" "segMatches s p"
  shows "segMatches_trigger (renderSegment s) p"
proof (cases "es_param s")
  case True
  have "HasSuffix (''%{'' @ es_literal s @ ''}'') ''}''" by (auto simp: HasSuffix_iff)
  moreover have "HasPrefix (''%{'' @ es_literal s @ ''}'') ''%{''" by (auto simp: HasPrefix_iff)
  ultimately show ?thesis using True assms(2) by (simp add: segMatches_trigger_def segMatches_def renderSegment_def)
next
  case False
  have "CHR ''%'' \<notin> set (es_literal s)"
    using validIdentifier_chars [of "es_literal s" "CHR ''%''"] assms(1) by (auto simp: segment_ok_def identChar_def)
  then have "\<not> HasPrefix (es_literal s) ''%{''" by (auto simp: HasPrefix_iff)
  with False assms(2) show ?thesis by (simp add: segMatches_trigger_def segMatches_def renderSegment_def)
qed

lemma answers_trigger:
  assumes "mapping_ok ty m" "answers m path"
  shows "pathMatches_trigger (drop 1 (SplitByte CHR ''/'' (m_Endpoint m))) path"
proof -
  note ok = segments_ne [OF assms(1)] segments_ok [OF assms(1)]
  have ep: "m_Endpoint m = renderEndpoint (segments m)"
    using mapping_segments [OF assms(1)] by (simp add: splitEndpoint_iff)
  have l: "list_all2 segMatches (segments m) (pathLevels path)" using assms(2) by (simp add: answers_def)
  with ok(1) obtain rest where p: "path = CHR ''/'' # rest" "pathLevels path = SplitByte CHR ''/'' rest"
    by (cases path) (auto simp: pathLevels_def split: if_splits)
  have "list_all2 segMatches_trigger (map renderSegment (segments m)) (SplitByte CHR ''/'' rest)"
    using l ok(2) unfolding p(2) list_all2_map1 by (auto simp: list_all2_conv_all_nth list_all_length intro: segMatches_trigger_of)
  then show ?thesis
    using ok(1) by (simp add: pathMatches_trigger_def p(1) ep endpoint_levels [OF ok, unfolded One_nat_def] pathLoop_levels HasPrefix_def)
qed

text \<open>A condition on incoming data at one endpoint of an interface.\<close>

definition dataTriggerOn :: "Interface \<Rightarrow> string \<Rightarrow> simpleTriggerConfig" where
  "dataTriggerOn i ep =
    \<lparr>sc_Type = ''data_trigger'', sc_On = OnIncomingData, sc_GroupName = [], sc_DeviceID = [],
     sc_InterfaceName = Some (i_Name i), sc_InterfaceMajor = Some (i_Major i), sc_MatchPath = ep,
     sc_ValueMatchOperator = anyToken, sc_KnownValue = None\<rparr>"

lemma interface_name_concrete: "MatchString interfaceNameRe n \<Longrightarrow> n \<noteq> [] \<and> n \<noteq> anyToken"
proof -
  have "\<not> MatchString interfaceNameRe []" "\<not> MatchString interfaceNameRe anyToken" by code_simp+
  then show "MatchString interfaceNameRe n \<Longrightarrow> n \<noteq> [] \<and> n \<noteq> anyToken" by blast
qed

lemma endpoint_concrete: "is_ok (splitEndpoint ep) \<Longrightarrow> ep \<noteq> [] \<and> ep \<noteq> anyPath"
proof -
  have "\<not> is_ok (splitEndpoint [])" "\<not> is_ok (splitEndpoint anyPath)" by code_simp+
  then show "is_ok (splitEndpoint ep) \<Longrightarrow> ep \<noteq> [] \<and> ep \<noteq> anyPath" by blast
qed

lemma dataTriggerOn_ok:
  assumes "MatchString interfaceNameRe (i_Name i)" "is_ok (splitEndpoint ep)"
  shows "dataErrs (dataTriggerOn i ep) = []"
proof -
  have "anyToken \<in> set valueOperators" "anyToken \<noteq> []" "OnIncomingData \<in> set dataOns" "OnIncomingData \<noteq> []" by code_simp+
  then show ?thesis
    using assms interface_name_concrete [OF assms(1)] endpoint_concrete [OF assms(2)]
    by (simp add: dataErrs_def dataTriggerOn_def Let_def add_if_def deviceFilterErrs_def matchPathRE_endpoint)
qed

lemma compileData_ok:
  "dataErrs c = [] \<Longrightarrow> \<exists>t'. compileData c t = Inr t' \<and> dataMatcherOf c \<in> set (tr_data t')"
  by (simp add: compileData_def Let_def)

text \<open>C16. Every data path an interface accepts can be watched: for the mapping the trie resolves the
  path to, the trigger whose match_path is that declared endpoint passes validation and fires on the
  event of the publish.\<close>

theorem endpoint_trigger_fires:
  assumes "ParseInterface raw = Inr i" "Compile (Some i) ids = Inr ci" "Match (Some (ci_Trie ci)) path = Some cm"
    and "ev_On ev = OnIncomingData" "ev_Interface ev = i_Name i" "ev_Major ev = i_Major i" "ev_Path ev = path"
  shows "\<exists>m \<in> set (i_Mappings i). cm = compiledAs ids m \<and>
    (\<exists>t'. compileSimple (dataTriggerOn i (m_Endpoint m)) t = Inr t' \<and> MatchesData t' ev)"
proof -
  have ok: "interface_ok i" by (rule ParseInterface_ok [OF assms(1)])
  from assms(3) Match_Compile [OF ok assms(2)] obtain m where m: "m \<in> set (i_Mappings i)" "answers m path" "cm = compiledAs ids m"
    by blast
  have mok: "mapping_ok (i_Type i) m" using ok m(1) by (auto simp: interface_ok_def list_all_iff)
  have ep: "is_ok (splitEndpoint (m_Endpoint m))" using mapping_segments [OF mok] by simp
  have name: "MatchString interfaceNameRe (i_Name i)" using ok by (simp add: interface_ok_def)
  have k: "OnIncomingData \<in> set dataOns" "OnIncomingData \<noteq> OnPathRemoved" by code_simp+
  have "matches (dataMatcherOf (dataTriggerOn i (m_Endpoint m))) ev"
    using answers_trigger [OF mok m(2)] endpoint_concrete [OF ep] assms(4-7) k
    by (simp add: dataMatcherOf_def dataTriggerOn_def matches_def deviceIDMatches_def valueMatches_def)
  moreover obtain t' where "compileSimple (dataTriggerOn i (m_Endpoint m)) t = Inr t'"
    "dataMatcherOf (dataTriggerOn i (m_Endpoint m)) \<in> set (tr_data t')"
    using compileData_ok [OF dataTriggerOn_ok [OF name ep], of t]
    by (auto simp: compileSimple_def dataTriggerOn_def)
  ultimately have "\<exists>t'. compileSimple (dataTriggerOn i (m_Endpoint m)) t = Inr t' \<and> MatchesData t' ev"
    unfolding MatchesData_def list_ex_iff by blast
  with m(1,3) show ?thesis by blast
qed


section \<open>Value conditions\<close>

lemma sint_bound32: "\<bar>sint (a :: 32 word)\<bar> < 2 ^ 53"
proof -
  have "sint a < 2 ^ (LENGTH(32) - 1)" "- (2 ^ (LENGTH(32) - 1)) \<le> sint a"
    by (rule sint_lt, rule sint_ge)
  then show ?thesis by simp
qed

text \<open>C37. Comparison conditions on integers compare the integers: for published integers (and long
  integers below 2^53 in magnitude) and known values that are such integers, every ordering and
  equality operator answers as on the integers themselves, although both sides are widened to
  float64.\<close>

theorem integer_conditions_exact:
  assumes "v = AInt32 a \<and> i = sint a \<or> v = AInt64 b \<and> i = sint b \<and> \<bar>sint b\<bar> < 2 ^ 53" "\<bar>k\<bar> < 2 ^ 53"
  shows "(valueMatches ''>'' v (AFloat (f64_of_int k)) \<longleftrightarrow> i > k) \<and>
    (valueMatches ''>='' v (AFloat (f64_of_int k)) \<longleftrightarrow> i \<ge> k) \<and>
    (valueMatches ''<'' v (AFloat (f64_of_int k)) \<longleftrightarrow> i < k) \<and>
    (valueMatches ''<='' v (AFloat (f64_of_int k)) \<longleftrightarrow> i \<le> k) \<and>
    (valueMatches ''=='' v (AFloat (f64_of_int k)) \<longleftrightarrow> i = k) \<and>
    (valueMatches ''!='' v (AFloat (f64_of_int k)) \<longleftrightarrow> i \<noteq> k)"
proof -
  have v: "numeric v = Some (f64_of_int i)" "v \<noteq> ANil" "\<bar>i\<bar> < 2 ^ 53"
    using assms(1) sint_bound32 by auto
  show ?thesis
    using f64_compare_int [OF v(3) assms(2)] f64_compare_int [OF assms(2) v(3)] v(1,2)
    by (simp add: valueMatches_def valueEquals_def anyToken_def)
qed

text \<open>A device_error event always carries a name of the closed upstream set, translation is
  idempotent, and the untranslated reason is never lost: it is the name itself or under
  astrate_reason in the metadata.\<close>

theorem error_event_closed:
  "de_ErrorName (NewDeviceErrorEvent reason md) \<in> set upstreamErrorNames \<and>
   UpstreamErrorName (de_ErrorName (NewDeviceErrorEvent reason md)) = de_ErrorName (NewDeviceErrorEvent reason md) \<and>
   (de_ErrorName (NewDeviceErrorEvent reason md) = reason \<or>
    de_Metadata (NewDeviceErrorEvent reason md) ''astrate_reason'' = Some reason)"
proof -
  have "\<forall>p \<in> set astrateToUpstream. snd p \<in> set upstreamErrorNames" by code_simp
  moreover have "upstreamFallback \<in> set upstreamErrorNames" by code_simp
  ultimately have "UpstreamErrorName r \<in> set upstreamErrorNames" for r
    by (auto simp: UpstreamErrorName_def split: option.splits dest!: map_of_SomeD)
  then show ?thesis by (simp add: NewDeviceErrorEvent_def Let_def) (simp add: UpstreamErrorName_def)
qed

section \<open>Witnesses\<close>

definition sampleDataEvent :: DataEvent where
  "sampleDataEvent = \<lparr>ev_DeviceID = [], ev_On = OnIncomingData,
     ev_Interface = i_Name (parsed (sampleDocument AggregationIndividual [''/%{id}/temp'', ''/state''])),
     ev_Major = i_Major (parsed (sampleDocument AggregationIndividual [''/%{id}/temp'', ''/state''])),
     ev_Path = ''/4/temp'', ev_Value = ANil\<rparr>"

definition sampleTrigger :: Trigger where
  "sampleTrigger = \<lparr>tr_Name = ''t'', tr_Action = None, tr_Unsupported = [], tr_PolicyName = [], tr_data = [],
     tr_device = [], tr_policy = None\<rparr>"

definition changeMatcher :: dataMatcher where
  "changeMatcher = \<lparr>dm_on = OnValueChange, dm_deviceID = [], dm_iface = ''org.example'', dm_major = 1, dm_anyPath = False,
     dm_pathSegs = [''%{id}'', ''temp''], dm_operator = ''>'', dm_known = AFloat (f64_of_int 20), dm_evaluated = True\<rparr>"

definition changeEvent :: DataEvent where
  "changeEvent = \<lparr>ev_DeviceID = [], ev_On = OnValueChange, ev_Interface = ''org.example'', ev_Major = 1,
     ev_Path = ''/4/temp'', ev_Value = AInt32 21\<rparr>"

theorem endpoint_trigger_fires_witness:
  "\<exists>(m :: Mapping) t'. compileSimple (dataTriggerOn (parsed (sampleDocument AggregationIndividual [''/%{id}/temp'', ''/state''])) (m_Endpoint m))
     sampleTrigger = Inr t' \<and> MatchesData t' sampleDataEvent"
proof -
  let ?i = "parsed (sampleDocument AggregationIndividual [''/%{id}/temp'', ''/state''])"
  have m: "i_Mappings ?i \<noteq> [] \<and> answers (i_Mappings ?i ! 0) ''/4/temp''" by code_simp
  then have "i_Mappings ?i ! 0 \<in> set (i_Mappings ?i)" by simp
  with m have "Match (Some (ci_Trie (compiled ?i))) ''/4/temp'' = Some (compiledAs None (i_Mappings ?i ! 0))"
    using Match_Compile [OF ParseInterface_ok [OF sample_parses(1)] sample_compiles] by blast
  moreover have "ev_On sampleDataEvent = OnIncomingData" "ev_Interface sampleDataEvent = i_Name ?i"
    "ev_Major sampleDataEvent = i_Major ?i" "ev_Path sampleDataEvent = ''/4/temp''"
    by (simp_all add: sampleDataEvent_def)
  ultimately show ?thesis
    using endpoint_trigger_fires [OF sample_parses(1) sample_compiles, of _ _ sampleDataEvent sampleTrigger] by blast
qed


theorem integer_conditions_exact_witness:
  "valueMatches ''>'' (AInt32 21) (AFloat (f64_of_int 20)) \<and> \<not> valueMatches ''<'' (AInt32 21) (AFloat (f64_of_int 20))"
  using integer_conditions_exact [of "AInt32 21" 21 21 0 20] by simp

end
