(* ===== verification/Trigger_Executor.thy ===== *)
theory Trigger_Executor
  imports Trigger_Match
begin

text \<open>
  Model of the executor of internal/engine/triggers/actions.go: the bounded delivery queue, the
  per-policy capacity, the workers, the webhook retry loop and the shutdown.  The environment of
  one delivery (the clock, the JSON rendering of the event, the mustache template library, the
  forwarder, the answers of the webhook endpoint and whether the executor is closed during a
  backoff) is an argument.  Enqueue is modelled at the granularity of its critical sections, so
  that its interleavings with the workers and with Close are explicit.
\<close>

section \<open>Configuration and deliveries\<close>

definition DefaultWorkers :: int where "DefaultWorkers = 4"
definition DefaultQueueSize :: int where "DefaultQueueSize = 256"
definition DefaultMaxAttempts :: int where "DefaultMaxAttempts = 5"
definition DefaultBackoffStart :: int where "DefaultBackoffStart = 250 * 1000000"
definition DefaultBackoffCap :: int where "DefaultBackoffCap = 5 * 1000000000"
definition DefaultRequestTimeout :: int where "DefaultRequestTimeout = 10 * 1000000000"

record ExecutorConfig =
  ec_Workers :: int
  ec_QueueSize :: int
  ec_MaxAttempts :: int
  ec_BackoffStart :: int
  ec_BackoffCap :: int
  ec_RequestTimeout :: int

definition NewExecutor_config :: "ExecutorConfig \<Rightarrow> ExecutorConfig" where
  "NewExecutor_config cfg =
    \<lparr>ec_Workers = (if ec_Workers cfg \<le> 0 then DefaultWorkers else ec_Workers cfg),
     ec_QueueSize = (if ec_QueueSize cfg \<le> 0 then DefaultQueueSize else ec_QueueSize cfg),
     ec_MaxAttempts = (if ec_MaxAttempts cfg \<le> 0 then DefaultMaxAttempts else ec_MaxAttempts cfg),
     ec_BackoffStart = (if ec_BackoffStart cfg \<le> 0 then DefaultBackoffStart else ec_BackoffStart cfg),
     ec_BackoffCap = (if ec_BackoffCap cfg \<le> 0 then DefaultBackoffCap else ec_BackoffCap cfg),
     ec_RequestTimeout = (if ec_RequestTimeout cfg \<le> 0 then DefaultRequestTimeout else ec_RequestTimeout cfg)\<rparr>"

text \<open>The event is kept abstract: only its rendering matters.\<close>

record 'e Delivery =
  dl_Realm :: string
  dl_Trigger :: Trigger
  dl_Event :: 'e
  dl_enqueuedAt :: int

datatype outcome = Delivered | Failed | Dropped | Expired | Forwarded | Skipped

record 'e delivery_env =
  de_now :: int
  de_marshal :: "'e \<Rightarrow> string option"
  de_render :: "string \<Rightarrow> string \<Rightarrow> 'e \<Rightarrow> string option"
  de_forwarder :: "(string \<Rightarrow> string \<Rightarrow> string \<Rightarrow> string \<Rightarrow> bool) option"
  de_attempt :: "nat \<Rightarrow> string \<Rightarrow> int option"
  de_closing :: "nat \<Rightarrow> bool"

section \<open>The webhook loop\<close>

text \<open>The decision after attempt number n: stop with an outcome, or wait and try again.  An answer
  None is a transport error.\<close>

definition afterAttempt ::
  "Policy option \<Rightarrow> int \<Rightarrow> nat \<Rightarrow> int option \<Rightarrow> outcome option" where
  "afterAttempt policy maxAttempts n answer =
    (if (case answer of Some status \<Rightarrow> status < 400 | None \<Rightarrow> False) then Some Delivered
     else
       (case policy of
          Some p \<Rightarrow>
            (let effective = (case answer of Some status \<Rightarrow> status | None \<Rightarrow> StatusTransport);
                 dec = Decide (Some p) effective
             in if dec_Strategy dec = StrategyDiscard then Some Failed
                else if int n \<ge> maxAttempts then Some Failed
                else None)
        | None \<Rightarrow>
            (if (case answer of Some status \<Rightarrow> status < 500 | None \<Rightarrow> False) then Some Failed
             else if int n \<ge> maxAttempts then Some Failed
             else None)))"

record webhook_run =
  wr_outcome :: outcome
  wr_attempts :: nat
  wr_waits :: "int list"

lemma afterAttempt_last: "afterAttempt p m n a = None \<Longrightarrow> int n < m"
  by (auto simp: afterAttempt_def Let_def split: option.splits if_splits)

text \<open>The loop from attempt n on; every wait is counted by the retries metric before it starts,
  and a wait that the closing channel interrupts ends the delivery.\<close>

function webhookLoop ::
  "Policy option \<Rightarrow> int \<Rightarrow> int \<Rightarrow> (nat \<Rightarrow> int option) \<Rightarrow> (nat \<Rightarrow> bool) \<Rightarrow> nat \<Rightarrow> int \<Rightarrow> int list \<Rightarrow> webhook_run" where
  "webhookLoop policy maxAttempts cap answer closing n backoff waits =
    (case afterAttempt policy maxAttempts n (answer n) of
       Some out \<Rightarrow> \<lparr>wr_outcome = out, wr_attempts = n, wr_waits = waits\<rparr>
     | None \<Rightarrow>
         (if closing n then \<lparr>wr_outcome = Failed, wr_attempts = n, wr_waits = waits @ [backoff]\<rparr>
          else webhookLoop policy maxAttempts cap answer closing (Suc n) (min (backoff * 2) cap) (waits @ [backoff])))"
  by pat_completeness auto
termination
  by (relation "measure (\<lambda>(p, m, cap, answer, closing, n, backoff, waits). nat (m - int n))")
    (auto dest!: afterAttempt_last)

declare webhookLoop.simps [simp del]

definition webhook :: "ExecutorConfig \<Rightarrow> Policy option \<Rightarrow> (nat \<Rightarrow> int option) \<Rightarrow> (nat \<Rightarrow> bool) \<Rightarrow> webhook_run" where
  "webhook cfg policy answer closing =
    webhookLoop policy
      (case policy of Some p \<Rightarrow> pol_RetryTimes p + 1 | None \<Rightarrow> ec_MaxAttempts cfg)
      (ec_BackoffCap cfg) answer closing 1 (ec_BackoffStart cfg) []"

section \<open>One delivery\<close>

definition forward :: "'e delivery_env \<Rightarrow> 'e Delivery \<Rightarrow> string \<Rightarrow> string \<Rightarrow> outcome" where
  "forward env d custom body =
    (case de_forwarder env of
       None \<Rightarrow> Skipped
     | Some f \<Rightarrow> if f (dl_Realm d) (tr_Name (dl_Trigger d)) custom body then Forwarded else Failed)"

text \<open>deliver; None is the panic of a trigger without action.\<close>

definition deliver :: "ExecutorConfig \<Rightarrow> 'e delivery_env \<Rightarrow> 'e Delivery \<Rightarrow> outcome option" where
  "deliver cfg env d =
    (if (case tr_policy (dl_Trigger d) of
           None \<Rightarrow> False
         | Some pol \<Rightarrow> sint (pol_EventTTL pol) > 0 \<and> de_now env - dl_enqueuedAt d > sint (pol_EventTTL pol))
     then Some Expired
     else
       (case de_marshal env (dl_Event d) of
          None \<Rightarrow> Some Failed
        | Some body \<Rightarrow>
            (case tr_Action (dl_Trigger d) of
               None \<Rightarrow> None
             | Some a \<Rightarrow>
                 (let body = (if ac_TemplateType a = ''mustache'' then
                                (case de_render env (ac_Template a) (dl_Realm d) (dl_Event d) of
                                   None \<Rightarrow> body | Some rendered \<Rightarrow> rendered)
                              else body)
                  in case ac_Custom a of
                       Some custom \<Rightarrow> Some (forward env d custom body)
                     | None \<Rightarrow>
                         Some (wr_outcome (webhook cfg (tr_policy (dl_Trigger d))
                           (\<lambda>n. de_attempt env n body) (de_closing env)))))))"

section \<open>The executor\<close>

record 'e Executor =
  ex_senders :: "('e Delivery \<times> bool) list"
  ex_queue :: "'e Delivery list"
  ex_running :: "'e Delivery list"
  ex_policyInflight :: "string \<Rightarrow> int"
  ex_closing :: bool
  ex_chClosed :: bool
  ex_outcomes :: "outcome \<Rightarrow> nat"
  ex_panic :: bool

definition emptyExecutor :: "'e Executor" where
  "emptyExecutor = \<lparr>ex_senders = [], ex_queue = [], ex_running = [], ex_policyInflight = (\<lambda>_. 0),
     ex_closing = False, ex_chClosed = False, ex_outcomes = (\<lambda>_. 0), ex_panic = False\<rparr>"

definition countOutcome :: "outcome \<Rightarrow> 'e Executor \<Rightarrow> 'e Executor" where
  "countOutcome out x = x\<lparr>ex_outcomes := (ex_outcomes x)(out := ex_outcomes x out + 1)\<rparr>"

definition addInflight :: "string \<Rightarrow> int \<Rightarrow> 'e Executor \<Rightarrow> 'e Executor" where
  "addInflight name k x = x\<lparr>ex_policyInflight := (ex_policyInflight x)(name := ex_policyInflight x name + k)\<rparr>"

text \<open>Enqueue: the check of the closing channel under the read lock; the reservation under
  policyMu; the send, with the rollback of the reservation.  A sender of the list holds the read
  lock and remembers whether it has passed the reservation.\<close>

definition enqueueBegin :: "'e Delivery \<Rightarrow> 'e Executor \<Rightarrow> 'e Executor" where
  "enqueueBegin d x =
    (if ex_closing x then countOutcome Dropped x else x\<lparr>ex_senders := (d, False) # ex_senders x\<rparr>)"

definition enqueueReserve :: "'e Delivery \<Rightarrow> 'e Executor \<Rightarrow> 'e Executor" where
  "enqueueReserve d x =
    (let x' = x\<lparr>ex_senders := remove1 (d, False) (ex_senders x)\<rparr>
     in case tr_policy (dl_Trigger d) of
          None \<Rightarrow> x'\<lparr>ex_senders := (d, True) # ex_senders x'\<rparr>
        | Some pol \<Rightarrow>
            (if ex_policyInflight x (pol_Name pol) \<ge> pol_MaximumCapacity pol then countOutcome Dropped x'
             else addInflight (pol_Name pol) 1 (x'\<lparr>ex_senders := (d, True) # ex_senders x'\<rparr>)))"

definition releaseInflight :: "'e Delivery \<Rightarrow> 'e Executor \<Rightarrow> 'e Executor" where
  "releaseInflight d x =
    (case tr_policy (dl_Trigger d) of None \<Rightarrow> x | Some pol \<Rightarrow> addInflight (pol_Name pol) (- 1) x)"

definition enqueueSend :: "ExecutorConfig \<Rightarrow> 'e Delivery \<Rightarrow> 'e Executor \<Rightarrow> 'e Executor" where
  "enqueueSend cfg d x =
    (let x' = x\<lparr>ex_senders := remove1 (d, True) (ex_senders x)\<rparr>
     in if ex_chClosed x then x'\<lparr>ex_panic := True\<rparr>
        else if int (length (ex_queue x)) < ec_QueueSize cfg then x'\<lparr>ex_queue := ex_queue x' @ [d]\<rparr>
        else countOutcome Dropped (releaseInflight d x'))"

text \<open>The whole of Enqueue when nothing interferes.\<close>

definition Enqueue :: "ExecutorConfig \<Rightarrow> int \<Rightarrow> 'e Delivery \<Rightarrow> 'e Executor \<Rightarrow> 'e Executor" where
  "Enqueue cfg now d x =
    (let d' = d\<lparr>dl_enqueuedAt := now\<rparr>; x1 = enqueueBegin d' x
     in if ex_closing x then x1
        else (let x2 = enqueueReserve d' x1
              in if (d', True) \<in> set (ex_senders x2) then enqueueSend cfg d' x2 else x2))"

text \<open>Close: closing the closing channel, then, once the write lock is granted, the queue.\<close>

definition closeBegin :: "'e Executor \<Rightarrow> 'e Executor" where
  "closeBegin x = x\<lparr>ex_closing := True\<rparr>"

definition closeQueue :: "'e Executor \<Rightarrow> 'e Executor" where
  "closeQueue x = x\<lparr>ex_chClosed := True\<rparr>"

text \<open>A worker takes the head of the queue, and finishes a delivery.\<close>

definition workerTake :: "'e Executor \<Rightarrow> 'e Executor" where
  "workerTake x = x\<lparr>ex_queue := tl (ex_queue x), ex_running := hd (ex_queue x) # ex_running x\<rparr>"

definition workerFinish :: "ExecutorConfig \<Rightarrow> 'e delivery_env \<Rightarrow> 'e Delivery \<Rightarrow> 'e Executor \<Rightarrow> 'e Executor" where
  "workerFinish cfg env d x =
    (let x' = releaseInflight d (x\<lparr>ex_running := remove1 d (ex_running x)\<rparr>)
     in case deliver cfg env d of
          None \<Rightarrow> x'\<lparr>ex_panic := True\<rparr>
        | Some out \<Rightarrow> countOutcome out x')"

text \<open>What the engine enqueues: a trigger compiled from its definition, with a compiled policy or none
  attached.\<close>

definition compiledOrNone :: "Policy option \<Rightarrow> bool" where
  "compiledOrNone p \<longleftrightarrow> (case p of None \<Rightarrow> True | Some pol \<Rightarrow> \<exists>doc. CompilePolicy doc = Some (Inr pol))"

definition engineDelivery :: "'e Delivery \<Rightarrow> bool" where
  "engineDelivery d \<longleftrightarrow>
    (\<exists>url name def t p. Compile_trigger url name def = Inr t \<and> dl_Trigger d = AttachPolicy p t \<and>
      compiledOrNone p)"

text \<open>The executor under any interleaving of calls of Enqueue with deliveries in adm; the natural
  number counts these calls.\<close>

inductive executes :: "ExecutorConfig \<Rightarrow> ('e Delivery \<Rightarrow> bool) \<Rightarrow> nat \<Rightarrow> 'e Executor \<Rightarrow> bool" for cfg adm where
  start: "executes cfg adm 0 emptyExecutor"
| enq_begin: "executes cfg adm (Suc n) (enqueueBegin d x)" if "executes cfg adm n x" "adm d"
| reserve: "executes cfg adm n (enqueueReserve d x)" if "executes cfg adm n x" "(d, False) \<in> set (ex_senders x)"
| send: "executes cfg adm n (enqueueSend cfg d x)" if "executes cfg adm n x" "(d, True) \<in> set (ex_senders x)"
| close_begin: "executes cfg adm n (closeBegin x)" if "executes cfg adm n x"
| close_queue: "executes cfg adm n (closeQueue x)" if "executes cfg adm n x" "ex_closing x" "ex_senders x = []"
| take: "executes cfg adm n (workerTake x)" if "executes cfg adm n x" "ex_queue x \<noteq> []"
| finish: "executes cfg adm n (workerFinish cfg env d x)" if "executes cfg adm n x" "d \<in> set (ex_running x)"

section \<open>The webhook loop characterised\<close>

lemma webhookLoop_run:
  fixes p m cap answer closing n b ws
  defines "r \<equiv> webhookLoop p m cap answer closing n b ws"
  shows "n \<le> wr_attempts r \<and>
    (\<forall>k. n \<le> k \<and> k < wr_attempts r \<longrightarrow> afterAttempt p m k (answer k) = None \<and> \<not> closing k) \<and>
    (case afterAttempt p m (wr_attempts r) (answer (wr_attempts r)) of
       Some out \<Rightarrow> wr_outcome r = out \<and>
         wr_waits r = ws @ map (\<lambda>k. ((\<lambda>x. min (x * 2) cap) ^^ k) b) [0..<wr_attempts r - n]
     | None \<Rightarrow> closing (wr_attempts r) \<and> wr_outcome r = Failed \<and>
         wr_waits r = ws @ map (\<lambda>k. ((\<lambda>x. min (x * 2) cap) ^^ k) b) [0..<Suc (wr_attempts r - n)])"
  unfolding r_def
proof (induction p m cap answer closing n b ws rule: webhookLoop.induct)
  case (1 p m cap answer closing n b ws)
  let ?f = "\<lambda>x. min (x * 2) cap"
  show ?case
  proof (cases "afterAttempt p m n (answer n)")
    case (Some out)
    then show ?thesis by (auto simp: webhookLoop.simps [of p m cap answer closing n])
  next
    case None
    show ?thesis
    proof (cases "closing n")
      case True
      with None show ?thesis by (auto simp: webhookLoop.simps [of p m cap answer closing n])
    next
      case False
      let ?r = "webhookLoop p m cap answer closing (Suc n) (?f b) (ws @ [b])"
      have eq: "webhookLoop p m cap answer closing n b ws = ?r"
        using None False by (simp add: webhookLoop.simps [of p m cap answer closing n])
      note IH = "1.IH" [OF None False]
      from IH have le: "Suc n \<le> wr_attempts ?r" by blast
      then have d: "wr_attempts ?r - n = Suc (wr_attempts ?r - Suc n)" by simp
      have w: "b # map (\<lambda>k. (?f ^^ k) (?f b)) [0..<j] = map (\<lambda>k. (?f ^^ k) b) [0..<Suc j]" for j
      proof -
        have s: "(?f ^^ k) (?f b) = (?f ^^ Suc k) b" for k by (simp only: funpow_Suc_right comp_apply)
        show ?thesis by (simp only: map_upt_Suc funpow_0 s)
      qed
      have w': "(ws @ [b]) @ map (\<lambda>k. (?f ^^ k) (?f b)) [0..<j] = ws @ map (\<lambda>k. (?f ^^ k) b) [0..<Suc j]" for j
        using w [of j] by simp
      have between: "n \<le> k \<and> k < wr_attempts ?r \<longrightarrow> afterAttempt p m k (answer k) = None \<and> \<not> closing k" for k
        using IH None False by (cases "k = n") auto
      show ?thesis unfolding eq d using IH le between unfolding w' by auto
    qed
  qed
qed

lemma backoff_sequence:
  assumes "0 < b" "0 < cap"
  shows "((\<lambda>x. min (x * 2) cap) ^^ k) b = (if k = 0 then b else min (b * 2 ^ k) (cap :: int))"
proof (induction k)
  case (Suc k)
  have "cap \<le> cap * 2" using assms(2) by simp
  with Suc show ?case by (cases "k = 0") (auto simp: min_def algebra_simps)
qed simp

lemma afterAttempt_delivered:
  "afterAttempt p m n a = Some Delivered \<longleftrightarrow> (\<exists>s. a = Some s \<and> s < 400)"
  by (auto simp: afterAttempt_def Let_def split: option.splits)

definition attemptBound :: "ExecutorConfig \<Rightarrow> Policy option \<Rightarrow> int" where
  "attemptBound cfg policy = (case policy of Some p \<Rightarrow> pol_RetryTimes p + 1 | None \<Rightarrow> ec_MaxAttempts cfg)"

lemma attemptBound_pos:
  assumes "compiledOrNone policy"
  shows "1 \<le> attemptBound (NewExecutor_config cfg) policy"
proof (cases policy)
  case None
  then show ?thesis by (simp add: attemptBound_def NewExecutor_config_def DefaultMaxAttempts_def)
next
  case (Some p)
  with assms obtain doc where "CompilePolicy doc = Some (Inr p)" by (auto simp: compiledOrNone_def)
  then have "0 \<le> pol_RetryTimes p" using CompilePolicy_ok [of doc p] by (auto simp: policy_ok_def split: if_splits)
  with Some show ?thesis by (simp add: attemptBound_def)
qed



section \<open>Accounting\<close>

definition policyNamed :: "string \<Rightarrow> 'e Delivery \<Rightarrow> bool" where
  "policyNamed nm d \<longleftrightarrow> (case tr_policy (dl_Trigger d) of None \<Rightarrow> False | Some pol \<Rightarrow> pol_Name pol = nm)"

definition reservedOf :: "('e Delivery \<times> bool) list \<Rightarrow> 'e Delivery list" where
  "reservedOf S = map fst (filter snd S)"

definition outstanding :: "'e Executor \<Rightarrow> 'e Delivery list" where
  "outstanding x = reservedOf (ex_senders x) @ ex_queue x @ ex_running x"

definition outcomeTotal :: "'e Executor \<Rightarrow> nat" where
  "outcomeTotal x = sum_list (map (ex_outcomes x) [Delivered, Failed, Dropped, Expired, Forwarded, Skipped])"

definition executor_ok :: "ExecutorConfig \<Rightarrow> ('e Delivery \<Rightarrow> bool) \<Rightarrow> nat \<Rightarrow> 'e Executor \<Rightarrow> bool" where
  "executor_ok cfg adm n x \<longleftrightarrow>
    \<not> ex_panic x \<and> int (length (ex_queue x)) \<le> max 0 (ec_QueueSize cfg) \<and>
    (\<forall>nm. ex_policyInflight x nm = int (length (filter (policyNamed nm) (outstanding x)))) \<and>
    outcomeTotal x + length (ex_senders x) + length (ex_queue x) + length (ex_running x) = n \<and>
    (ex_chClosed x \<longrightarrow> ex_closing x \<and> ex_senders x = []) \<and>
    (\<forall>d. d \<in> fst ` set (ex_senders x) \<union> set (ex_queue x) \<union> set (ex_running x) \<longrightarrow> adm d)"

lemma length_filter_remove1:
  "a \<in> set xs \<Longrightarrow> length (filter P xs) = (if P a then 1 else 0) + length (filter P (remove1 a xs))"
  by (induction xs) auto

lemma length_remove1_Suc: "a \<in> set xs \<Longrightarrow> Suc (length (remove1 a xs)) = length xs"
  by (induction xs) auto

lemma outcomeTotal_count [simp]: "outcomeTotal (countOutcome out x) = Suc (outcomeTotal x)"
  by (cases out) (simp_all add: outcomeTotal_def countOutcome_def)

lemma filter_map_fst: "filter P (map fst xs) = map fst (filter (P \<circ> fst) xs)"
  by (induction xs) auto

lemma releaseInflight_fields [simp]:
  "ex_senders (releaseInflight d x) = ex_senders x" "ex_queue (releaseInflight d x) = ex_queue x"
  "ex_running (releaseInflight d x) = ex_running x" "ex_closing (releaseInflight d x) = ex_closing x"
  "ex_chClosed (releaseInflight d x) = ex_chClosed x" "ex_panic (releaseInflight d x) = ex_panic x"
  "outcomeTotal (releaseInflight d x) = outcomeTotal x"
  by (simp_all add: releaseInflight_def addInflight_def outcomeTotal_def split: option.splits)

lemma releaseInflight_count [simp]:
  "ex_policyInflight (releaseInflight d x) nm = ex_policyInflight x nm - (if policyNamed nm d then 1 else 0)"
  by (simp add: releaseInflight_def addInflight_def policyNamed_def split: option.splits)

lemma countOutcome_fields [simp]:
  "ex_senders (countOutcome out x) = ex_senders x" "ex_queue (countOutcome out x) = ex_queue x"
  "ex_running (countOutcome out x) = ex_running x" "ex_closing (countOutcome out x) = ex_closing x"
  "ex_chClosed (countOutcome out x) = ex_chClosed x" "ex_panic (countOutcome out x) = ex_panic x"
  "ex_policyInflight (countOutcome out x) = ex_policyInflight x"
  by (simp_all add: countOutcome_def)

lemma outcomeTotal_update [simp]:
  "outcomeTotal (x\<lparr>ex_senders := s\<rparr>) = outcomeTotal x" "outcomeTotal (x\<lparr>ex_queue := q\<rparr>) = outcomeTotal x"
  "outcomeTotal (x\<lparr>ex_running := w\<rparr>) = outcomeTotal x" "outcomeTotal (x\<lparr>ex_policyInflight := f\<rparr>) = outcomeTotal x"
  "outcomeTotal (x\<lparr>ex_closing := b\<rparr>) = outcomeTotal x" "outcomeTotal (x\<lparr>ex_chClosed := b\<rparr>) = outcomeTotal x"
  "outcomeTotal (x\<lparr>ex_panic := b\<rparr>) = outcomeTotal x"
  by (simp_all add: outcomeTotal_def)

lemma outstanding_cong [simp]:
  "outstanding (countOutcome out x) = outstanding x" "outstanding (releaseInflight d x) = outstanding x"
  by (simp_all add: outstanding_def)

lemma filter_remove1_skip: "\<not> P a \<Longrightarrow> filter P (remove1 a xs) = filter P xs"
  by (induction xs) auto

text \<open>Taking a reserved sender or a running delivery out of the executor.\<close>

lemma senders_out:
  "(d, True) \<in> set S \<Longrightarrow>
    length (filter P (reservedOf S)) = (if P d then 1 else 0) + length (filter P (reservedOf (remove1 (d, True) S)))"
  using length_filter_remove1 [of "(d, True)" "filter snd S" "P \<circ> fst"]
  by (simp add: reservedOf_def filter_map_fst filter_remove1)

lemma reservedOf_simps [simp]:
  "reservedOf [] = []" "reservedOf ((d, True) # S) = d # reservedOf S" "reservedOf ((d, False) # S) = reservedOf S"
  "reservedOf (remove1 (d, False) S) = reservedOf S"
  by (simp_all add: reservedOf_def filter_remove1_skip)

lemma executor_ok_adm:
  "executor_ok cfg adm n x \<Longrightarrow> d \<in> fst ` set (ex_senders x) \<union> set (ex_queue x) \<union> set (ex_running x) \<Longrightarrow> adm d"
  unfolding executor_ok_def by blast

lemma executor_ok_sender: "executor_ok cfg adm n x \<Longrightarrow> (d, b) \<in> set (ex_senders x) \<Longrightarrow> adm d"
  by (rule executor_ok_adm) (auto intro: image_eqI [of _ fst "(d, b)"])

lemma executor_ok_senders: "executor_ok cfg adm n x \<Longrightarrow> e \<in> fst ` set (remove1 s (ex_senders x)) \<Longrightarrow> adm e"
  by (rule executor_ok_adm) (use set_remove1_subset [of s "ex_senders x"] in blast)+

lemma executor_ok_running: "executor_ok cfg adm n x \<Longrightarrow> e \<in> set (ex_running x) \<Longrightarrow> adm e"
  by (rule executor_ok_adm) auto

lemma executor_ok_open: "executor_ok cfg adm n x \<Longrightarrow> s \<in> set (ex_senders x) \<Longrightarrow> \<not> ex_chClosed x"
  unfolding executor_ok_def by auto

lemma executor_ok_begin: "executor_ok cfg adm n x \<Longrightarrow> adm d \<Longrightarrow> executor_ok cfg adm (Suc n) (enqueueBegin d x)"
  by (auto simp: executor_ok_def enqueueBegin_def outstanding_def)

lemma executor_ok_reserve:
  assumes ok: "executor_ok cfg adm n x" and d: "(d, False) \<in> set (ex_senders x)"
  shows "executor_ok cfg adm n (enqueueReserve d x)"
proof -
  let ?S = "remove1 (d, False) (ex_senders x)"
  have len: "Suc (length ?S) = length (ex_senders x)" by (rule length_remove1_Suc [OF d])
  have adm: "adm d" "\<And>e. e \<in> fst ` set ?S \<Longrightarrow> adm e"
    using executor_ok_sender [OF ok d] executor_ok_senders [OF ok] by blast+
  have open': "\<not> ex_chClosed x" by (rule executor_ok_open [OF ok d])
  show ?thesis
  proof (cases "tr_policy (dl_Trigger d)")
    case None
    then show ?thesis using ok len adm open'
      by (auto simp: executor_ok_def enqueueReserve_def Let_def outstanding_def policyNamed_def [of _ d])
  next
    case (Some pol)
    then show ?thesis using ok len adm open'
      by (auto simp: executor_ok_def enqueueReserve_def Let_def outstanding_def policyNamed_def [of _ d] addInflight_def)
  qed
qed

lemma executor_ok_send:
  assumes ok: "executor_ok cfg adm n x" and d: "(d, True) \<in> set (ex_senders x)"
  shows "executor_ok cfg adm n (enqueueSend cfg d x)"
proof -
  let ?S = "remove1 (d, True) (ex_senders x)"
  have len: "Suc (length ?S) = length (ex_senders x)" by (rule length_remove1_Suc [OF d])
  have adm: "adm d" "\<And>e. e \<in> fst ` set ?S \<Longrightarrow> adm e"
    using executor_ok_sender [OF ok d] executor_ok_senders [OF ok] by blast+
  have open': "\<not> ex_chClosed x" by (rule executor_ok_open [OF ok d])
  show ?thesis using ok len adm open' senders_out [OF d]
    by (auto simp: executor_ok_def enqueueSend_def Let_def outstanding_def)
qed

lemma executor_ok_take: "executor_ok cfg adm n x \<Longrightarrow> ex_queue x \<noteq> [] \<Longrightarrow> executor_ok cfg adm n (workerTake x)"
  by (cases "ex_queue x") (auto simp: executor_ok_def workerTake_def outstanding_def)

lemma executor_ok_finish:
  assumes ok: "executor_ok cfg adm n x" and d: "d \<in> set (ex_running x)" and del: "deliver cfg env d \<noteq> None"
  shows "executor_ok cfg adm n (workerFinish cfg env d x)"
proof -
  let ?R = "remove1 d (ex_running x)"
  have len: "Suc (length ?R) = length (ex_running x)" by (rule length_remove1_Suc [OF d])
  have adm: "adm d" "\<And>e. e \<in> set ?R \<Longrightarrow> adm e"
    using executor_ok_running [OF ok] d set_remove1_subset [of d "ex_running x"] by blast+
  from del obtain out where "deliver cfg env d = Some out" by blast
  then show ?thesis using ok len adm length_filter_remove1 [OF d]
    by (auto simp: executor_ok_def workerFinish_def Let_def outstanding_def)
qed

section \<open>Every compiled trigger has an action\<close>

lemma noteUnsupported_action [simp]: "tr_Action (noteUnsupported c w t) = tr_Action t"
  by (simp add: noteUnsupported_def)

lemma compileSimple_action: "compileSimple c t = Inr t' \<Longrightarrow> tr_Action t' = tr_Action t"
  by (auto simp: compileSimple_def compileData_def compileDevice_def Let_def split: if_splits)

lemma compileSimples_action: "compileSimples i cs t st = Inr (t', st') \<Longrightarrow> tr_Action t' = tr_Action t"
  by (induction i cs t st rule: compileSimples.induct)
    (auto split: sum.splits simple_error.splits dest: compileSimple_action)

lemma parseAction_fields: "parseAction url raw = Inl (ActionFields fe) \<Longrightarrow> fe \<noteq> []"
  by (auto simp: parseAction_def Let_def split: option.splits if_splits)

lemma Compile_trigger_action:
  assumes "Compile_trigger url name d = Inr t"
  shows "tr_Action t \<noteq> None"
proof -
  from assms obtain def where d: "d = Some def" by (auto simp: Compile_trigger_def split: option.splits)
  show ?thesis
  proof (cases "parseAction url (td_Action def)")
    case (Inl e)
    then have False
      using assms d parseAction_fields [of url "td_Action def"]
      by (cases e) (auto simp: Compile_trigger_def Let_def split: if_splits)
    then show ?thesis ..
  next
    case (Inr r)
    obtain action unsup where r: "r = (action, unsup)" by (cases r)
    from assms obtain t0 st where "compileSimples 0 (td_SimpleTriggers def) t0 [] = Inr (t, st)" "tr_Action t0 = Some action"
      by (auto simp: Compile_trigger_def Let_def d Inr r split: if_splits)
    from compileSimples_action [OF this(1)] this(2) show ?thesis by simp
  qed
qed

lemma deliver_total: "engineDelivery d \<Longrightarrow> deliver cfg env d \<noteq> None"
proof -
  assume "engineDelivery d"
  then obtain url name def t p where "Compile_trigger url name def = Inr t" "dl_Trigger d = AttachPolicy p t"
    by (auto simp: engineDelivery_def)
  then have "tr_Action (dl_Trigger d) \<noteq> None" using Compile_trigger_action by (auto simp: AttachPolicy_def)
  then show ?thesis by (auto simp: deliver_def Let_def split: option.splits)
qed

section \<open>Every interleaving keeps the books\<close>

lemma executes_ok:
  assumes "executes cfg adm n x" "\<And>d. adm d \<Longrightarrow> engineDelivery d"
  shows "executor_ok cfg adm n x"
  using assms(1)
proof (induction rule: executes.induct)
  case start
  then show ?case by (simp add: executor_ok_def emptyExecutor_def outstanding_def outcomeTotal_def)
next
  case (enq_begin n x d)
  then show ?case by (blast intro: executor_ok_begin)
next
  case (reserve n x d)
  then show ?case by (blast intro: executor_ok_reserve)
next
  case (send n x d)
  then show ?case by (blast intro: executor_ok_send)
next
  case (close_begin n x)
  then show ?case by (simp add: executor_ok_def closeBegin_def outstanding_def)
next
  case (close_queue n x)
  then show ?case by (simp add: executor_ok_def closeQueue_def outstanding_def)
next
  case (take n x)
  then show ?case by (blast intro: executor_ok_take)
next
  case (finish n x d env)
  then have "deliver cfg env d \<noteq> None"
    using executor_ok_running assms(2) deliver_total by blast
  with finish show ?case by (blast intro: executor_ok_finish)
qed

lemma executes_capacity:
  assumes "executes cfg adm n x" "\<And>d. adm d \<Longrightarrow> engineDelivery d" "0 \<le> C"
    and cap: "\<And>d pol. adm d \<Longrightarrow> tr_policy (dl_Trigger d) = Some pol \<Longrightarrow> pol_Name pol = nm \<Longrightarrow> pol_MaximumCapacity pol \<le> C"
  shows "ex_policyInflight x nm \<le> C"
  using assms(1)
proof (induction rule: executes.induct)
  case start
  then show ?case using assms(3) by (simp add: emptyExecutor_def)
next
  case (enq_begin n x d)
  then show ?case by (simp add: enqueueBegin_def)
next
  case (reserve n x d)
  have "adm d" using executor_ok_sender [OF executes_ok [OF reserve(1) assms(2)] reserve(2)] .
  then show ?case using reserve cap [of d]
    by (auto simp: enqueueReserve_def Let_def addInflight_def split: option.splits)
next
  case (send n x d)
  then show ?case by (simp add: enqueueSend_def Let_def)
next
  case (close_begin n x)
  then show ?case by (simp add: closeBegin_def)
next
  case (close_queue n x)
  then show ?case by (simp add: closeQueue_def)
next
  case (take n x)
  then show ?case by (simp add: workerTake_def)
next
  case (finish n x d env)
  then show ?case by (auto simp: workerFinish_def Let_def split: option.splits)
qed

text \<open>C2. Under every interleaving of Enqueue calls, workers and Close, for triggers the engine
  compiles: nothing is ever sent on the closed queue and no delivery meets a missing action; the
  queue never exceeds its capacity; every call of Enqueue is accounted for, by exactly one counted
  outcome or by a delivery still in flight; and the deliveries in flight under one policy name
  never exceed the capacity the policies of that name allow.\<close>

theorem executor_accounts:
  assumes "executes cfg adm n x" "\<forall>d. adm d \<longrightarrow> engineDelivery d"
  shows "\<not> ex_panic x \<and> int (length (ex_queue x)) \<le> max 0 (ec_QueueSize cfg) \<and>
    outcomeTotal x + length (ex_senders x) + length (ex_queue x) + length (ex_running x) = n \<and>
    (\<forall>nm C. 0 \<le> C \<and> (\<forall>d pol. adm d \<and> tr_policy (dl_Trigger d) = Some pol \<and> pol_Name pol = nm \<longrightarrow>
        pol_MaximumCapacity pol \<le> C) \<longrightarrow>
      int (length (filter (policyNamed nm) (outstanding x))) \<le> C)"
proof -
  have ok: "executor_ok cfg adm n x" by (rule executes_ok [OF assms(1)]) (use assms(2) in blast)
  have "int (length (filter (policyNamed nm) (outstanding x))) \<le> C"
    if "0 \<le> C" "\<forall>d pol. adm d \<and> tr_policy (dl_Trigger d) = Some pol \<and> pol_Name pol = nm \<longrightarrow> pol_MaximumCapacity pol \<le> C"
    for nm C
  proof -
    have "ex_policyInflight x nm \<le> C"
      by (rule executes_capacity [OF assms(1) _ that(1)]) (use assms(2) that(2) in blast)+
    then show ?thesis using ok by (simp add: executor_ok_def)
  qed
  with ok show ?thesis unfolding executor_ok_def by blast
qed

section \<open>Sample deliveries\<close>

definition sampleDefinition :: triggerDefinition where
  "sampleDefinition =
    \<lparr>td_Action = Some \<lparr>ra_text = [], ra_http = Some \<lparr>ha_HTTPURL = ''http://example.com'', ha_HTTPMethod = ''post'',
       ha_HTTPPostURL = [], ha_HTTPStaticHeaders = [], ha_IgnoreSSLErrors = False, ha_Template = [], ha_TemplateType = []\<rparr>,
       ra_amqp = None\<rparr>,
     td_Policy = ''retry-5xx'',
     td_SimpleTriggers = [\<lparr>sc_Type = ''device_trigger'', sc_On = OnDeviceConnected, sc_GroupName = [], sc_DeviceID = [],
       sc_InterfaceName = None, sc_InterfaceMajor = None, sc_MatchPath = [], sc_ValueMatchOperator = [], sc_KnownValue = None\<rparr>]\<rparr>"

definition sampleURL :: "string \<Rightarrow> (string \<times> string) option" where
  "sampleURL s = (if HasPrefix s ''http://'' then Some (''http'', drop 7 s) else None)"

definition sampleCompiled :: Trigger where
  "sampleCompiled = (case Compile_trigger sampleURL ''t'' (Some sampleDefinition) of Inr t \<Rightarrow> t | Inl _ \<Rightarrow> undefined)"

definition tightPolicyDoc :: policyDoc where
  "tightPolicyDoc = samplePolicyDoc\<lparr>pd_MaximumCapacity := 1\<rparr>"

definition sampleDelivery :: "string \<Rightarrow> unit Delivery" where
  "sampleDelivery realm = \<lparr>dl_Realm = realm,
     dl_Trigger = AttachPolicy (Some (buildPolicy tightPolicyDoc sampleHandlers)) sampleCompiled,
     dl_Event = (), dl_enqueuedAt = 0\<rparr>"

lemma tightPolicy_compiles:
  "CompilePolicy (Some tightPolicyDoc) = Some (Inr (buildPolicy tightPolicyDoc sampleHandlers))"
proof -
  have n: "MatchString policyNameRE (pd_Name tightPolicyDoc)" unfolding policyNameRE_iff by code_simp
  have h: "compileHandlers 0 (pd_ErrorHandlers tightPolicyDoc) False = Inr (sampleHandlers, True)" by code_simp
  have "list_all handler_ok sampleHandlers" by (simp add: sampleHandlers_def handler_ok_def)
  then have d: "checkHandlersDisjoint sampleHandlers = Some True"
    by (simp add: checkHandlersDisjoint_iff) (simp add: sampleHandlers_def ownCodes_def)
  have l: "checkLimits tightPolicyDoc True = Inr ()" by code_simp
  have "pd_ErrorHandlers tightPolicyDoc \<noteq> []" by (simp add: tightPolicyDoc_def samplePolicyDoc_def)
  with n h d l show ?thesis by (simp add: CompilePolicy_def)
qed

lemma sampleDelivery_engine: "engineDelivery (sampleDelivery realm)"
proof -
  have "is_ok (Compile_trigger sampleURL ''t'' (Some sampleDefinition))" by code_simp
  then have "Compile_trigger sampleURL ''t'' (Some sampleDefinition) = Inr sampleCompiled"
    by (auto simp: is_ok_ex sampleCompiled_def)
  moreover have "compiledOrNone (Some (buildPolicy tightPolicyDoc sampleHandlers))"
    using tightPolicy_compiles by (auto simp: compiledOrNone_def)
  ultimately show ?thesis unfolding engineDelivery_def sampleDelivery_def by force
qed

theorem executor_accounts_witness:
  "\<exists>x :: unit Executor. executes \<lparr>ec_Workers = 4, ec_QueueSize = 256, ec_MaxAttempts = 5, ec_BackoffStart = 1,
      ec_BackoffCap = 1, ec_RequestTimeout = 1\<rparr> (\<lambda>d. d = sampleDelivery ''a'') 1 x \<and>
    \<not> ex_panic x \<and> int (length (ex_queue x)) \<le> 256 \<and>
    outcomeTotal x + length (ex_senders x) + length (ex_queue x) + length (ex_running x) = 1"
proof -
  let ?cfg = "\<lparr>ec_Workers = 4, ec_QueueSize = 256, ec_MaxAttempts = 5, ec_BackoffStart = 1,
      ec_BackoffCap = 1, ec_RequestTimeout = 1\<rparr> :: ExecutorConfig"
  let ?adm = "\<lambda>d. d = sampleDelivery ''a''"
  let ?x = "enqueueBegin (sampleDelivery ''a'') emptyExecutor"
  have run: "executes ?cfg ?adm 1 ?x"
    using executes.enq_begin [OF executes.start, of ?adm "sampleDelivery ''a''" ?cfg] by simp
  have "\<forall>d. ?adm d \<longrightarrow> engineDelivery d" using sampleDelivery_engine by blast
  from executor_accounts [OF run this] run show ?thesis by auto
qed


end
