(* ===== verification/Flow_Pipeline.thy ===== *)
theory Flow_Pipeline
  imports Go_Json "HOL-Library.Multiset"
begin

text \<open>
  Model of internal/flow/pipeline.go and of the pipeline part of internal/flow/factory.go: the
  validation of a pipeline as an acyclic graph, the topological order of its blocks and the
  instantiation of the blocks.  Block constructors are an argument; what they return is either an
  error, no block, or a block.
\<close>

section \<open>Pipelines\<close>

record PipelineNode =
  pn_Name :: string
  pn_BlockType :: string
  pn_Config :: "(string \<times> json) list"

record Connection =
  cn_From :: string
  cn_FromPort :: string
  cn_To :: string
  cn_ToPort :: string

record Pipeline =
  p_ID :: string
  p_Name :: string
  p_Blocks :: "PipelineNode list"
  p_Connections :: "Connection list"

datatype pipeline_error =
    EmptyID
  | NoBlocks
  | EmptyBlockName
  | DuplicateBlock string
  | UnknownBlock string
  | SelfLoop string
  | HasCycle
  | NoSource
  | NoSink

section \<open>Kahn's algorithm\<close>

text \<open>In-degrees and adjacency lists of the connections.\<close>

definition inDegrees :: "Connection list \<Rightarrow> string \<Rightarrow> int" where
  "inDegrees conns = fold (\<lambda>c d. d(cn_To c := d (cn_To c) + 1)) conns (\<lambda>_. 0)"

definition outDegrees :: "Connection list \<Rightarrow> string \<Rightarrow> int" where
  "outDegrees conns = fold (\<lambda>c d. d(cn_From c := d (cn_From c) + 1)) conns (\<lambda>_. 0)"

definition adjacent :: "Connection list \<Rightarrow> string \<Rightarrow> string list" where
  "adjacent conns n = map cn_To (filter (\<lambda>c. cn_From c = n) conns)"

text \<open>The loop over the successors of a node: the in-degrees, and the successors that became
  ready.\<close>

fun relax :: "string list \<Rightarrow> (string \<Rightarrow> int) \<Rightarrow> string list \<Rightarrow> (string \<Rightarrow> int) \<times> string list" where
  "relax [] d ready = (d, ready)"
| "relax (nb # nbs) d ready =
     (let d' = d(nb := d nb - 1) in relax nbs d' (if d' nb = 0 then ready @ [nb] else ready))"

text \<open>The loop over the queue, shared by Validate (which counts the visited nodes) and topoOrder
  (which collects them, and sorts the ready successors by key, the declaration order; the constant
  key of Validate leaves them in place).  It ends because a node enters the queue only when its
  in-degree drops to zero.\<close>

definition positives :: "Connection list \<Rightarrow> (string \<Rightarrow> int) \<Rightarrow> nat" where
  "positives conns d = card {x \<in> cn_To ` set conns. 0 < d x}"

lemma relax_positives:
  "set nbs \<subseteq> cn_To ` set conns \<Longrightarrow> relax nbs d ready = (d', ready') \<Longrightarrow>
     positives conns d' + length ready' \<le> positives conns d + length ready"
proof (induction nbs d ready rule: relax.induct)
  case (2 nb nbs d ready)
  let ?d = "d(nb := d nb - 1)"
  let ?ready = "if ?d nb = 0 then ready @ [nb] else ready"
  have sub: "{x \<in> cn_To ` set conns. 0 < ?d x} \<subseteq> {x \<in> cn_To ` set conns. 0 < d x}" by (auto split: if_splits)
  have fin: "finite {x \<in> cn_To ` set conns. 0 < d x}" by simp
  have "positives conns ?d + length ?ready \<le> positives conns d + length ready"
  proof (cases "?d nb = 0")
    case True
    then have "nb \<in> {x \<in> cn_To ` set conns. 0 < d x}" "nb \<notin> {x \<in> cn_To ` set conns. 0 < ?d x}"
      using 2(2) by auto
    with sub fin have "positives conns ?d < positives conns d"
      unfolding positives_def by (intro psubset_card_mono) blast+
    with True show ?thesis by simp
  next
    case False
    with card_mono [OF fin sub] show ?thesis by (simp add: positives_def)
  qed
  moreover have "positives conns d' + length ready' \<le> positives conns ?d + length ?ready"
  proof (rule "2.IH" [OF refl])
    show "set nbs \<subseteq> cn_To ` set conns" using "2.prems"(1) by simp
    show "relax nbs ?d ?ready = (d', ready')" using "2.prems"(2) by (simp only: relax.simps Let_def)
  qed
  ultimately show ?case by linarith
qed simp

function kahnLoop ::
  "(string \<Rightarrow> nat) \<Rightarrow> Connection list \<Rightarrow> string list \<Rightarrow> (string \<Rightarrow> int) \<Rightarrow> string list \<Rightarrow> string list" where
  "kahnLoop key conns queue d order =
    (case queue of
       [] \<Rightarrow> order
     | n # queue' \<Rightarrow>
         (case relax (adjacent conns n) d [] of
            (d', ready) \<Rightarrow>
              kahnLoop key conns (queue' @ sort_key key ready) d' (order @ [n])))"
  by pat_completeness auto
termination
proof (relation "measure (\<lambda>(key, conns, queue, d, order). positives conns d + length queue)", goal_cases)
  case (2 key conns queue d order n queue' d' ready)
  have "set (adjacent conns n) \<subseteq> cn_To ` set conns" by (auto simp: adjacent_def)
  from relax_positives [OF this, of d "[]" d' ready] 2 show ?case by auto
qed simp

declare kahnLoop.simps [simp del]

section \<open>Validation\<close>

fun checkNames :: "PipelineNode list \<Rightarrow> string list \<Rightarrow> pipeline_error + string list" where
  "checkNames [] names = Inr names"
| "checkNames (b # bs) names =
     (if pn_Name b = [] then Inl EmptyBlockName
      else if pn_Name b \<in> set names then Inl (DuplicateBlock (pn_Name b))
      else checkNames bs (pn_Name b # names))"

fun checkConnections :: "string list \<Rightarrow> Connection list \<Rightarrow> pipeline_error + unit" where
  "checkConnections names [] = Inr ()"
| "checkConnections names (c # cs) =
     (if cn_From c \<notin> set names then Inl (UnknownBlock (cn_From c))
      else if cn_To c \<notin> set names then Inl (UnknownBlock (cn_To c))
      else if cn_From c = cn_To c then Inl (SelfLoop (cn_From c))
      else checkConnections names cs)"

definition initialQueue :: "Pipeline \<Rightarrow> string list" where
  "initialQueue p = filter (\<lambda>n. inDegrees (p_Connections p) n = 0) (map pn_Name (p_Blocks p))"

definition Validate :: "Pipeline \<Rightarrow> pipeline_error + unit" where
  "Validate p =
    (if p_ID p = [] then Inl EmptyID
     else if p_Blocks p = [] then Inl NoBlocks
     else bindR (checkNames (p_Blocks p) []) (\<lambda>names.
       bindR (checkConnections names (p_Connections p)) (\<lambda>_.
         let conns = p_Connections p;
             visited = length (kahnLoop (\<lambda>_. 0) conns (initialQueue p) (inDegrees conns) [])
         in if visited \<noteq> length (p_Blocks p) then Inl HasCycle
            else if \<not> list_ex (\<lambda>b. inDegrees conns (pn_Name b) = 0) (p_Blocks p) then Inl NoSource
            else if \<not> list_ex (\<lambda>b. outDegrees conns (pn_Name b) = 0) (p_Blocks p) then Inl NoSink
            else Inr ())))"

text \<open>blockIndex and topoOrder; the declaration order decides between ready blocks.\<close>

fun blockIndexFrom :: "nat \<Rightarrow> PipelineNode list \<Rightarrow> string \<Rightarrow> nat" where
  "blockIndexFrom i [] name = i"
| "blockIndexFrom i (b # bs) name = (if pn_Name b = name then i else blockIndexFrom (i + 1) bs name)"

definition blockIndex :: "Pipeline \<Rightarrow> string \<Rightarrow> nat" where
  "blockIndex p name = blockIndexFrom 0 (p_Blocks p) name"

definition topoOrder :: "Pipeline \<Rightarrow> pipeline_error + string list" where
  "topoOrder p =
    (let conns = p_Connections p;
         order = kahnLoop (blockIndex p) conns (sort_key (blockIndex p) (initialQueue p)) (inDegrees conns) []
     in if length order \<noteq> length (p_Blocks p) then Inl HasCycle else Inr order)"

text \<open>ParseDefinition: the decoded definition (None: it does not parse), with the caller's identifier
  and name winning over embedded ones.\<close>

datatype definition_error = EmptyDefinition | DefinitionParse | DefinitionInvalid pipeline_error

definition ParseDefinition :: "string \<Rightarrow> string \<Rightarrow> string \<Rightarrow> Pipeline option \<Rightarrow> definition_error + Pipeline" where
  "ParseDefinition ident name definition' decoded =
    (if definition' = [] then Inl EmptyDefinition
     else
       (case decoded of
          None \<Rightarrow> Inl DefinitionParse
        | Some p \<Rightarrow>
            (let p = (if ident \<noteq> [] then p\<lparr>p_ID := ident\<rparr> else p);
                 p = (if name \<noteq> [] then p\<lparr>p_Name := name\<rparr> else p);
                 p = (if p_ID p = [] then p\<lparr>p_ID := p_Name p\<rparr> else p)
             in case Validate p of Inl e \<Rightarrow> Inl (DefinitionInvalid e) | Inr _ \<Rightarrow> Inr p)))"

definition InstanceID :: "string \<Rightarrow> string \<Rightarrow> string" where
  "InstanceID realm flowName = realm @ ''/'' @ flowName"

section \<open>Instantiation\<close>

datatype instantiate_error =
    NilPipeline
  | InvalidPipeline pipeline_error
  | EmptyBlockType string
  | ErrUnknownBlockType string string
  | ConstructFailed string
  | NilBlock string

text \<open>The loop over the order: the result, and the blocks stopAll was called on.  A constructor
  returns an error (None), no block (Some None) or a block.\<close>

type_synonym 'b registry = "string \<Rightarrow> (string \<Rightarrow> (string \<times> json) list \<Rightarrow> 'b option option) option"

definition NewRegistry :: "'b registry" where
  "NewRegistry = (\<lambda>_. None)"

definition Register_ctor :: "'b registry \<Rightarrow> string \<Rightarrow> (string \<Rightarrow> (string \<times> json) list \<Rightarrow> 'b option option) \<Rightarrow> 'b registry" where
  "Register_ctor r blockType ctor = r(blockType \<mapsto> ctor)"

definition Has_ctor :: "'b registry \<Rightarrow> string \<Rightarrow> bool" where
  "Has_ctor r blockType = (r blockType \<noteq> None)"

fun instantiateLoop ::
  "'b registry \<Rightarrow> (string \<Rightarrow> PipelineNode option) \<Rightarrow> string list \<Rightarrow> 'b list \<Rightarrow> (instantiate_error + 'b list) \<times> 'b list" where
  "instantiateLoop ctors byName [] out = (Inr out, [])"
| "instantiateLoop ctors byName (name # order) out =
     (case byName name of
        None \<Rightarrow> (Inl (EmptyBlockType name), [])
      | Some node \<Rightarrow>
          (if pn_BlockType node = [] then (Inl (EmptyBlockType name), [])
           else
             (case ctors (pn_BlockType node) of
                None \<Rightarrow> (Inl (ErrUnknownBlockType (pn_BlockType node) name), [])
              | Some ctor \<Rightarrow>
                  (case ctor name (pn_Config node) of
                     None \<Rightarrow> (Inl (ConstructFailed name), out)
                   | Some None \<Rightarrow> (Inl (NilBlock name), out)
                   | Some (Some b) \<Rightarrow> instantiateLoop ctors byName order (out @ [b])))))"

definition byName :: "Pipeline \<Rightarrow> string \<Rightarrow> PipelineNode option" where
  "byName p = fold (\<lambda>n m. m(pn_Name n \<mapsto> n)) (p_Blocks p) Map.empty"

definition Instantiate :: "'b registry \<Rightarrow> Pipeline option \<Rightarrow> (instantiate_error + 'b list) \<times> 'b list" where
  "Instantiate ctors pl =
    (case pl of
       None \<Rightarrow> (Inl NilPipeline, [])
     | Some p \<Rightarrow>
         (case Validate p of
            Inl e \<Rightarrow> (Inl (InvalidPipeline e), [])
          | Inr _ \<Rightarrow>
              (case topoOrder p of
                 Inl e \<Rightarrow> (Inl (InvalidPipeline e), [])
               | Inr order \<Rightarrow> instantiateLoop ctors (byName p) order [])))"

section \<open>Degrees\<close>

lemma inDegrees_count: "inDegrees conns x = int (length (filter (\<lambda>c. cn_To c = x) conns))"
proof -
  have "fold (\<lambda>c d. d(cn_To c := d (cn_To c) + 1)) conns d x = d x + int (length (filter (\<lambda>c. cn_To c = x) conns))" for d
    by (induction conns arbitrary: d) auto
  then show ?thesis by (simp add: inDegrees_def)
qed

lemma outDegrees_count: "outDegrees conns x = int (length (filter (\<lambda>c. cn_From c = x) conns))"
proof -
  have "fold (\<lambda>c d. d(cn_From c := d (cn_From c) + 1)) conns d x = d x + int (length (filter (\<lambda>c. cn_From c = x) conns))" for d
    by (induction conns arbitrary: d) auto
  then show ?thesis by (simp add: outDegrees_def)
qed

text \<open>The in-degree that counts only the predecessors outside a set.\<close>

definition pending :: "Connection list \<Rightarrow> string set \<Rightarrow> string \<Rightarrow> int" where
  "pending conns S x = int (length (filter (\<lambda>c. cn_To c = x \<and> cn_From c \<notin> S) conns))"

lemma pending_empty: "pending conns {} = inDegrees conns"
  by (simp add: pending_def inDegrees_count fun_eq_iff)

lemma pending_insert:
  "n \<notin> S \<Longrightarrow> pending conns S x = pending conns (insert n S) x + int (count_list (adjacent conns n) x)"
  by (induction conns) (auto simp: pending_def adjacent_def)

lemma pending_zero: "pending conns S x = 0 \<longleftrightarrow> (\<forall>c \<in> set conns. cn_To c = x \<longrightarrow> cn_From c \<in> S)"
  by (auto simp: pending_def filter_empty_conv)

section \<open>One step of the algorithm\<close>

lemma relax_spec:
  "(\<And>x. int (count_list nbs x) \<le> d x) \<Longrightarrow>
     \<exists>new. relax nbs d ready = (\<lambda>x. d x - int (count_list nbs x), ready @ new) \<and> distinct new \<and>
       set new = {x \<in> set nbs. d x = int (count_list nbs x)}"
proof (induction nbs d ready rule: relax.induct)
  case (2 nb nbs d ready)
  let ?d = "d(nb := d nb - 1)"
  let ?ready = "if ?d nb = 0 then ready @ [nb] else ready"
  have le: "int (count_list nbs x) \<le> ?d x" for x using "2.prems" [of x] by (simp split: if_splits)
  from "2.IH" [OF refl this] obtain new where new:
    "relax nbs ?d ?ready = (\<lambda>x. ?d x - int (count_list nbs x), ?ready @ new)" "distinct new"
    "set new = {x \<in> set nbs. ?d x = int (count_list nbs x)}" by blast
  have r: "relax (nb # nbs) d ready = (\<lambda>x. d x - int (count_list (nb # nbs) x), ?ready @ new)"
    using new(1) by (auto simp: Let_def fun_eq_iff)
  show ?case
  proof (cases "?d nb = 0")
    case True
    then have "count_list nbs nb = 0" using le [of nb] by simp
    then have nb: "nb \<notin> set nbs" by (simp add: count_list_0_iff)
    have "distinct (nb # new)" "set (nb # new) = {x \<in> set (nb # nbs). d x = int (count_list (nb # nbs) x)}"
      using new(2,3) nb True by (auto simp: count_list_0_iff)
    with r True show ?thesis by (intro exI [of _ "nb # new"]) simp
  next
    case False
    have "set new = {x \<in> set (nb # nbs). d x = int (count_list (nb # nbs) x)}"
    proof -
      have "nb \<in> set nbs" if "d nb = 1 + int (count_list nbs nb)"
      proof (rule ccontr)
        assume "nb \<notin> set nbs"
        then have "count_list nbs nb = 0" by (simp add: count_list_0_iff)
        with that False show False by simp
      qed
      then show ?thesis using new(3) by auto
    qed
    with r False new(2) show ?thesis by (intro exI [of _ new]) simp
  qed
qed simp

section \<open>The algorithm finds a topological order\<close>

definition predecessors :: "Connection list \<Rightarrow> string \<Rightarrow> string set" where
  "predecessors conns x = {cn_From c | c. c \<in> set conns \<and> cn_To c = x}"

text \<open>Every element of the list comes after all its predecessors.\<close>

definition topological :: "Connection list \<Rightarrow> string list \<Rightarrow> bool" where
  "topological conns L \<longleftrightarrow> (\<forall>i < length L. predecessors conns (L ! i) \<subseteq> set (take i L))"

lemma topological_append:
  assumes "topological conns L" "\<And>x. x \<in> set new \<Longrightarrow> predecessors conns x \<subseteq> set L"
  shows "topological conns (L @ new)"
  unfolding topological_def
proof (intro allI impI)
  fix i assume i: "i < length (L @ new)"
  show "predecessors conns ((L @ new) ! i) \<subseteq> set (take i (L @ new))"
  proof (cases "i < length L")
    case True
    then show ?thesis using assms(1) by (simp add: topological_def nth_append)
  next
    case False
    then have "(L @ new) ! i \<in> set new" using i by (simp add: nth_append)
    from assms(2) [OF this] False show ?thesis by auto
  qed
qed

lemma pending_predecessors: "pending conns S x = 0 \<longleftrightarrow> predecessors conns x \<subseteq> S"
  by (auto simp: pending_zero predecessors_def)

definition kahn_inv :: "string set \<Rightarrow> Connection list \<Rightarrow> string list \<Rightarrow> string list \<Rightarrow> (string \<Rightarrow> int) \<Rightarrow> bool" where
  "kahn_inv V conns order queue d \<longleftrightarrow>
    distinct (order @ queue) \<and> set (order @ queue) = {x \<in> V. predecessors conns x \<subseteq> set order} \<and>
    d = pending conns (set order) \<and> topological conns (order @ queue)"

lemma kahn_step:
  assumes inv: "kahn_inv V conns order (n # q) d" and V: "\<forall>c \<in> set conns. cn_To c \<in> V"
    and r: "relax (adjacent conns n) d [] = (d', new)"
  shows "kahn_inv V conns (order @ [n]) (q @ sort_key key new) d'"
proof -
  let ?S = "set order"
  from inv have inv': "distinct (order @ n # q)" "set (order @ n # q) = {x \<in> V. predecessors conns x \<subseteq> ?S}"
    "d = pending conns ?S" "topological conns (order @ n # q)" by (auto simp: kahn_inv_def)
  then have n: "n \<notin> ?S" by auto
  note pi = pending_insert [OF n, of conns]
  have "\<exists>new'. relax (adjacent conns n) d [] = (\<lambda>x. d x - int (count_list (adjacent conns n) x), [] @ new') \<and> distinct new' \<and>
       set new' = {x \<in> set (adjacent conns n). d x = int (count_list (adjacent conns n) x)}"
  proof (rule relax_spec)
    fix x
    have "0 \<le> pending conns (insert n ?S) x" by (simp add: pending_def)
    then show "int (count_list (adjacent conns n) x) \<le> d x" using pi [of x] by (simp only: inv'(3))
  qed
  with r have d': "d' = (\<lambda>x. d x - int (count_list (adjacent conns n) x))" "distinct new"
    "set new = {x \<in> set (adjacent conns n). d x = int (count_list (adjacent conns n) x)}" by auto
  have d'': "d' = pending conns (set (order @ [n]))" by (simp add: d'(1) inv'(3) pi fun_eq_iff)
  have new: "set new = {x \<in> set (adjacent conns n). predecessors conns x \<subseteq> insert n ?S}"
    unfolding d'(3) inv'(3) pi pending_predecessors [symmetric] by auto
  have adjV: "set (adjacent conns n) \<subseteq> V" using V by (auto simp: adjacent_def)
  have adj: "x \<in> set (adjacent conns n) \<longleftrightarrow> n \<in> predecessors conns x" for x
    by (auto simp: adjacent_def predecessors_def)
  have disj: "set new \<inter> set (order @ n # q) = {}"
    using n unfolding new inv'(2) adj by auto
  have "distinct ((order @ [n]) @ q @ sort_key key new)" using inv'(1) d'(2) disj by auto
  moreover have "set ((order @ [n]) @ q @ sort_key key new) = {x \<in> V. predecessors conns x \<subseteq> set (order @ [n])}"
  proof -
    have "set ((order @ [n]) @ q @ sort_key key new) = set (order @ n # q) \<union> set new" by auto
    also have "\<dots> = {x \<in> V. predecessors conns x \<subseteq> insert n ?S}"
      unfolding inv'(2) new using adj adjV by auto
    finally show ?thesis by simp
  qed
  moreover have "topological conns ((order @ [n]) @ q @ sort_key key new)"
  proof -
    have "topological conns ((order @ n # q) @ sort_key key new)"
      using inv'(4) by (rule topological_append) (auto simp: new)
    then show ?thesis by simp
  qed
  ultimately show ?thesis using d'' by (simp add: kahn_inv_def)
qed

lemma kahnLoop_inv:
  "kahn_inv V conns order queue d \<Longrightarrow> \<forall>c \<in> set conns. cn_To c \<in> V \<Longrightarrow>
     kahn_inv V conns (kahnLoop key conns queue d order) [] (pending conns (set (kahnLoop key conns queue d order)))"
proof (induction key conns queue d order rule: kahnLoop.induct)
  case (1 key conns queue d order)
  show ?case
  proof (cases queue)
    case Nil
    then have "kahnLoop key conns queue d order = order" by (simp add: kahnLoop.simps)
    with 1 Nil show ?thesis by (simp add: kahn_inv_def)
  next
    case (Cons n q)
    obtain d' ready where r: "relax (adjacent conns n) d [] = (d', ready)" by (cases "relax (adjacent conns n) d []")
    have "kahn_inv V conns (order @ [n]) (q @ sort_key key ready) d'"
      using kahn_step [OF _ _ r, of V order q key] 1 Cons by blast
    moreover have "kahnLoop key conns queue d order = kahnLoop key conns (q @ sort_key key ready) d' (order @ [n])"
      using Cons r by (simp add: kahnLoop.simps [of key conns "n # q"])
    ultimately show ?thesis using "1.IH" [OF Cons r [symmetric] _ "1.prems"(2)] by simp
  qed
qed

definition edges :: "Connection list \<Rightarrow> (string \<times> string) set" where
  "edges conns = (\<lambda>c. (cn_From c, cn_To c)) ` set conns"

lemma topological_acyclic:
  assumes "topological conns L" "distinct L" "\<forall>c \<in> set conns. cn_To c \<in> set L"
  shows "acyclic (edges conns)"
proof (rule acyclicI_order)
  fix a b assume "(a, b) \<in> edges conns"
  then obtain c where c: "c \<in> set conns" "cn_From c = a" "cn_To c = b" by (auto simp: edges_def)
  with assms(3) obtain i where i: "i < length L" "L ! i = b" by (metis in_set_conv_nth)
  have "a \<in> predecessors conns (L ! i)" using c i by (auto simp: predecessors_def)
  then have "a \<in> set (take i L)" using assms(1) i(1) unfolding topological_def by blast
  then obtain j where j: "j < i" "j < length L" "L ! j = a" by (auto simp: in_set_conv_nth)
  have pos: "k < length L \<Longrightarrow> (THE m. m < length L \<and> L ! m = L ! k) = k" for k
    using assms(2) by (auto simp: nth_eq_iff_index_eq intro!: the_equality)
  show "(\<lambda>x. - int (THE m. m < length L \<and> L ! m = x)) b < (\<lambda>x. - int (THE m. m < length L \<and> L ! m = x)) a"
    using pos [OF i(1)] pos [OF j(2)] i j by simp
qed

lemma kahn_complete:
  assumes "kahn_inv V conns L [] d" "acyclic (edges conns)" "\<forall>c \<in> set conns. cn_From c \<in> V"
  shows "set L = V"
proof (rule ccontr)
  assume "set L \<noteq> V"
  have L: "set L = {x \<in> V. predecessors conns x \<subseteq> set L}" using assms(1) by (simp add: kahn_inv_def)
  with \<open>set L \<noteq> V\<close> obtain x0 where "x0 \<in> V - set L" by blast
  moreover have "wf (edges conns)" using assms(2) by (intro finite_acyclic_wf) (simp_all add: edges_def)
  ultimately obtain x where x: "x \<in> V - set L" "\<And>y. (y, x) \<in> edges conns \<Longrightarrow> y \<notin> V - set L"
    by (metis wfE_min)
  then have "\<not> predecessors conns x \<subseteq> set L" using L by blast
  then obtain c where "c \<in> set conns" "cn_To c = x" "cn_From c \<notin> set L" by (auto simp: predecessors_def)
  then have "(cn_From c, x) \<in> edges conns" "cn_From c \<in> V - set L" using assms(3) by (auto simp: edges_def)
  with x(2) show False by blast
qed

section \<open>Validation is exact\<close>

definition pipeline_ok :: "Pipeline \<Rightarrow> bool" where
  "pipeline_ok p \<longleftrightarrow>
    p_ID p \<noteq> [] \<and> p_Blocks p \<noteq> [] \<and> (\<forall>b \<in> set (p_Blocks p). pn_Name b \<noteq> []) \<and>
    distinct (map pn_Name (p_Blocks p)) \<and>
    (\<forall>c \<in> set (p_Connections p). cn_From c \<in> pn_Name ` set (p_Blocks p) \<and> cn_To c \<in> pn_Name ` set (p_Blocks p)) \<and>
    acyclic (edges (p_Connections p))"

lemma checkNames_iff:
  "checkNames bs names = Inr r \<longleftrightarrow>
     (\<forall>b \<in> set bs. pn_Name b \<noteq> []) \<and> distinct (map pn_Name bs) \<and> pn_Name ` set bs \<inter> set names = {} \<and>
     r = rev (map pn_Name bs) @ names"
  by (induction bs names rule: checkNames.induct) auto

lemma checkConnections_iff:
  "checkConnections names cs = Inr u \<longleftrightarrow>
     (\<forall>c \<in> set cs. cn_From c \<in> set names \<and> cn_To c \<in> set names \<and> cn_From c \<noteq> cn_To c)"
  by (induction names cs rule: checkConnections.induct) auto

lemma kahn_start:
  assumes "distinct (map pn_Name (p_Blocks p))" "mset q = mset (initialQueue p)"
  shows "kahn_inv (pn_Name ` set (p_Blocks p)) (p_Connections p) [] q (inDegrees (p_Connections p))"
proof -
  have q: "set q = set (initialQueue p)" "distinct q"
    using assms mset_eq_setD [OF assms(2)] mset_eq_imp_distinct_iff [OF assms(2)] by (auto simp: initialQueue_def)
  have "inDegrees (p_Connections p) x = 0 \<longleftrightarrow> predecessors (p_Connections p) x = {}" for x
    using pending_predecessors [of "p_Connections p" "{}" x] by (simp add: pending_empty)
  then show ?thesis using q by (auto simp: kahn_inv_def initialQueue_def pending_empty topological_def)
qed

lemma kahn_pipeline:
  fixes key
  assumes "distinct (map pn_Name (p_Blocks p))" "mset q = mset (initialQueue p)"
    and "\<forall>c \<in> set (p_Connections p). cn_From c \<in> pn_Name ` set (p_Blocks p) \<and> cn_To c \<in> pn_Name ` set (p_Blocks p)"
  defines "L \<equiv> kahnLoop key (p_Connections p) q (inDegrees (p_Connections p)) []"
  shows "distinct L" "topological (p_Connections p) L" "set L \<subseteq> pn_Name ` set (p_Blocks p)"
    "length L = length (p_Blocks p) \<longleftrightarrow> acyclic (edges (p_Connections p))"
    "length L = length (p_Blocks p) \<longleftrightarrow> set L = pn_Name ` set (p_Blocks p)"
proof -
  let ?V = "pn_Name ` set (p_Blocks p)"
  have inv: "kahn_inv ?V (p_Connections p) L [] (pending (p_Connections p) (set L))"
    unfolding L_def by (rule kahnLoop_inv [OF kahn_start [OF assms(1,2)]]) (use assms(3) in blast)
  then show L: "distinct L" "topological (p_Connections p) L" "set L \<subseteq> ?V" by (auto simp: kahn_inv_def)
  have card: "card ?V = length (p_Blocks p)" using assms(1) by (metis distinct_card length_map set_map)
  show full: "length L = length (p_Blocks p) \<longleftrightarrow> set L = ?V"
    using card distinct_card [OF L(1)] L(3) by (metis List.finite_set card_subset_eq finite_imageI)
  show "length L = length (p_Blocks p) \<longleftrightarrow> acyclic (edges (p_Connections p))"
  proof
    assume "length L = length (p_Blocks p)"
    with full assms(3) show "acyclic (edges (p_Connections p))"
      by (intro topological_acyclic [OF L(2,1)]) blast
  next
    assume "acyclic (edges (p_Connections p))"
    with kahn_complete [OF inv] assms(3) full show "length L = length (p_Blocks p)" by blast
  qed
qed

lemma acyclic_ends:
  assumes "topological conns L" "distinct L" "L \<noteq> []" "\<forall>c \<in> set conns. cn_To c \<in> set L"
  shows "inDegrees conns (hd L) = 0" "outDegrees conns (last L) = 0"
proof -
  have "predecessors conns (hd L) \<subseteq> {}" using assms(1,3) by (cases L) (auto simp: topological_def)
  then show "inDegrees conns (hd L) = 0"
    using pending_predecessors [of conns "{}" "hd L"] by (simp add: pending_empty)
  have "cn_From c \<noteq> last L" if "c \<in> set conns" for c
  proof
    assume eq: "cn_From c = last L"
    from assms(4) that obtain i where i: "i < length L" "L ! i = cn_To c" by (metis in_set_conv_nth)
    have "cn_From c \<in> predecessors conns (L ! i)" using that i by (auto simp: predecessors_def)
    then have "last L \<in> set (take i L)" using assms(1) i(1) eq unfolding topological_def by auto
    then obtain j where "j < i" "L ! j = last L" by (auto simp: in_set_conv_nth)
    then have "L ! j = L ! (length L - 1)" "j < length L - 1" using i(1) assms(3) by (auto simp: last_conv_nth)
    then show False using assms(2,3) by (simp add: nth_eq_iff_index_eq)
  qed
  then show "outDegrees conns (last L) = 0" by (simp add: outDegrees_count filter_empty_conv)
qed

lemma Validate_iff: "Validate p = Inr () \<longleftrightarrow> pipeline_ok p"
proof -
  let ?names = "map pn_Name (p_Blocks p)" and ?conns = "p_Connections p"
  let ?L = "kahnLoop (\<lambda>_. 0) ?conns (initialQueue p) (inDegrees ?conns) []"
  have v: "Validate p = Inr () \<longleftrightarrow>
      p_ID p \<noteq> [] \<and> p_Blocks p \<noteq> [] \<and> (\<forall>b \<in> set (p_Blocks p). pn_Name b \<noteq> []) \<and> distinct ?names \<and>
      (\<forall>c \<in> set ?conns. cn_From c \<in> set ?names \<and> cn_To c \<in> set ?names \<and> cn_From c \<noteq> cn_To c) \<and>
      length ?L = length (p_Blocks p) \<and>
      list_ex (\<lambda>b. inDegrees ?conns (pn_Name b) = 0) (p_Blocks p) \<and>
      list_ex (\<lambda>b. outDegrees ?conns (pn_Name b) = 0) (p_Blocks p)"
    by (auto simp: Validate_def Let_def checkNames_iff checkConnections_iff)
  show ?thesis
  proof
    assume "Validate p = Inr ()"
    then show "pipeline_ok p"
      using kahn_pipeline(4) [of p "initialQueue p" "\<lambda>_. 0"] unfolding v pipeline_ok_def by auto
  next
    assume ok: "pipeline_ok p"
    then have d: "distinct ?names"
      and c: "\<forall>c \<in> set ?conns. cn_From c \<in> pn_Name ` set (p_Blocks p) \<and> cn_To c \<in> pn_Name ` set (p_Blocks p)"
      and a: "acyclic (edges ?conns)" by (auto simp: pipeline_ok_def)
    note k = kahn_pipeline [OF d refl c, of "\<lambda>_. 0"]
    have full: "length ?L = length (p_Blocks p)" "set ?L = pn_Name ` set (p_Blocks p)" using k(4,5) a by auto
    then have ne: "?L \<noteq> []" using ok by (auto simp: pipeline_ok_def)
    have ends: "inDegrees ?conns (hd ?L) = 0" "outDegrees ?conns (last ?L) = 0"
      using acyclic_ends [OF k(2,1) ne] c full(2) by auto
    have "hd ?L \<in> pn_Name ` set (p_Blocks p)" "last ?L \<in> pn_Name ` set (p_Blocks p)" using ne full(2) by auto
    with ends have se: "list_ex (\<lambda>b. inDegrees ?conns (pn_Name b) = 0) (p_Blocks p)"
      "list_ex (\<lambda>b. outDegrees ?conns (pn_Name b) = 0) (p_Blocks p)" by (auto simp: list_ex_iff)
    have "cn_From c \<noteq> cn_To c" if "c \<in> set ?conns" for c
      using a that by (auto simp: acyclic_def edges_def)
    with ok full(1) se show "Validate p = Inr ()" unfolding v by (auto simp: pipeline_ok_def)
  qed
qed

section \<open>Properties\<close>

text \<open>C8. Validation is exact: a pipeline is accepted exactly when it has an identifier and blocks,
  the block names are non-empty and distinct, the connections link declared blocks, and the graph
  is acyclic; the checks for a missing source or sink never fire, since an acyclic graph has both.\<close>

theorem pipeline_validation_exact:
  "(Validate p = Inr () \<longleftrightarrow>
     p_ID p \<noteq> [] \<and> p_Blocks p \<noteq> [] \<and> (\<forall>b \<in> set (p_Blocks p). pn_Name b \<noteq> []) \<and>
     distinct (map pn_Name (p_Blocks p)) \<and>
     (\<forall>c \<in> set (p_Connections p). cn_From c \<in> pn_Name ` set (p_Blocks p) \<and> cn_To c \<in> pn_Name ` set (p_Blocks p)) \<and>
     acyclic (edges (p_Connections p))) \<and>
   Validate p \<noteq> Inl NoSource \<and> Validate p \<noteq> Inl NoSink"
proof (intro conjI)
  show "Validate p = Inr () \<longleftrightarrow>
     p_ID p \<noteq> [] \<and> p_Blocks p \<noteq> [] \<and> (\<forall>b \<in> set (p_Blocks p). pn_Name b \<noteq> []) \<and>
     distinct (map pn_Name (p_Blocks p)) \<and>
     (\<forall>c \<in> set (p_Connections p). cn_From c \<in> pn_Name ` set (p_Blocks p) \<and> cn_To c \<in> pn_Name ` set (p_Blocks p)) \<and>
     acyclic (edges (p_Connections p))" using Validate_iff [of p] unfolding pipeline_ok_def .
  have "Validate p = Inr ()" if v: "Validate p = Inl NoSource \<or> Validate p = Inl NoSink"
  proof -
    have n: "checkNames bs names \<noteq> Inl NoSource" "checkNames bs names \<noteq> Inl NoSink" for bs names
      by (induction bs names rule: checkNames.induct) auto
    have c: "checkConnections names cs \<noteq> Inl NoSource" "checkConnections names cs \<noteq> Inl NoSink" for names cs
      by (induction names cs rule: checkConnections.induct) auto
    from v obtain names where "p_ID p \<noteq> []" "p_Blocks p \<noteq> []" "checkNames (p_Blocks p) [] = Inr names"
      "checkConnections names (p_Connections p) = Inr ()"
      "length (kahnLoop (\<lambda>_. 0) (p_Connections p) (initialQueue p) (inDegrees (p_Connections p)) []) = length (p_Blocks p)"
      by (auto simp: Validate_def Let_def n c bindR_def split: if_splits sum.splits)
    then have "pipeline_ok p"
      using kahn_pipeline(4) [of p "initialQueue p" "\<lambda>_. 0"]
      by (auto simp: pipeline_ok_def checkNames_iff checkConnections_iff)
    then show ?thesis by (simp add: Validate_iff)
  qed
  then show "Validate p \<noteq> Inl NoSource" "Validate p \<noteq> Inl NoSink" by auto
qed

lemma topoOrder_ok:
  assumes "Validate p = Inr ()"
  obtains order where "topoOrder p = Inr order" "distinct order" "set order = pn_Name ` set (p_Blocks p)"
    "topological (p_Connections p) order"
proof -
  have ok: "pipeline_ok p" using assms by (simp add: Validate_iff)
  let ?q = "sort_key (blockIndex p) (initialQueue p)"
  have d: "distinct (map pn_Name (p_Blocks p))"
    and c: "\<forall>c \<in> set (p_Connections p). cn_From c \<in> pn_Name ` set (p_Blocks p) \<and> cn_To c \<in> pn_Name ` set (p_Blocks p)"
    and a: "acyclic (edges (p_Connections p))" using ok by (auto simp: pipeline_ok_def)
  have "mset ?q = mset (initialQueue p)" by simp
  note k = kahn_pipeline [OF d this c, of "blockIndex p"]
  show ?thesis
  proof (rule that)
    show "topoOrder p = Inr (kahnLoop (blockIndex p) (p_Connections p) ?q (inDegrees (p_Connections p)) [])"
      using k(4) a by (simp add: topoOrder_def Let_def)
  qed (use k a in auto)
qed

lemma fold_map_upd_absent:
  "x \<notin> pn_Name ` set bs \<Longrightarrow> fold (\<lambda>n m. m(pn_Name n \<mapsto> n)) bs m x = m x"
  by (induction bs arbitrary: m) auto

lemma byName_find:
  assumes "distinct (map pn_Name (p_Blocks p))" "n \<in> set (p_Blocks p)"
  shows "byName p (pn_Name n) = Some n"
proof -
  have "fold (\<lambda>n m. m(pn_Name n \<mapsto> n)) bs m (pn_Name n) = (if n \<in> set bs then Some n else m (pn_Name n))"
    if "distinct (map pn_Name bs)" "pn_Name n \<in> pn_Name ` set bs \<longrightarrow> n \<in> set bs" for bs m
    using that by (induction bs arbitrary: m) (auto simp: fold_map_upd_absent)
  from this [OF assms(1)] assms(2) show ?thesis by (simp add: byName_def)
qed

text \<open>The blocks a run over an order builds.\<close>

definition built :: "'b registry \<Rightarrow> Pipeline \<Rightarrow> string \<Rightarrow> 'b \<Rightarrow> bool" where
  "built ctors p name b \<longleftrightarrow>
    (\<exists>node \<in> set (p_Blocks p). pn_Name node = name \<and> pn_BlockType node \<noteq> [] \<and>
      (\<exists>ctor. ctors (pn_BlockType node) = Some ctor \<and> ctor name (pn_Config node) = Some (Some b)))"

lemma byName_in: "byName p name = Some node \<Longrightarrow> node \<in> set (p_Blocks p) \<and> pn_Name node = name"
proof -
  have "fold (\<lambda>n m. m(pn_Name n \<mapsto> n)) bs m name = Some node \<Longrightarrow>
      (node \<in> set bs \<and> pn_Name node = name) \<or> m name = Some node" for bs m
    by (induction bs arbitrary: m) (fastforce split: if_splits)+
  from this [of "p_Blocks p" Map.empty] show "byName p name = Some node \<Longrightarrow> ?thesis" by (auto simp: byName_def)
qed

lemma instantiateLoop_ok:
  "instantiateLoop ctors (byName p) order out = (Inr bs, st) \<Longrightarrow>
     st = [] \<and> (\<exists>new. bs = out @ new \<and> list_all2 (built ctors p) order new)"
proof (induction order arbitrary: out)
  case (Cons name order)
  from Cons.prems obtain node ctor b where node: "byName p name = Some node" "pn_BlockType node \<noteq> []"
      "ctors (pn_BlockType node) = Some ctor" "ctor name (pn_Config node) = Some (Some b)"
    and rest: "instantiateLoop ctors (byName p) order (out @ [b]) = (Inr bs, st)"
    by (auto split: option.splits if_splits)
  from Cons.IH [OF rest] obtain new where new: "st = []" "bs = (out @ [b]) @ new"
    "list_all2 (built ctors p) order new" by blast
  have "built ctors p name b" unfolding built_def using byName_in [OF node(1)] node(2-4) by blast
  with new show ?case by (intro conjI exI [of _ "b # new"]) auto
qed auto

lemma instantiateLoop_stops:
  "instantiateLoop ctors (byName p) order out = (Inl (ConstructFailed name), st) \<or>
   instantiateLoop ctors (byName p) order out = (Inl (NilBlock name), st) \<Longrightarrow>
     \<exists>done new todo. order = done @ name # todo \<and> st = out @ new \<and> list_all2 (built ctors p) done new"
proof (induction order arbitrary: out)
  case (Cons nm order)
  show ?case
  proof (cases "\<exists>node ctor b. byName p nm = Some node \<and> pn_BlockType node \<noteq> [] \<and>
      ctors (pn_BlockType node) = Some ctor \<and> ctor nm (pn_Config node) = Some (Some b)")
    case True
    then obtain node ctor b where node: "byName p nm = Some node" "pn_BlockType node \<noteq> []"
      "ctors (pn_BlockType node) = Some ctor" "ctor nm (pn_Config node) = Some (Some b)" by blast
    with Cons.prems have "instantiateLoop ctors (byName p) order (out @ [b]) = (Inl (ConstructFailed name), st) \<or>
      instantiateLoop ctors (byName p) order (out @ [b]) = (Inl (NilBlock name), st)" by simp
    from Cons.IH [OF this] obtain dn new todo where
      "order = dn @ name # todo" "st = (out @ [b]) @ new" "list_all2 (built ctors p) dn new" by blast
    moreover have "built ctors p nm b" unfolding built_def using byName_in [OF node(1)] node(2-4) by blast
    ultimately show ?thesis
      by (intro exI [of _ "nm # dn"] exI [of _ "b # new"] exI [of _ todo]) auto
  next
    case False
    with Cons.prems have "nm = name \<and> st = out" by (auto split: option.splits if_splits)
    then show ?thesis by (intro exI [of _ "[]"] exI [of _ order]) auto
  qed
qed auto

text \<open>C18. Instantiation of a pipeline: on success the blocks are those the constructors return for
  the nodes, one for each declared block, sources first, every connection from an earlier to a later
  block, and none was stopped; when a constructor fails or returns no block, exactly the blocks built
  before it are stopped.\<close>

theorem instantiation_order:
  assumes "Validate p = Inr ()"
  shows "\<exists>order. topoOrder p = Inr order \<and> distinct order \<and> set order = pn_Name ` set (p_Blocks p) \<and>
    topological (p_Connections p) order \<and>
    (case Instantiate ctors (Some p) of
       (Inr bs, st) \<Rightarrow> st = [] \<and> list_all2 (built ctors p) order bs
     | (Inl (ConstructFailed name), st) \<Rightarrow> \<exists>before after. order = before @ name # after \<and> list_all2 (built ctors p) before st
     | (Inl (NilBlock name), st) \<Rightarrow> \<exists>before after. order = before @ name # after \<and> list_all2 (built ctors p) before st
     | _ \<Rightarrow> True)"
proof -
  from topoOrder_ok [OF assms] obtain order where o: "topoOrder p = Inr order" "distinct order"
    "set order = pn_Name ` set (p_Blocks p)" "topological (p_Connections p) order" by blast
  have i: "Instantiate ctors (Some p) = instantiateLoop ctors (byName p) order []"
    using assms o(1) by (simp add: Instantiate_def)
  have ok: "st = [] \<and> list_all2 (built ctors p) order bs" if "Instantiate ctors (Some p) = (Inr bs, st)" for bs st
    using instantiateLoop_ok [of ctors p order "[]" bs st] that unfolding i by auto
  have err: "\<exists>before after. order = before @ name # after \<and> list_all2 (built ctors p) before st"
    if "Instantiate ctors (Some p) = (Inl (ConstructFailed name), st) \<or> Instantiate ctors (Some p) = (Inl (NilBlock name), st)"
    for name st
    using instantiateLoop_stops [of ctors p order "[]" name st] that unfolding i by auto
  show ?thesis
    by (intro exI [of _ order] conjI o) (use ok err in \<open>auto split: prod.split sum.split instantiate_error.split\<close>)
qed

definition twoBlocks :: "string \<Rightarrow> Pipeline" where
  "twoBlocks t =
    \<lparr>p_ID = ''p'', p_Name = ''p'',
     p_Blocks = [\<lparr>pn_Name = ''b'', pn_BlockType = t, pn_Config = []\<rparr>, \<lparr>pn_Name = ''a'', pn_BlockType = ''src'', pn_Config = []\<rparr>],
     p_Connections = [\<lparr>cn_From = ''a'', cn_FromPort = [], cn_To = ''b'', cn_ToPort = []\<rparr>]\<rparr>"

definition nameBlocks :: "string registry" where
  "nameBlocks t = (if t = ''src'' \<or> t = ''map'' then Some (\<lambda>name _. Some (Some name))
                   else if t = ''bad'' then Some (\<lambda>name _. None) else None)"

lemma twoBlocks_valid: "Validate (twoBlocks t) = Inr ()"
  by (simp add: Validate_iff pipeline_ok_def twoBlocks_def edges_def acyclic_insert wf_acyclic)

theorem instantiation_order_witness:
  "(\<exists>order. topoOrder (twoBlocks ''bad'') = Inr order \<and>
     topological (p_Connections (twoBlocks ''bad'')) order \<and> set order = {''a'', ''b''}) \<and>
   Instantiate nameBlocks (Some (twoBlocks ''bad'')) = (Inl (ConstructFailed ''b''), [''a'']) \<and>
   Instantiate nameBlocks (Some (twoBlocks ''map'')) = (Inr [''a'', ''b''], [])"
proof (intro conjI)
  have "set (map pn_Name (p_Blocks (twoBlocks ''bad''))) = {''a'', ''b''}" by (auto simp: twoBlocks_def)
  then show "\<exists>order. topoOrder (twoBlocks ''bad'') = Inr order \<and>
     topological (p_Connections (twoBlocks ''bad'')) order \<and> set order = {''a'', ''b''}"
    using instantiation_order [of "twoBlocks ''bad''" nameBlocks] twoBlocks_valid [of "''bad''"] by auto
  show "Instantiate nameBlocks (Some (twoBlocks ''bad'')) = (Inl (ConstructFailed ''b''), [''a''])" by code_simp
  show "Instantiate nameBlocks (Some (twoBlocks ''map'')) = (Inr [''a'', ''b''], [])" by code_simp
qed

lemma instantiateLoop_built:
  assumes "distinct (map pn_Name (p_Blocks p))"
  shows "list_all2 (built ctors p) before bs \<Longrightarrow>
    instantiateLoop ctors (byName p) (before @ rest) out = instantiateLoop ctors (byName p) rest (out @ bs)"
proof (induction before bs arbitrary: out rule: list_all2_induct)
  case (Cons name before b bs)
  from Cons.hyps(1) obtain node ctor where "node \<in> set (p_Blocks p)" "pn_Name node = name" "pn_BlockType node \<noteq> []"
    "ctors (pn_BlockType node) = Some ctor" "ctor name (pn_Config node) = Some (Some b)"
    unfolding built_def by blast
  with byName_find [OF assms, of node] Cons.IH [of "out @ [b]"] show ?case by auto
qed simp

theorem pipeline_validation_exact_witness:
  "Validate (twoBlocks ''map'') = Inr () \<and> acyclic (edges (p_Connections (twoBlocks ''map''))) \<and>
   distinct (map pn_Name (p_Blocks (twoBlocks ''map'')))"
  using pipeline_validation_exact [of "twoBlocks ''map''"] twoBlocks_valid [of "''map''"] by auto

text \<open>C39. When the type of a block is not registered, the error is reported and none of the blocks
  already built for the nodes before it is stopped.\<close>

theorem unknown_type_leaks_built_blocks:
  assumes "Validate p = Inr ()" "topoOrder p = Inr (before @ pn_Name node # after)"
    and "list_all2 (built ctors p) before bs"
    and "node \<in> set (p_Blocks p)" "pn_BlockType node \<noteq> []" "ctors (pn_BlockType node) = None"
  shows "Instantiate ctors (Some p) = (Inl (ErrUnknownBlockType (pn_BlockType node) (pn_Name node)), [])"
proof -
  have d: "distinct (map pn_Name (p_Blocks p))" using assms(1) by (simp add: Validate_iff pipeline_ok_def)
  show ?thesis
    using assms byName_find [OF d assms(4)] instantiateLoop_built [OF d assms(3)]
    by (simp add: Instantiate_def)
qed

theorem unknown_type_leaks_built_blocks_witness:
  "built nameBlocks (twoBlocks ''none'') ''a'' ''a'' \<and>
   Instantiate nameBlocks (Some (twoBlocks ''none'')) = (Inl (ErrUnknownBlockType ''none'' ''b''), [])"
proof
  show b: "built nameBlocks (twoBlocks ''none'') ''a'' ''a''" by (simp add: built_def nameBlocks_def twoBlocks_def)
  have o: "topoOrder (twoBlocks ''none'') = Inr ([''a''] @ pn_Name (hd (p_Blocks (twoBlocks ''none''))) # [])" by code_simp
  have "pn_BlockType (hd (p_Blocks (twoBlocks ''none''))) = ''none''" "pn_Name (hd (p_Blocks (twoBlocks ''none''))) = ''b''"
    "hd (p_Blocks (twoBlocks ''none'')) \<in> set (p_Blocks (twoBlocks ''none''))" by (simp_all add: twoBlocks_def)
  with unknown_type_leaks_built_blocks [OF _ o, of nameBlocks "[''a'']"] twoBlocks_valid [of "''none''"] b
  show "Instantiate nameBlocks (Some (twoBlocks ''none'')) = (Inl (ErrUnknownBlockType ''none'' ''b''), [])"
    by (simp add: nameBlocks_def)
qed

end
