(* ===== verification/Go_Lanes.thy ===== *)
theory Go_Lanes
  imports Go_Prelude "HOL-Library.Multiset"
begin

text \<open>
  What the sharded routers of the engine and of the flows share: the FNV-1a hash that picks a lane,
  and the interface of a router with one queue per lane.  Whatever the router does besides, as long
  as a message enters the queue of the lane of its key and lanes are emptied from the front, the
  messages of one key are taken in the order in which they were accepted.
\<close>

unbundle bit_operations_syntax

section \<open>FNV-1a\<close>

definition fnv1a :: "byte list \<Rightarrow> 64 word" where
  "fnv1a bs = fold (\<lambda>b h. (h XOR ucast b) * 1099511628211) bs 14695981039346656037"

definition fnvLane :: "byte list \<Rightarrow> nat \<Rightarrow> nat" where
  "fnvLane bs n = unat (fnv1a bs mod word_of_nat n)"

lemma fnvLane_bound:
  assumes "0 < n" "n < 2 ^ 63"
  shows "fnvLane bs n < n"
proof -
  have "unat (word_of_nat n :: 64 word) = n"
    using assms by (simp add: unsigned_of_nat take_bit_eq_mod)
  then show ?thesis using assms by (simp add: fnvLane_def unat_mod)
qed

section \<open>Routers with one queue per lane\<close>

locale keyed_lanes =
  fixes step :: "'s \<Rightarrow> 's \<Rightarrow> bool"
    and queue :: "'s \<Rightarrow> nat \<Rightarrow> 'm list"
    and accepted :: "'s \<Rightarrow> 'm list"
    and taken :: "'s \<Rightarrow> 'm list"
    and key :: "'m \<Rightarrow> 'k"
    and lane :: "'k \<Rightarrow> nat"
  assumes lane_step: "step s t \<Longrightarrow>
      (\<exists>m. accepted t = accepted s @ [m] \<and> taken t = taken s \<and>
         queue t = (queue s)(lane (key m) := queue s (lane (key m)) @ [m]))
    \<or> (\<exists>i m. accepted t = accepted s \<and> taken t = taken s @ [m] \<and> queue s i = m # queue t i \<and>
         (\<forall>j. j \<noteq> i \<longrightarrow> queue t j = queue s j))
    \<or> (accepted t = accepted s \<and> taken t = taken s \<and> queue t = queue s)"
begin

text \<open>Every queued message is in the lane of its key, and for every key the messages taken, followed
  by those still queued, are the messages accepted.\<close>

definition in_order :: "'s \<Rightarrow> bool" where
  "in_order s \<longleftrightarrow>
    (\<forall>i. \<forall>m \<in> set (queue s i). lane (key m) = i) \<and>
    (\<forall>k. filter (\<lambda>m. key m = k) (taken s) @ filter (\<lambda>m. key m = k) (queue s (lane k)) =
         filter (\<lambda>m. key m = k) (accepted s))"

lemma in_order_start:
  "(\<And>i. queue s i = []) \<Longrightarrow> accepted s = [] \<Longrightarrow> taken s = [] \<Longrightarrow> in_order s"
  by (simp add: in_order_def)

lemma in_order_accept:
  assumes "in_order s" "accepted t = accepted s @ [m]" "taken t = taken s"
    "queue t = (queue s)(lane (key m) := queue s (lane (key m)) @ [m])"
  shows "in_order t"
proof -
  have "filter (\<lambda>x. key x = k) (taken s) @ filter (\<lambda>x. key x = k) (queue t (lane k)) =
      filter (\<lambda>x. key x = k) (accepted s @ [m])" for k
  proof (cases "key m = k")
    case True
    with assms(1,4) show ?thesis unfolding in_order_def by auto
  next
    case False
    then have "filter (\<lambda>x. key x = k) (queue t (lane k)) = filter (\<lambda>x. key x = k) (queue s (lane k))"
      by (simp add: assms(4))
    with False assms(1) show ?thesis unfolding in_order_def by simp
  qed
  moreover have "lane (key x) = j" if "x \<in> set (queue t j)" for x j
    using assms(1) that unfolding in_order_def assms(4) by (cases "j = lane (key m)") auto
  ultimately show ?thesis using assms(2,3) by (simp add: in_order_def)
qed

lemma in_order_take:
  assumes o: "in_order s" and q: "queue s i = m # queue t i"
    and "accepted t = accepted s" "taken t = taken s @ [m]"
    and other: "\<And>j. j \<noteq> i \<Longrightarrow> queue t j = queue s j"
  shows "in_order t"
proof -
  from o have lanes: "\<And>j m. m \<in> set (queue s j) \<Longrightarrow> lane (key m) = j"
    and ord: "\<And>k. filter (\<lambda>m. key m = k) (taken s) @ filter (\<lambda>m. key m = k) (queue s (lane k)) =
      filter (\<lambda>m. key m = k) (accepted s)" unfolding in_order_def by blast+
  have i: "lane (key m) = i" using lanes [of m i] q by simp
  have "filter (\<lambda>m. key m = k) (taken s @ [m]) @ filter (\<lambda>m. key m = k) (queue t (lane k)) =
      filter (\<lambda>m. key m = k) (accepted s)" for k
    using ord [of k] q other [of "lane k"] i by (cases "lane k = i") auto
  moreover have "lane (key x) = j" if "x \<in> set (queue t j)" for x j
    using lanes [of x j] other [of j] q that by (cases "j = i") auto
  ultimately show ?thesis using assms(3,4) by (simp add: in_order_def)
qed

lemma in_order_step:
  assumes o: "in_order s" and st: "step s t"
  shows "in_order t"
  using lane_step [OF st]
proof (elim disjE exE conjE)
  fix m assume "accepted t = accepted s @ [m]" "taken t = taken s"
    "queue t = (queue s)(lane (key m) := queue s (lane (key m)) @ [m])"
  then show ?thesis by (rule in_order_accept [OF o])
next
  fix i m assume "accepted t = accepted s" "taken t = taken s @ [m]" "queue s i = m # queue t i"
    "\<forall>j. j \<noteq> i \<longrightarrow> queue t j = queue s j"
  then show ?thesis using in_order_take [OF o] by blast
qed (use o in \<open>simp add: in_order_def\<close>)

text \<open>The queues empty, everything accepted was taken: per key in order, and overall none lost or
  repeated.\<close>

lemma in_order_drained:
  assumes "in_order s" "\<And>i. queue s i = []"
  shows "filter (\<lambda>m. key m = k) (taken s) = filter (\<lambda>m. key m = k) (accepted s)" "mset (taken s) = mset (accepted s)"
proof -
  show ord: "filter (\<lambda>m. key m = k) (taken s) = filter (\<lambda>m. key m = k) (accepted s)" for k
    using assms unfolding in_order_def by auto
  have "count (mset (taken s)) m = count (mset (accepted s)) m" for m
  proof -
    have "count (mset xs) m = length (filter (\<lambda>x. x = m) (filter (\<lambda>x. key x = key m) xs))" for xs
      by (induction xs) auto
    then show ?thesis by (simp only: ord)
  qed
  then show "mset (taken s) = mset (accepted s)" by (rule multiset_eqI)
qed

end

end
