(* ===== verification/Flow_Router.thy ===== *)
theory Flow_Router
  imports Go_Lanes
begin

text \<open>
  Model of internal/flow/router.go and of the run of a block graph (graph.go): Submit with its two
  overflow policies, Drain, and the lane goroutines.  Submit holds a read lock from the closed check
  to the end of its send, so a call that passed the check is a sender until it has sent or dropped
  its message, and Drain, which takes the write lock, runs only without senders.  A message is any
  value with a key.  The fields accepted and taken are the history of the sends and of the messages
  handed to the block graph.
\<close>

section \<open>Configuration\<close>

datatype OverflowPolicy = OverflowBlock | OverflowDrop

record RouterConfig =
  rc_Lanes :: int
  rc_LaneCapacity :: int
  rc_QoS0Overflow :: OverflowPolicy
  rc_QoS1Overflow :: OverflowPolicy

definition DefaultLaneCount :: int where "DefaultLaneCount = 16"
definition DefaultLaneCapacity :: int where "DefaultLaneCapacity = 256"

text \<open>The configuration after the defaults of NewRouter.\<close>

definition routerConfig :: "RouterConfig \<Rightarrow> RouterConfig" where
  "routerConfig cfg =
    (let cfg = (if rc_Lanes cfg \<le> 0 then cfg\<lparr>rc_Lanes := DefaultLaneCount\<rparr> else cfg)
     in if rc_LaneCapacity cfg \<le> 0 then cfg\<lparr>rc_LaneCapacity := DefaultLaneCapacity\<rparr> else cfg)"

section \<open>State\<close>

datatype laneState = LaneRunning | LaneDraining | LaneExited

record 'm Router =
  fr_lanes :: "'m list list"
  fr_workers :: "laneState list"
  fr_closed :: bool
  fr_senders :: "('m \<times> nat) list"
  fr_submitted :: nat
  fr_processed :: nat
  fr_droppedQoS0 :: nat
  fr_droppedQoS1 :: nat
  fr_blockErrors :: nat
  fr_refused :: nat
  fr_accepted :: "'m list"
  fr_taken :: "'m list"

definition NewRouter :: "RouterConfig \<Rightarrow> 'm Router" where
  "NewRouter cfg =
    (let n = nat (rc_Lanes (routerConfig cfg))
     in \<lparr>fr_lanes = replicate n [], fr_workers = replicate n LaneRunning, fr_closed = False, fr_senders = [],
         fr_submitted = 0, fr_processed = 0, fr_droppedQoS0 = 0, fr_droppedQoS1 = 0, fr_blockErrors = 0,
         fr_refused = 0, fr_accepted = [], fr_taken = []\<rparr>)"

definition laneOf :: "string \<Rightarrow> nat \<Rightarrow> nat" where
  "laneOf key n = fnvLane (map of_char key) n"

section \<open>Operations\<close>

text \<open>Submit up to the closed check; fr_refused counts the calls that return there.\<close>

definition submitBegin :: "'m \<Rightarrow> nat \<Rightarrow> 'm Router \<Rightarrow> 'm Router" where
  "submitBegin msg qos r =
    (let r = r\<lparr>fr_submitted := fr_submitted r + 1\<rparr>
     in if fr_closed r then r\<lparr>fr_refused := fr_refused r + 1\<rparr> else r\<lparr>fr_senders := (msg, qos) # fr_senders r\<rparr>)"

definition enqueue :: "nat \<Rightarrow> 'm \<Rightarrow> 'm Router \<Rightarrow> 'm Router" where
  "enqueue l msg r = r\<lparr>fr_lanes := (fr_lanes r)[l := fr_lanes r ! l @ [msg]], fr_accepted := fr_accepted r @ [msg]\<rparr>"

text \<open>The send: into the lane when it has room, counted as dropped when it has none and the policy
  of the message drops, and None while it blocks.\<close>

definition submitSend :: "RouterConfig \<Rightarrow> ('m \<Rightarrow> string) \<Rightarrow> 'm \<Rightarrow> nat \<Rightarrow> 'm Router \<Rightarrow> 'm Router option" where
  "submitSend cfg keyOf msg qos r =
    (let l = laneOf (keyOf msg) (length (fr_lanes r));
         room = int (length (fr_lanes r ! l)) < rc_LaneCapacity cfg;
         r' = r\<lparr>fr_senders := remove1 (msg, qos) (fr_senders r)\<rparr>
     in if qos = 0 \<and> rc_QoS0Overflow cfg = OverflowDrop then
          (if room then Some (enqueue l msg r') else Some (r'\<lparr>fr_droppedQoS0 := fr_droppedQoS0 r + 1\<rparr>))
        else if qos \<ge> 1 \<and> rc_QoS1Overflow cfg = OverflowDrop then
          (if room then Some (enqueue l msg r') else Some (r'\<lparr>fr_droppedQoS1 := fr_droppedQoS1 r + 1\<rparr>))
        else if room then Some (enqueue l msg r')
        else None)"

text \<open>Drain under the write lock.\<close>

definition drainClose :: "'m Router \<Rightarrow> 'm Router" where
  "drainClose r = r\<lparr>fr_closed := True\<rparr>"

text \<open>processOne: graph.Run ends normally, with an error of a block, or with a panic that is
  recovered.\<close>

datatype runOutcome = RunOk | RunError | RunPanic

definition processOne :: "('m \<Rightarrow> runOutcome) \<Rightarrow> 'm \<Rightarrow> 'm Router \<Rightarrow> 'm Router" where
  "processOne run msg r =
    (case run msg of
       RunOk \<Rightarrow> r\<lparr>fr_processed := fr_processed r + 1\<rparr>
     | RunError \<Rightarrow> r\<lparr>fr_blockErrors := fr_blockErrors r + 1, fr_processed := fr_processed r + 1\<rparr>
     | RunPanic \<Rightarrow> r\<lparr>fr_blockErrors := fr_blockErrors r + 1\<rparr>)"

text \<open>The iterations of runLane: a message is received, quit is seen, and the lane that saw quit ends
  when its buffer is empty.\<close>

definition laneReceive :: "('m \<Rightarrow> runOutcome) \<Rightarrow> nat \<Rightarrow> 'm Router \<Rightarrow> 'm Router" where
  "laneReceive run l r =
    (let msg = hd (fr_lanes r ! l)
     in processOne run msg (r\<lparr>fr_lanes := (fr_lanes r)[l := tl (fr_lanes r ! l)], fr_taken := fr_taken r @ [msg]\<rparr>))"

definition laneQuit :: "nat \<Rightarrow> 'm Router \<Rightarrow> 'm Router" where
  "laneQuit l r = r\<lparr>fr_workers := (fr_workers r)[l := LaneDraining]\<rparr>"

definition laneExit :: "nat \<Rightarrow> 'm Router \<Rightarrow> 'm Router" where
  "laneExit l r = r\<lparr>fr_workers := (fr_workers r)[l := LaneExited]\<rparr>"

text \<open>Drain returns nil when every lane goroutine has ended.\<close>

definition drained :: "'m Router \<Rightarrow> bool" where
  "drained r = list_all (\<lambda>w. w = LaneExited) (fr_workers r)"

section \<open>Graph runs\<close>

text \<open>BlockGraph.Run: the stages that are not sources, each applied to every message the stage before
  produced, in order.  A stage fails with an error or returns messages.\<close>

record ('m, 'e) Block =
  bl_isSource :: bool
  bl_Process :: "'m \<Rightarrow> 'e + 'm list"

fun processAll :: "('m \<Rightarrow> 'e + 'm list) \<Rightarrow> 'm list \<Rightarrow> 'm list \<Rightarrow> 'e + 'm list" where
  "processAll process [] acc = Inr acc"
| "processAll process (m # ms) acc =
     (case process m of Inl e \<Rightarrow> Inl e | Inr out \<Rightarrow> processAll process ms (acc @ out))"

fun runBlocks :: "('m, 'e) Block list \<Rightarrow> 'm list \<Rightarrow> 'e + 'm list" where
  "runBlocks [] cur = Inr cur"
| "runBlocks (b # bs) cur =
     (if bl_isSource b then runBlocks bs cur
      else (case processAll (bl_Process b) cur [] of Inl e \<Rightarrow> Inl e | Inr nxt \<Rightarrow> runBlocks bs nxt))"

definition graphRun :: "('m, 'e) Block list \<Rightarrow> 'm \<Rightarrow> 'e + 'm list" where
  "graphRun bs msg = runBlocks bs [msg]"

section \<open>Steps\<close>

inductive routes :: "RouterConfig \<Rightarrow> ('m \<Rightarrow> string) \<Rightarrow> ('m \<Rightarrow> runOutcome) \<Rightarrow> 'm Router \<Rightarrow> 'm Router \<Rightarrow> bool"
  for cfg :: RouterConfig and keyOf :: "'m \<Rightarrow> string" and run :: "'m \<Rightarrow> runOutcome" where
  submit_begin: "routes cfg keyOf run r (submitBegin msg qos r)"
| submit_send: "routes cfg keyOf run r r'"
    if "(msg, qos) \<in> set (fr_senders r)" "submitSend cfg keyOf msg qos r = Some r'"
| drain_close: "routes cfg keyOf run r (drainClose r)" if "fr_senders r = []"
| lane_receive: "routes cfg keyOf run r (laneReceive run l r)"
    if "l < length (fr_lanes r)" "fr_workers r ! l \<noteq> LaneExited" "fr_lanes r ! l \<noteq> []"
| lane_quit: "routes cfg keyOf run r (laneQuit l r)"
    if "l < length (fr_lanes r)" "fr_workers r ! l = LaneRunning" "fr_closed r"
| lane_exit: "routes cfg keyOf run r (laneExit l r)"
    if "l < length (fr_lanes r)" "fr_workers r ! l = LaneDraining" "fr_lanes r ! l = []"

definition reachable :: "RouterConfig \<Rightarrow> ('m \<Rightarrow> string) \<Rightarrow> ('m \<Rightarrow> runOutcome) \<Rightarrow> 'm Router \<Rightarrow> bool" where
  "reachable cfg keyOf run r = (routes (routerConfig cfg) keyOf run)\<^sup>*\<^sup>* (NewRouter cfg) r"

section \<open>The router as a router with lanes\<close>

definition laneQueue :: "'m Router \<Rightarrow> nat \<Rightarrow> 'm list" where
  "laneQueue r i = (if i < length (fr_lanes r) then fr_lanes r ! i else [])"

definition routesWith ::
  "nat \<Rightarrow> RouterConfig \<Rightarrow> ('m \<Rightarrow> string) \<Rightarrow> ('m \<Rightarrow> runOutcome) \<Rightarrow> 'm Router \<Rightarrow> 'm Router \<Rightarrow> bool" where
  "routesWith n cfg keyOf run r r' \<longleftrightarrow> 0 < n \<and> n < 2 ^ 63 \<and> length (fr_lanes r) = n \<and> routes cfg keyOf run r r'"

lemma laneOf_bound: "0 < n \<Longrightarrow> n < 2 ^ 63 \<Longrightarrow> laneOf k n < n"
  unfolding laneOf_def by (rule fnvLane_bound)

lemma enqueue_fields [simp]:
  "fr_taken (enqueue l m r) = fr_taken r" "fr_accepted (enqueue l m r) = fr_accepted r @ [m]"
  "fr_workers (enqueue l m r) = fr_workers r" "fr_closed (enqueue l m r) = fr_closed r"
  "fr_senders (enqueue l m r) = fr_senders r" "fr_submitted (enqueue l m r) = fr_submitted r"
  "fr_refused (enqueue l m r) = fr_refused r" "fr_droppedQoS0 (enqueue l m r) = fr_droppedQoS0 r"
  "fr_droppedQoS1 (enqueue l m r) = fr_droppedQoS1 r" "fr_processed (enqueue l m r) = fr_processed r"
  "fr_lanes (enqueue l m r) = (fr_lanes r)[l := fr_lanes r ! l @ [m]]"
  by (simp_all add: enqueue_def)

lemma processOne_fields [simp]:
  "fr_taken (processOne run m r) = fr_taken r" "fr_accepted (processOne run m r) = fr_accepted r"
  "fr_workers (processOne run m r) = fr_workers r" "fr_closed (processOne run m r) = fr_closed r"
  "fr_senders (processOne run m r) = fr_senders r" "fr_submitted (processOne run m r) = fr_submitted r"
  "fr_refused (processOne run m r) = fr_refused r" "fr_droppedQoS0 (processOne run m r) = fr_droppedQoS0 r"
  "fr_droppedQoS1 (processOne run m r) = fr_droppedQoS1 r" "fr_lanes (processOne run m r) = fr_lanes r"
  by (simp_all add: processOne_def split: runOutcome.split)

text \<open>What a send does: the message leaves the senders and is enqueued in its lane, which has room,
  or counted as dropped.\<close>

lemma submitSend_cases:
  assumes "submitSend cfg keyOf m q r = Some r'"
  obtains (sent) "int (length (fr_lanes r ! laneOf (keyOf m) (length (fr_lanes r)))) < rc_LaneCapacity cfg"
      "r' = enqueue (laneOf (keyOf m) (length (fr_lanes r))) m (r\<lparr>fr_senders := remove1 (m, q) (fr_senders r)\<rparr>)"
    | (dropped) "r' = r\<lparr>fr_senders := remove1 (m, q) (fr_senders r), fr_droppedQoS0 := fr_droppedQoS0 r + 1\<rparr> \<or>
        r' = r\<lparr>fr_senders := remove1 (m, q) (fr_senders r), fr_droppedQoS1 := fr_droppedQoS1 r + 1\<rparr>"
  using assms by (auto simp: submitSend_def Let_def split: if_splits)

lemma laneQueue_enqueue:
  "l < length (fr_lanes r) \<Longrightarrow> laneQueue (enqueue l m r) = (laneQueue r)(l := laneQueue r l @ [m])"
  by (auto simp: laneQueue_def fun_eq_iff nth_list_update)

lemma laneQueue_cong: "fr_lanes r' = fr_lanes r \<Longrightarrow> laneQueue r' = laneQueue r"
  by (simp add: laneQueue_def fun_eq_iff)

interpretation fl: keyed_lanes "routesWith n cfg keyOf run" laneQueue fr_accepted fr_taken keyOf "\<lambda>k. laneOf k n"
  for n :: nat and cfg :: RouterConfig and keyOf :: "'m \<Rightarrow> string" and run :: "'m \<Rightarrow> runOutcome"
proof
  fix r r' :: "'m Router"
  assume "routesWith n cfg keyOf run r r'"
  then have n: "0 < n" "n < 2 ^ 63" "length (fr_lanes r) = n" and "routes cfg keyOf run r r'"
    by (auto simp: routesWith_def)
  from this(4)
  show "(\<exists>m. fr_accepted r' = fr_accepted r @ [m] \<and> fr_taken r' = fr_taken r \<and>
          laneQueue r' = (laneQueue r)(laneOf (keyOf m) n := laneQueue r (laneOf (keyOf m) n) @ [m]))
      \<or> (\<exists>i m. fr_accepted r' = fr_accepted r \<and> fr_taken r' = fr_taken r @ [m] \<and> laneQueue r i = m # laneQueue r' i \<and>
          (\<forall>j. j \<noteq> i \<longrightarrow> laneQueue r' j = laneQueue r j))
      \<or> (fr_accepted r' = fr_accepted r \<and> fr_taken r' = fr_taken r \<and> laneQueue r' = laneQueue r)"
  proof cases
    case (submit_send msg qos)
    from submit_send(2) show ?thesis
    proof (cases rule: submitSend_cases)
      case sent
      let ?s = "r\<lparr>fr_senders := remove1 (msg, qos) (fr_senders r)\<rparr>"
      have "laneQueue ?s = laneQueue r" by (rule laneQueue_cong) simp
      moreover have "laneQueue (enqueue (laneOf (keyOf msg) n) msg ?s) =
          (laneQueue ?s)(laneOf (keyOf msg) n := laneQueue ?s (laneOf (keyOf msg) n) @ [msg])"
        by (rule laneQueue_enqueue) (use laneOf_bound [OF n(1,2), of "keyOf msg"] in \<open>simp add: n(3)\<close>)
      ultimately show ?thesis using sent(2) n(3) by auto
    qed (auto intro!: laneQueue_cong)
  next
    case (lane_receive l)
    then have "laneQueue r l = hd (fr_lanes r ! l) # laneQueue r' l" "\<And>j. j \<noteq> l \<Longrightarrow> laneQueue r' j = laneQueue r j"
      by (auto simp: laneReceive_def Let_def laneQueue_def)
    with lane_receive(1) show ?thesis by (auto simp: laneReceive_def Let_def)
  qed (auto intro!: laneQueue_cong simp: submitBegin_def drainClose_def laneQuit_def laneExit_def Let_def)
qed

section \<open>Invariant\<close>

definition router_ok :: "RouterConfig \<Rightarrow> 'm Router \<Rightarrow> bool" where
  "router_ok cfg r \<longleftrightarrow>
    length (fr_lanes r) = nat (rc_Lanes cfg) \<and> length (fr_workers r) = nat (rc_Lanes cfg) \<and>
    (\<forall>l < length (fr_lanes r). int (length (fr_lanes r ! l)) \<le> rc_LaneCapacity cfg) \<and>
    (fr_closed r \<longrightarrow> fr_senders r = []) \<and>
    (\<forall>l < length (fr_workers r). fr_workers r ! l \<noteq> LaneRunning \<longrightarrow> fr_closed r) \<and>
    (\<forall>l < length (fr_workers r). fr_workers r ! l = LaneExited \<longrightarrow> fr_lanes r ! l = []) \<and>
    fr_submitted r = fr_refused r + length (fr_senders r) + length (fr_accepted r) + fr_droppedQoS0 r + fr_droppedQoS1 r"

lemma router_ok_start: "0 < rc_LaneCapacity (routerConfig cfg)"
  "router_ok (routerConfig cfg) (NewRouter cfg)"
  by (auto simp: router_ok_def NewRouter_def Let_def routerConfig_def DefaultLaneCapacity_def DefaultLaneCount_def)

lemma remove1_length: "x \<in> set xs \<Longrightarrow> length xs = Suc (length (remove1 x xs))"
  by (induction xs) auto

lemma router_ok_enqueue:
  assumes "router_ok cfg r" "(m, q) \<in> set (fr_senders r)" "int (length (fr_lanes r ! l)) < rc_LaneCapacity cfg"
  shows "router_ok cfg (enqueue l m (r\<lparr>fr_senders := remove1 (m, q) (fr_senders r)\<rparr>))"
proof -
  have "int (length ((fr_lanes r)[l := fr_lanes r ! l @ [m]] ! i)) \<le> rc_LaneCapacity cfg"
    if "i < length (fr_lanes r)" for i
    using assms(1,3) that by (cases "i = l") (auto simp: router_ok_def)
  then show ?thesis using assms(1,2) remove1_length [OF assms(2)] by (auto simp: router_ok_def)
qed

lemma router_ok_step:
  assumes ok: "router_ok cfg r" and st: "routes cfg keyOf run r r'"
  shows "router_ok cfg r'"
  using st
proof cases
  case (submit_send msg qos)
  note len = remove1_length [OF submit_send(1)]
  from submit_send(2) show ?thesis
  proof (cases rule: submitSend_cases)
    case sent
    with router_ok_enqueue [OF ok submit_send(1)] show ?thesis by simp
  next
    case dropped
    with ok len show ?thesis by (auto simp: router_ok_def)
  qed
next
  case (lane_receive l)
  with ok show ?thesis
    by (auto simp: router_ok_def laneReceive_def Let_def nth_list_update)
next
  case (lane_exit l)
  with ok show ?thesis by (auto simp: router_ok_def laneExit_def nth_list_update)
next
  case (lane_quit l)
  with ok show ?thesis by (auto simp: router_ok_def laneQuit_def nth_list_update)
qed (use ok in \<open>auto simp: router_ok_def submitBegin_def drainClose_def Let_def\<close>)

lemma reachable_ok:
  assumes "rc_Lanes cfg < 2 ^ 63" "reachable cfg keyOf run r"
  shows "router_ok (routerConfig cfg) r" "fl.in_order keyOf (nat (rc_Lanes (routerConfig cfg))) r"
proof -
  let ?n = "nat (rc_Lanes (routerConfig cfg))"
  have n: "0 < ?n" "?n < 2 ^ 63"
    using assms(1) by (auto simp: routerConfig_def Let_def DefaultLaneCount_def)
  have "router_ok (routerConfig cfg) r \<and> fl.in_order keyOf ?n r"
    using assms(2) unfolding reachable_def
  proof (induction rule: rtranclp_induct)
    case base
    have "fl.in_order keyOf ?n (NewRouter cfg)"
      by (rule fl.in_order_start) (auto simp: laneQueue_def NewRouter_def Let_def)
    then show ?case by (simp add: router_ok_start)
  next
    case (step r r')
    then have "routesWith ?n (routerConfig cfg) keyOf run r r'"
      using n by (auto simp: routesWith_def router_ok_def)
    then have "fl.in_order keyOf ?n r'" using step.IH fl.in_order_step by blast
    then show ?case using step router_ok_step by blast
  qed
  then show "router_ok (routerConfig cfg) r" "fl.in_order keyOf ?n r" by auto
qed

section \<open>Properties\<close>


definition oneLane :: RouterConfig where
  "oneLane = \<lparr>rc_Lanes = 1, rc_LaneCapacity = 1, rc_QoS0Overflow = OverflowDrop, rc_QoS1Overflow = OverflowBlock\<rparr>"

definition sentOne :: "string Router" where
  "sentOne = the (submitSend oneLane id ''a'' 1 (submitBegin ''a'' 1 (NewRouter oneLane)))"

definition drainedOne :: "string Router" where
  "drainedOne = laneExit 0 (laneQuit 0 (laneReceive (\<lambda>_. RunOk) 0 (drainClose sentOne)))"

lemma drainedOne_reachable: "reachable oneLane id (\<lambda>_. RunOk) drainedOne"
proof -
  let ?step = "routes oneLane id (\<lambda>_ :: string. RunOk)"
  have cfg: "routerConfig oneLane = oneLane" by code_simp
  have begin_step: "?step (NewRouter oneLane) (submitBegin ''a'' 1 (NewRouter oneLane))" by (rule submit_begin)
  have send_step: "?step (submitBegin ''a'' 1 (NewRouter oneLane)) sentOne"
    by (rule submit_send [of "''a''" 1]; code_simp)
  have close_step: "?step sentOne (drainClose sentOne)" by (rule drain_close; code_simp)
  have recv_step: "?step (drainClose sentOne) (laneReceive (\<lambda>_. RunOk) 0 (drainClose sentOne))"
    by (rule lane_receive; code_simp)
  have quit_step: "?step (laneReceive (\<lambda>_. RunOk) 0 (drainClose sentOne))
      (laneQuit 0 (laneReceive (\<lambda>_. RunOk) 0 (drainClose sentOne)))"
    by (rule lane_quit; code_simp)
  have exit_step: "?step (laneQuit 0 (laneReceive (\<lambda>_. RunOk) 0 (drainClose sentOne))) drainedOne"
    unfolding drainedOne_def by (rule lane_exit; code_simp)
  show ?thesis unfolding reachable_def cfg
    by (rule converse_rtranclp_into_rtranclp [of ?step, OF begin_step] converse_rtranclp_into_rtranclp [of ?step, OF send_step]
        converse_rtranclp_into_rtranclp [of ?step, OF close_step] converse_rtranclp_into_rtranclp [of ?step, OF recv_step]
        converse_rtranclp_into_rtranclp [of ?step, OF quit_step] converse_rtranclp_into_rtranclp [of ?step, OF exit_step]
        rtranclp.rtrancl_refl)+
qed


end
