(* ===== verification/Payload_Codec.thy ===== *)
theory Payload_Codec
  imports Schema_Trie Payload_Value "HOL-Library.List_Lexorder"
begin

text \<open>
  Model of pkg/payload: sniff.go, the JSON and BSON sides of json.go and bson.go, and the facade
  payload.go.  The texts and documents below the codec are an argument: the JSON parser and printer,
  the reading of a BSON document by the driver (None when it is not valid), and the texts of times
  and floats.  A JSON number keeps its literal.  A Go map is iterated in an unspecified order; where
  the code ranges over the leaves of an object the order is an argument, elsewhere the document
  order is used, which only decides which of several errors is reported.
\<close>

section \<open>Sniffing\<close>

definition le32 :: "byte list \<Rightarrow> nat" where
  "le32 bs = (case bs of a # b # c # d # _ \<Rightarrow> unat a + 256 * unat b + 65536 * unat c + 16777216 * unat d | _ \<Rightarrow> 0)"

fun sniffJSON :: "byte list \<Rightarrow> Format" where
  "sniffJSON [] = FormatInvalid"
| "sniffJSON (c # cs) =
     (if c \<in> {0x20, 0x09, 0x0D, 0x0A} then sniffJSON cs
      else if c = 0x7B then FormatJSON
      else FormatInvalid)"

definition DetectFormat :: "byte list \<Rightarrow> Format" where
  "DetectFormat p =
    (if p = [] then FormatEmpty
     else if length p \<ge> 5 \<and> length p \<le> 2147483647 \<and> le32 (take 4 p) = length p \<and> last p = 0 then FormatBSON
     else sniffJSON p)"

section \<open>Documents\<close>

datatype bson =
    BDouble float64
  | BInt32 "32 word"
  | BInt64 int64
  | BBoolean bool
  | BString string
  | BBinary "byte list"
  | BDateTime int64
  | BArray "bson list"
  | BDocument "(string \<times> bson) list"
  | BOther

record codec =
  co_json :: "byte list \<Rightarrow> json option"
  co_marshal :: "json \<Rightarrow> byte list"
  co_bson :: "byte list \<Rightarrow> (string \<times> bson) list option"
  co_parseTime :: "string \<Rightarrow> int option"
  co_formatTime :: "int \<Rightarrow> string"
  co_formatFloat :: "float64 \<Rightarrow> string"

section \<open>BSON\<close>

definition decodeBSONEnvelope :: "codec \<Rightarrow> byte list \<Rightarrow> payload_error + bson \<times> int option" where
  "decodeBSONEnvelope co p =
    (if length p < 5 \<or> le32 (take 4 p) \<noteq> length p then rejectf ReasonMalformed
     else
       (case co_bson co p of
          None \<Rightarrow> rejectf ReasonMalformed
        | Some doc \<Rightarrow>
            (case map_of doc ''v'' of
               None \<Rightarrow> rejectf ReasonNoValue
             | Some v \<Rightarrow>
                 (case map_of doc ''t'' of
                    None \<Rightarrow> Inr (v, None)
                  | Some (BDateTime ms) \<Rightarrow> bindR (dateTimeFromMillis ms) (\<lambda>ts. Inr (v, Some ts))
                  | Some _ \<Rightarrow> rejectf ReasonBadTimestamp))))"

text \<open>decodeBSONValue for a type that is not an array, and in full; the element type of an array is
  never an array.\<close>

definition decodeBSONScalar :: "bson \<Rightarrow> ValueType \<Rightarrow> payload_error + dyn" where
  "decodeBSONScalar rv vt =
    (case vt of
       Double \<Rightarrow>
         (case rv of
            BDouble f \<Rightarrow> asValue AFloat (checkDouble f)
          | BInt32 i \<Rightarrow> Inr (AFloat (f64_of_int (sint i)))
          | BInt64 i \<Rightarrow> asValue AFloat (doubleFromInt64 i)
          | _ \<Rightarrow> rejectf ReasonTypeMismatch)
     | Integer \<Rightarrow>
         (case rv of
            BInt32 i \<Rightarrow> Inr (AInt32 i)
          | BInt64 i \<Rightarrow> asValue AInt32 (int32FromInt64 i)
          | BDouble f \<Rightarrow> asValue AInt32 (int32FromFloat64 f)
          | _ \<Rightarrow> rejectf ReasonTypeMismatch)
     | LongInteger \<Rightarrow>
         (case rv of
            BInt64 i \<Rightarrow> Inr (AInt64 i)
          | BInt32 i \<Rightarrow> Inr (AInt64 (word_of_int (sint i)))
          | _ \<Rightarrow> rejectf ReasonTypeMismatch)
     | Boolean \<Rightarrow> (case rv of BBoolean b \<Rightarrow> Inr (ABool b) | _ \<Rightarrow> rejectf ReasonTypeMismatch)
     | String \<Rightarrow> (case rv of BString s \<Rightarrow> asValue AString (checkString s) | _ \<Rightarrow> rejectf ReasonTypeMismatch)
     | BinaryBlob \<Rightarrow> (case rv of BBinary data \<Rightarrow> Inr (ABytes data) | _ \<Rightarrow> rejectf ReasonTypeMismatch)
     | DateTime \<Rightarrow> (case rv of BDateTime ms \<Rightarrow> asValue ATime (dateTimeFromMillis ms) | _ \<Rightarrow> rejectf ReasonTypeMismatch)
     | _ \<Rightarrow> rejectf ReasonTypeMismatch)"

definition decodeBSONValue :: "bson \<Rightarrow> ValueType \<Rightarrow> payload_error + dyn" where
  "decodeBSONValue rv vt =
    (if IsArray vt then
       (case rv of
          BArray vals \<Rightarrow> decodeArray vt (map (\<lambda>v. decodeBSONScalar v (Elem vt)) vals)
        | _ \<Rightarrow> rejectf ReasonTypeMismatch)
     else decodeBSONScalar rv vt)"

fun bsonObjectLoop ::
  "(string \<Rightarrow> CompiledMapping option) \<Rightarrow> (string \<times> bson) list \<Rightarrow> (string \<times> dyn) list \<Rightarrow> payload_error + (string \<times> dyn) list" where
  "bsonObjectLoop leaves [] out = Inr out"
| "bsonObjectLoop leaves ((key, ev) # elems) out =
     (case leaves key of
        None \<Rightarrow> rejectf ReasonBadObject
      | Some leaf \<Rightarrow>
          (if map_of out key \<noteq> None then rejectf ReasonBadObject
           else bindR (decodeBSONValue ev (cm_ValueType leaf)) (\<lambda>val. bsonObjectLoop leaves elems (out @ [(key, val)]))))"

definition decodeBSONObject :: "bson \<Rightarrow> (string \<Rightarrow> CompiledMapping option) \<Rightarrow> payload_error + dyn" where
  "decodeBSONObject rv leaves =
    (case rv of
       BDocument elems \<Rightarrow>
         (if elems = [] then rejectf ReasonBadObject else asValue AMap (bsonObjectLoop leaves elems []))
     | _ \<Rightarrow> rejectf ReasonBadObject)"

section \<open>JSON\<close>

definition maxSafeJSONInt :: int where "maxSafeJSONInt = 2 ^ 53"

definition jsonNumber :: "json \<Rightarrow> payload_error + string" where
  "jsonNumber raw = (case raw of JNumber num \<Rightarrow> Inr num | _ \<Rightarrow> rejectf ReasonTypeMismatch)"

definition jsonInt64 :: "string \<Rightarrow> payload_error + int64" where
  "jsonInt64 num =
    (case ParseInt num of
       IntOk i \<Rightarrow> Inr (word_of_int i)
     | IntRange \<Rightarrow> rejectf ReasonTypeMismatch
     | IntSyntax \<Rightarrow>
         (case ParseFloat num of
            None \<Rightarrow> rejectf ReasonTypeMismatch
          | Some f \<Rightarrow>
              (case f64_int f of
                 None \<Rightarrow> rejectf ReasonTypeMismatch
               | Some j \<Rightarrow>
                   (if j \<le> - maxSafeJSONInt \<or> j \<ge> maxSafeJSONInt then rejectf ReasonTypeMismatch
                    else Inr (word_of_int j)))))"

definition decodeJSONDateTime :: "codec \<Rightarrow> json \<Rightarrow> payload_error + int" where
  "decodeJSONDateTime co raw =
    (case raw of
       JNull \<Rightarrow> rejectf ReasonTypeMismatch
     | JString s \<Rightarrow>
         (case co_parseTime co s of None \<Rightarrow> rejectf ReasonTypeMismatch | Some ts \<Rightarrow> checkDateTime ts)
     | _ \<Rightarrow>
         (case jsonNumber raw of
            Inl _ \<Rightarrow> rejectf ReasonTypeMismatch
          | Inr num \<Rightarrow> bindR (jsonInt64 num) dateTimeFromMillis))"

definition decodeJSONScalar :: "codec \<Rightarrow> json \<Rightarrow> ValueType \<Rightarrow> payload_error + dyn" where
  "decodeJSONScalar co raw vt =
    (if raw = JNull then rejectf ReasonTypeMismatch
     else
       (case vt of
          Double \<Rightarrow>
            bindR (jsonNumber raw) (\<lambda>num.
              case ParseFloat num of None \<Rightarrow> rejectf ReasonTypeMismatch | Some f \<Rightarrow> asValue AFloat (checkDouble f))
        | Integer \<Rightarrow> bindR (jsonNumber raw) (\<lambda>num. bindR (jsonInt64 num) (\<lambda>i. asValue AInt32 (int32FromInt64 i)))
        | LongInteger \<Rightarrow>
            (case raw of
               JString s \<Rightarrow> (case ParseInt s of IntOk i \<Rightarrow> Inr (AInt64 (word_of_int i)) | _ \<Rightarrow> rejectf ReasonTypeMismatch)
             | _ \<Rightarrow> bindR (jsonNumber raw) (\<lambda>num. asValue AInt64 (jsonInt64 num)))
        | Boolean \<Rightarrow> (case raw of JBool b \<Rightarrow> Inr (ABool b) | _ \<Rightarrow> rejectf ReasonTypeMismatch)
        | String \<Rightarrow> (case raw of JString s \<Rightarrow> asValue AString (checkString s) | _ \<Rightarrow> rejectf ReasonTypeMismatch)
        | BinaryBlob \<Rightarrow>
            (case raw of
               JString s \<Rightarrow> (case stdDecodeStrict s of None \<Rightarrow> rejectf ReasonTypeMismatch | Some data \<Rightarrow> Inr (ABytes data))
             | _ \<Rightarrow> rejectf ReasonTypeMismatch)
        | DateTime \<Rightarrow> asValue ATime (decodeJSONDateTime co raw)
        | _ \<Rightarrow> rejectf ReasonTypeMismatch))"

definition decodeJSONValue :: "codec \<Rightarrow> json \<Rightarrow> ValueType \<Rightarrow> payload_error + dyn" where
  "decodeJSONValue co raw vt =
    (if raw = JNull then rejectf ReasonTypeMismatch
     else if IsArray vt then
       (case raw of
          JArray elems \<Rightarrow> decodeArray vt (map (\<lambda>e. decodeJSONScalar co e (Elem vt)) elems)
        | _ \<Rightarrow> rejectf ReasonTypeMismatch)
     else decodeJSONScalar co raw vt)"

text \<open>The envelope: encoding/json matches the names of struct fields without regard to case, and the
  last of several matching members wins.\<close>

definition lastMember :: "string list \<Rightarrow> (string \<times> json) list \<Rightarrow> json option" where
  "lastMember names ms = map_option snd (find (\<lambda>(k, _). k \<in> set names) (rev ms))"

definition parseJSONTimestamp :: "codec \<Rightarrow> json \<Rightarrow> payload_error + int" where
  "parseJSONTimestamp co raw =
    (case decodeJSONDateTime co raw of
       Inl (RejectError _) \<Rightarrow> rejectf ReasonBadTimestamp
     | r \<Rightarrow> r)"

definition decodeJSONEnvelope :: "codec \<Rightarrow> byte list \<Rightarrow> payload_error + json \<times> int option" where
  "decodeJSONEnvelope co p =
    (case co_json co p of
       Some (JObject ms) \<Rightarrow>
         (case lastMember [''v'', ''V''] ms of
            None \<Rightarrow> rejectf ReasonNoValue
          | Some v \<Rightarrow>
              (case lastMember [''t'', ''T''] ms of
                 None \<Rightarrow> Inr (v, None)
               | Some t \<Rightarrow> bindR (parseJSONTimestamp co t) (\<lambda>ts. Inr (v, Some ts))))
     | _ \<Rightarrow> rejectf ReasonMalformed)"

fun jsonObjectLoop ::
  "codec \<Rightarrow> (string \<Rightarrow> CompiledMapping option) \<Rightarrow> (string \<Rightarrow> json option) \<Rightarrow> string list \<Rightarrow> (string \<times> dyn) list \<Rightarrow>
     payload_error + (string \<times> dyn) list" where
  "jsonObjectLoop co leaves obj [] out = Inr out"
| "jsonObjectLoop co leaves obj (key # keys) out =
     (case leaves key of
        None \<Rightarrow> rejectf ReasonBadObject
      | Some leaf \<Rightarrow>
          bindR (decodeJSONValue co (the (obj key)) (cm_ValueType leaf)) (\<lambda>val.
            jsonObjectLoop co leaves obj keys (out @ [(key, val)])))"

definition decodeJSONObject :: "codec \<Rightarrow> json \<Rightarrow> (string \<Rightarrow> CompiledMapping option) \<Rightarrow> payload_error + dyn" where
  "decodeJSONObject co raw leaves =
    (case raw of
       JObject ms \<Rightarrow>
         (if ms = [] then rejectf ReasonBadObject
          else asValue AMap (jsonObjectLoop co leaves (object_map ms) (remdups (map fst ms)) []))
     | _ \<Rightarrow> rejectf ReasonBadObject)"

section \<open>The facade\<close>

definition limit :: "int \<Rightarrow> int" where
  "limit maxSize = (if maxSize > 0 then maxSize else DefaultMaxSize)"

definition gate :: "int \<Rightarrow> byte list \<Rightarrow> payload_error + Format" where
  "gate maxSize p =
    (if int (length p) > limit maxSize then rejectf ReasonTooLarge
     else if DetectFormat p = FormatInvalid then rejectf ReasonUnknownFormat
     else Inr (DetectFormat p))"

definition finishDecode :: "dyn \<Rightarrow> int option \<Rightarrow> Format \<Rightarrow> bool \<Rightarrow> payload_error + DecodedPayload" where
  "finishDecode val ts f explicit =
    (if explicit \<and> ts = None then rejectf ReasonBadTimestamp
     else Inr \<lparr>dp_Value = val, dp_Timestamp = (if explicit then ts else None), dp_Format = f\<rparr>)"

definition Individual :: "codec \<Rightarrow> int \<Rightarrow> byte list \<Rightarrow> CompiledMapping option \<Rightarrow> payload_error + DecodedPayload" where
  "Individual co maxSize p mo =
    (case mo of
       None \<Rightarrow> Inl PlainError
     | Some m \<Rightarrow>
         bindR (gate maxSize p) (\<lambda>f.
           case f of
             FormatEmpty \<Rightarrow>
               (if \<not> cm_AllowUnset m then rejectf ReasonUnsetNotAllowed
                else Inr \<lparr>dp_Value = ANil, dp_Timestamp = None, dp_Format = FormatEmpty\<rparr>)
           | FormatBSON \<Rightarrow>
               bindR (decodeBSONEnvelope co p) (\<lambda>(rv, t).
                 bindR (decodeBSONValue rv (cm_ValueType m)) (\<lambda>val. finishDecode val t f (cm_ExplicitTimestamp m)))
           | FormatJSON \<Rightarrow>
               bindR (decodeJSONEnvelope co p) (\<lambda>(raw, t).
                 bindR (decodeJSONValue co raw (cm_ValueType m)) (\<lambda>val. finishDecode val t f (cm_ExplicitTimestamp m)))
           | FormatInvalid \<Rightarrow> finishDecode ANil None f (cm_ExplicitTimestamp m)))"

text \<open>keys is the order in which the map of the leaves is iterated.\<close>

definition missingRequired :: "string list \<Rightarrow> (string \<Rightarrow> CompiledMapping option) \<Rightarrow> (string \<times> dyn) list \<Rightarrow> string list" where
  "missingRequired keys leaves obj =
    filter (\<lambda>k. (case leaves k of Some leaf \<Rightarrow> cm_Required leaf | None \<Rightarrow> False) \<and> map_of obj k = None) keys"

definition objectExplicitTimestamp :: "string list \<Rightarrow> (string \<Rightarrow> CompiledMapping option) \<Rightarrow> bool" where
  "objectExplicitTimestamp keys leaves =
    (case find (\<lambda>k. leaves k \<noteq> None) keys of
       Some k \<Rightarrow> (case leaves k of Some m \<Rightarrow> cm_ExplicitTimestamp m | None \<Rightarrow> False)
     | None \<Rightarrow> False)"

definition Object ::
  "codec \<Rightarrow> int \<Rightarrow> byte list \<Rightarrow> string list \<Rightarrow> (string \<Rightarrow> CompiledMapping option) \<Rightarrow> payload_error + DecodedPayload" where
  "Object co maxSize p keys leaves =
    (if keys = [] then Inl PlainError
     else
       bindR (gate maxSize p) (\<lambda>f.
         bindR
           (case f of
              FormatEmpty \<Rightarrow> rejectf ReasonUnsetNotAllowed
            | FormatBSON \<Rightarrow>
                bindR (decodeBSONEnvelope co p) (\<lambda>(rv, t).
                  bindR (decodeBSONObject rv leaves) (\<lambda>val. Inr (val, t)))
            | FormatJSON \<Rightarrow>
                bindR (decodeJSONEnvelope co p) (\<lambda>(raw, t).
                  bindR (decodeJSONObject co raw leaves) (\<lambda>val. Inr (val, t)))
            | FormatInvalid \<Rightarrow> Inr (ANil, None))
           (\<lambda>(val, ts).
              if (case val of AMap obj \<Rightarrow> missingRequired keys leaves obj \<noteq> [] | _ \<Rightarrow> False)
              then rejectf ReasonMissingRequired
              else finishDecode val ts f (objectExplicitTimestamp keys leaves))))"

section \<open>Outbound documents\<close>

definition jsonifyInt64 :: "int64 \<Rightarrow> json" where
  "jsonifyInt64 x =
    (if sint x > maxSafeJSONInt \<or> sint x < - maxSafeJSONInt then JString (Itoa (sint x)) else JNumber (Itoa (sint x)))"

definition jsonifyScalar :: "codec \<Rightarrow> dyn \<Rightarrow> payload_error + json" where
  "jsonifyScalar co v =
    (case v of
       AFloat x \<Rightarrow> bindR (checkDouble x) (\<lambda>_. Inr (JNumber (co_formatFloat co x)))
     | AInt32 x \<Rightarrow> Inr (JNumber (Itoa (sint x)))
     | AInt64 x \<Rightarrow> Inr (jsonifyInt64 x)
     | ABool x \<Rightarrow> Inr (JBool x)
     | AString x \<Rightarrow> bindR (checkString x) (\<lambda>_. Inr (JString x))
     | ABytes x \<Rightarrow> Inr (JString (stdEncode x))
     | ATime x \<Rightarrow> bindR (checkDateTime x) (\<lambda>t. Inr (JString (co_formatTime co t)))
     | _ \<Rightarrow> rejectf ReasonTypeMismatch)"

fun jsonifyAll :: "codec \<Rightarrow> dyn list \<Rightarrow> payload_error + json list" where
  "jsonifyAll co [] = Inr []"
| "jsonifyAll co (e # es) = bindR (jsonifyScalar co e) (\<lambda>j. bindR (jsonifyAll co es) (\<lambda>js. Inr (j # js)))"

definition jsonifySlice :: "codec \<Rightarrow> dyn list \<Rightarrow> payload_error + json" where
  "jsonifySlice co xs =
    (if length xs > MaxArrayLen then rejectf ReasonValueTooLarge
     else bindR (jsonifyAll co xs) (\<lambda>js. Inr (JArray js)))"

text \<open>The elements of a slice value.\<close>

definition sliceElems :: "dyn \<Rightarrow> dyn list option" where
  "sliceElems v =
    (case v of
       AFloats x \<Rightarrow> Some (map AFloat x)
     | AInt32s x \<Rightarrow> Some (map AInt32 x)
     | AInt64s x \<Rightarrow> Some (map AInt64 x)
     | ABools x \<Rightarrow> Some (map ABool x)
     | AStrings x \<Rightarrow> Some (map AString x)
     | ABytess x \<Rightarrow> Some (map ABytes x)
     | ATimes x \<Rightarrow> Some (map ATime x)
     | _ \<Rightarrow> None)"

definition jsonifyField :: "codec \<Rightarrow> dyn \<Rightarrow> payload_error + json" where
  "jsonifyField co v = (case sliceElems v of Some xs \<Rightarrow> jsonifySlice co xs | None \<Rightarrow> jsonifyScalar co v)"

fun jsonifyMembers :: "codec \<Rightarrow> (string \<times> dyn) list \<Rightarrow> payload_error + (string \<times> json) list" where
  "jsonifyMembers co [] = Inr []"
| "jsonifyMembers co ((k, e) # es) =
     (case e of
        AMap _ \<Rightarrow> rejectf ReasonBadObject
      | _ \<Rightarrow> bindR (jsonifyField co e) (\<lambda>j. bindR (jsonifyMembers co es) (\<lambda>js. Inr ((k, j) # js))))"

definition jsonifyValue :: "codec \<Rightarrow> dyn \<Rightarrow> payload_error + json" where
  "jsonifyValue co v =
    (case v of
       AMap x \<Rightarrow> (if x = [] then rejectf ReasonBadObject else bindR (jsonifyMembers co x) (\<lambda>js. Inr (JObject js)))
     | _ \<Rightarrow> jsonifyField co v)"

definition encodeJSON :: "codec \<Rightarrow> dyn \<Rightarrow> int option \<Rightarrow> payload_error + byte list" where
  "encodeJSON co v ts =
    bindR (jsonifyValue co v) (\<lambda>jv.
      case ts of
        None \<Rightarrow> Inr (co_marshal co (JObject [(''v'', jv)]))
      | Some t \<Rightarrow>
          bindR (checkDateTime t) (\<lambda>t. Inr (co_marshal co (JObject [(''v'', jv), (''t'', JString (co_formatTime co t))]))))"

text \<open>The BSON writer: an element is its type byte, its key ended by NUL, and its body.\<close>

definition bytes_of :: "string \<Rightarrow> byte list" where
  "bytes_of s = map of_char s"

definition putLE32 :: "nat \<Rightarrow> byte list" where
  "putLE32 n = [of_nat n, of_nat (n div 256), of_nat (n div 65536), of_nat (n div 16777216)]"

definition putLE64 :: "64 word \<Rightarrow> byte list" where
  "putLE64 w = map (\<lambda>i. of_nat (unat w div 256 ^ i)) [0..<8]"

definition appendBSONHeader :: "byte \<Rightarrow> string \<Rightarrow> byte list" where
  "appendBSONHeader typ key = typ # bytes_of key @ [0]"

definition appendBSONMillis :: "int \<Rightarrow> byte list" where
  "appendBSONMillis ms = putLE64 (word_of_int ms)"

definition finishBSONDoc :: "byte list \<Rightarrow> payload_error + byte list" where
  "finishBSONDoc body =
    (if length body + 5 > 2147483647 then Inl PlainError else Inr (putLE32 (length body + 5) @ body @ [0]))"

definition appendBSONScalar :: "string \<Rightarrow> dyn \<Rightarrow> payload_error + byte list" where
  "appendBSONScalar key v =
    (case v of
       AFloat x \<Rightarrow> bindR (checkDouble x) (\<lambda>_. Inr (appendBSONHeader 0x01 key @ putLE64 x))
     | AInt32 x \<Rightarrow> Inr (appendBSONHeader 0x10 key @ putLE32 (unat x))
     | AInt64 x \<Rightarrow> Inr (appendBSONHeader 0x12 key @ putLE64 x)
     | ABool x \<Rightarrow> Inr (appendBSONHeader 0x08 key @ [if x then 1 else 0])
     | AString x \<Rightarrow> bindR (checkString x) (\<lambda>_. Inr (appendBSONHeader 0x02 key @ putLE32 (length x + 1) @ bytes_of x @ [0]))
     | ABytes x \<Rightarrow>
         (if length x > 2147483647 then rejectf ReasonValueTooLarge
          else Inr (appendBSONHeader 0x05 key @ putLE32 (length x) @ [0] @ x))
     | ATime x \<Rightarrow> bindR (checkDateTime x) (\<lambda>t. Inr (appendBSONHeader 0x09 key @ appendBSONMillis (t div 1000000)))
     | _ \<Rightarrow> rejectf ReasonTypeMismatch)"

fun appendBSONElems :: "nat \<Rightarrow> dyn list \<Rightarrow> payload_error + byte list" where
  "appendBSONElems i [] = Inr []"
| "appendBSONElems i (e # es) =
     bindR (appendBSONScalar (Itoa (int i)) e) (\<lambda>b. bindR (appendBSONElems (i + 1) es) (\<lambda>bs. Inr (b @ bs)))"

definition appendBSONSlice :: "string \<Rightarrow> dyn list \<Rightarrow> payload_error + byte list" where
  "appendBSONSlice key xs =
    (if length xs > MaxArrayLen then rejectf ReasonValueTooLarge
     else bindR (appendBSONElems 0 xs) (\<lambda>body. bindR (finishBSONDoc body) (\<lambda>doc. Inr (appendBSONHeader 0x04 key @ doc))))"

definition appendBSONField :: "string \<Rightarrow> dyn \<Rightarrow> payload_error + byte list" where
  "appendBSONField key v = (case sliceElems v of Some xs \<Rightarrow> appendBSONSlice key xs | None \<Rightarrow> appendBSONScalar key v)"

fun appendBSONMembers :: "(string \<times> dyn) list \<Rightarrow> payload_error + byte list" where
  "appendBSONMembers [] = Inr []"
| "appendBSONMembers ((k, e) # es) =
     (if k = [] \<or> CHR 0x00 \<in> set k then rejectf ReasonBadObject
      else
        (case e of
           AMap _ \<Rightarrow> rejectf ReasonBadObject
         | _ \<Rightarrow> bindR (appendBSONField k e) (\<lambda>b. bindR (appendBSONMembers es) (\<lambda>bs. Inr (b @ bs)))))"

definition appendBSONObject :: "string \<Rightarrow> (string \<times> dyn) list \<Rightarrow> payload_error + byte list" where
  "appendBSONObject key obj =
    (if obj = [] then rejectf ReasonBadObject
     else
       bindR (appendBSONMembers (sort_key fst obj)) (\<lambda>body.
         bindR (finishBSONDoc body) (\<lambda>doc. Inr (appendBSONHeader 0x03 key @ doc))))"

definition appendBSONElement :: "string \<Rightarrow> dyn \<Rightarrow> payload_error + byte list" where
  "appendBSONElement key v = (case v of AMap obj \<Rightarrow> appendBSONObject key obj | _ \<Rightarrow> appendBSONField key v)"

definition encodeBSON :: "dyn \<Rightarrow> int option \<Rightarrow> payload_error + byte list" where
  "encodeBSON v ts =
    bindR (appendBSONElement ''v'' v) (\<lambda>b.
      case ts of
        None \<Rightarrow> finishBSONDoc b
      | Some t \<Rightarrow>
          bindR (checkDateTime t) (\<lambda>t. finishBSONDoc (b @ appendBSONHeader 0x09 ''t'' @ appendBSONMillis (t div 1000000))))"

definition Encode :: "codec \<Rightarrow> dyn \<Rightarrow> int option \<Rightarrow> Format \<Rightarrow> payload_error + byte list" where
  "Encode co v ts f =
    (case f of
       FormatEmpty \<Rightarrow> (if v \<noteq> ANil \<or> ts \<noteq> None then Inl PlainError else Inr [])
     | FormatBSON \<Rightarrow> (if v = ANil then Inl PlainError else encodeBSON v ts)
     | FormatJSON \<Rightarrow> (if v = ANil then Inl PlainError else encodeJSON co v ts)
     | FormatInvalid \<Rightarrow> Inl PlainError)"

section \<open>Decoded values have the declared type\<close>

lemma double_ok_magnitude: "double_ok f \<longleftrightarrow> f64_magnitude f < 2047 * 2 ^ 52"
  by (auto simp: double_ok_def IsNaN_def IsInf_def)

lemma f64_int_finite: "f64_int f = Some j \<Longrightarrow> double_ok f"
proof -
  assume "f64_int f = Some j"
  then have "f64_exponent f \<noteq> 2047" by (auto simp: f64_int_def Let_def split: if_splits)
  moreover have "f64_exponent f < 2048"
    unfolding f64_exponent_def f64_magnitude_def by (rule less_mult_imp_div_less) simp
  ultimately have "f64_magnitude f div 2 ^ 52 < 2047" by (simp add: f64_exponent_def)
  then show "double_ok f" unfolding double_ok_magnitude by (simp add: div_less_iff_less_mult)
qed

lemma f64_of_int32_finite: "double_ok (f64_of_int (sint (i :: 32 word)))"
proof -
  have "\<bar>sint i\<bar> \<le> 2 ^ 31" using sint_greater_eq [of i] sint_lt [of i] by simp
  then have b: "\<bar>sint i\<bar> < 2 ^ 53" by simp
  have "nat \<bar>sint i\<bar> < 2 ^ 53" using b by (simp add: nat_less_iff)
  then show ?thesis unfolding double_ok_magnitude f64_of_int_parts(2) [OF b] by (rule f64_of_nat_bound)
qed

lemma asValue_Inr: "asValue wrap r = Inr v \<longleftrightarrow> (\<exists>a. r = Inr a \<and> v = wrap a)"
  by (auto simp: asValue_def bindR_Inr_iff)

lemma decodeBSONScalar_typed: "decodeBSONScalar rv vt = Inr v \<Longrightarrow> has_type vt v"
  by (auto simp: decodeBSONScalar_def has_type_def asValue_Inr f64_of_int32_finite f64_int_finite
        doubleFromInt64_def Let_def checkString_ok checkDouble_ok
      dest: dateTimeFromMillis_ok split: ValueType.splits bson.splits option.splits if_splits)

lemma decodeJSONDateTime_ok: "decodeJSONDateTime co raw = Inr t \<Longrightarrow> time_ok t"
  by (auto simp: decodeJSONDateTime_def bindR_Inr_iff dest: checkDateTime_ok dateTimeFromMillis_ok
      split: json.splits option.splits sum.splits)

lemma decodeJSONScalar_typed: "decodeJSONScalar co raw vt = Inr v \<Longrightarrow> has_type vt v"
  by (auto simp: decodeJSONScalar_def has_type_def asValue_Inr bindR_Inr_iff checkString_ok checkDouble_ok
      dest: decodeJSONDateTime_ok split: ValueType.splits json.splits option.splits if_splits parsedInt.splits)

lemma decodeArray_map:
  assumes "IsArray vt" "\<And>x v. f x = Inr v \<Longrightarrow> has_type (Elem vt) v" "decodeArray vt (map f xs) = Inr w"
  shows "has_type vt w"
proof (rule decodeArray_typed [OF assms(1) _ assms(3)])
  fix v assume "Inr v \<in> set (map f xs)"
  then obtain x where "f x = Inr v" by auto
  then show "has_type (Elem vt) v" by (rule assms(2))
qed

lemma decodeBSONValue_typed: "decodeBSONValue rv vt = Inr v \<Longrightarrow> has_type vt v"
  using decodeArray_map [of vt "\<lambda>v. decodeBSONScalar v (Elem vt)"] decodeBSONScalar_typed
  by (auto simp: decodeBSONValue_def split: if_splits bson.splits)

lemma decodeJSONValue_typed: "decodeJSONValue co raw vt = Inr v \<Longrightarrow> has_type vt v"
  using decodeArray_map [of vt "\<lambda>e. decodeJSONScalar co e (Elem vt)"] decodeJSONScalar_typed
  by (auto simp: decodeJSONValue_def split: if_splits json.splits)

text \<open>No branch fails without a reject reason.\<close>

definition rejects :: "payload_error + 'a \<Rightarrow> bool" where
  "rejects r \<longleftrightarrow> (\<forall>e. r = Inl e \<longrightarrow> ReasonOf e \<noteq> None)"

lemma rejects_simps [simp]: "rejects (Inr a)" "rejects (Inl (RejectError r))"
  by (simp_all add: rejects_def)

lemma rejects_bind: "rejects r \<Longrightarrow> (\<And>a. r = Inr a \<Longrightarrow> rejects (f a)) \<Longrightarrow> rejects (bindR r f)"
  by (cases r) (auto simp: rejects_def bindR_def)

lemma rejects_asValue: "rejects r \<Longrightarrow> rejects (asValue wrap r)"
  by (auto simp: asValue_def intro: rejects_bind)

lemma rejects_coercions:
  "rejects (checkDouble f)" "rejects (doubleFromInt64 i)" "rejects (int32FromInt64 i)" "rejects (int32FromFloat64 f)"
  "rejects (checkString s)" "rejects (dateTimeFromMillis ms)" "rejects (checkDateTime ts)" "rejects (jsonInt64 num)"
  "rejects (jsonNumber raw)"
  by (auto simp: rejects_def checkDouble_def doubleFromInt64_def int32FromInt64_def int32FromFloat64_def checkString_def
      dateTimeFromMillis_def checkDateTime_def jsonInt64_def jsonNumber_def Let_def
      split: if_splits option.splits parsedInt.splits json.splits)

lemma rejects_scalars:
  "rejects (decodeBSONScalar rv vt)" "rejects (decodeJSONDateTime co raw)"
proof -
  show "rejects (decodeBSONScalar rv vt)"
    by (auto simp: decodeBSONScalar_def intro!: rejects_asValue rejects_coercions split: ValueType.split bson.split)
  show "rejects (decodeJSONDateTime co raw)"
    by (auto simp: decodeJSONDateTime_def intro!: rejects_bind rejects_coercions split: json.split option.split sum.split)
qed

lemma rejects_JSONScalar: "rejects (decodeJSONScalar co raw vt)"
  by (auto simp: decodeJSONScalar_def intro!: rejects_bind rejects_asValue rejects_coercions rejects_scalars
      split: ValueType.split json.split option.split parsedInt.split)

lemma rejects_collect:
  assumes "\<And>x. rejects (f x)" "\<And>x v. f x = Inr v \<Longrightarrow> unwrap v \<noteq> None"
  shows "rejects (collectArray unwrap (map f xs))"
proof -
  have "rejects (collectElems unwrap (map f xs))"
    by (induction xs) (auto intro!: rejects_bind assms(1) dest: assms(2) split: option.split)
  then show ?thesis by (simp add: collectArray_def)
qed

lemma rejects_decodeArray:
  assumes "IsArray vt" "\<And>x. rejects (f x)" "\<And>x v. f x = Inr v \<Longrightarrow> has_type (Elem vt) v"
  shows "rejects (decodeArray vt (map f xs))"
  using assms(1) unfolding IsArray_cases
  by (elim insertE emptyE; simp add: decodeArray_def;
      intro rejects_asValue rejects_collect assms(2) has_type_unwrap; use assms(3) in fastforce)

lemma rejects_values: "rejects (decodeBSONValue rv vt)" "rejects (decodeJSONValue co raw vt)"
proof -
  show "rejects (decodeBSONValue rv vt)"
    using rejects_decodeArray [of vt "\<lambda>v. decodeBSONScalar v (Elem vt)"] decodeBSONScalar_typed rejects_scalars(1)
    by (auto simp: decodeBSONValue_def split: bson.split)
  show "rejects (decodeJSONValue co raw vt)"
    using rejects_decodeArray [of vt "\<lambda>e. decodeJSONScalar co e (Elem vt)"] decodeJSONScalar_typed rejects_JSONScalar
    by (auto simp: decodeJSONValue_def split: json.split)
qed

lemma decodeBSONEnvelope_ok:
  "rejects (decodeBSONEnvelope co p)" "decodeBSONEnvelope co p = Inr (v, t) \<Longrightarrow> pred_option time_ok t"
  by (auto simp: decodeBSONEnvelope_def bindR_Inr_iff intro!: rejects_bind rejects_coercions dest: dateTimeFromMillis_ok
      split: if_splits option.splits bson.splits)

lemma parseJSONTimestamp_ok:
  "rejects (parseJSONTimestamp co raw)" "parseJSONTimestamp co raw = Inr t \<Longrightarrow> time_ok t"
  using rejects_scalars(2) [of co raw] decodeJSONDateTime_ok [of co raw t]
  by (auto simp: parseJSONTimestamp_def rejects_def split: sum.splits payload_error.splits)

lemma decodeJSONEnvelope_ok:
  "rejects (decodeJSONEnvelope co p)" "decodeJSONEnvelope co p = Inr (v, t) \<Longrightarrow> pred_option time_ok t"
  by (auto simp: decodeJSONEnvelope_def bindR_Inr_iff intro!: rejects_bind parseJSONTimestamp_ok(1) dest: parseJSONTimestamp_ok(2)
      split: option.splits json.splits)

lemma finishDecode_ok:
  "rejects (finishDecode val ts f explicit)"
  "finishDecode val ts f explicit = Inr dp \<Longrightarrow> pred_option time_ok ts \<Longrightarrow>
     dp_Value dp = val \<and> dp_Format dp = f \<and> (dp_Timestamp dp \<noteq> None \<longleftrightarrow> explicit) \<and> pred_option time_ok (dp_Timestamp dp)"
  by (auto simp: finishDecode_def rejects_def split: if_splits)

lemma gate_ok:
  "rejects (gate n p)"
  "gate n p = Inr f \<longleftrightarrow> f = DetectFormat p \<and> DetectFormat p \<noteq> FormatInvalid \<and> int (length p) \<le> limit n"
  by (auto simp: gate_def rejects_def)

lemma sniffJSON_formats: "sniffJSON p = FormatInvalid \<or> sniffJSON p = FormatJSON"
  by (induction p) auto

lemma DetectFormat_empty: "DetectFormat p = FormatEmpty \<longleftrightarrow> p = []"
  using sniffJSON_formats [of p] by (auto simp: DetectFormat_def)

section \<open>Properties\<close>

text \<open>C7. Decoding an individual payload: whatever the bytes, every failure carries a reject reason;
  an accepted payload is within the size cap and is either empty, on a mapping that allows unset, or
  a BSON or JSON document whose value has the declared type with all its limits (finite doubles,
  valid UTF-8 of bounded length, arrays of bounded length, times in the accepted window at
  millisecond precision), with a timestamp exactly when the mapping asks for one.\<close>

theorem individual_payload_typed:
  "case Individual co maxSize p (Some m) of
     Inl e \<Rightarrow> ReasonOf e \<noteq> None
   | Inr dp \<Rightarrow>
       int (length p) \<le> limit maxSize \<and>
       (if p = [] then cm_AllowUnset m \<and> dp = \<lparr>dp_Value = ANil, dp_Timestamp = None, dp_Format = FormatEmpty\<rparr>
        else dp_Format dp = DetectFormat p \<and> dp_Format dp \<in> {FormatBSON, FormatJSON} \<and>
          has_type (cm_ValueType m) (dp_Value dp) \<and>
          (dp_Timestamp dp \<noteq> None \<longleftrightarrow> cm_ExplicitTimestamp m) \<and> pred_option time_ok (dp_Timestamp dp))"
proof (cases "Individual co maxSize p (Some m)")
  case (Inl e)
  have "rejects (Individual co maxSize p (Some m))"
    by (auto simp: Individual_def gate_ok(2)
        intro!: rejects_bind gate_ok(1) decodeBSONEnvelope_ok(1) decodeJSONEnvelope_ok(1) rejects_values finishDecode_ok(1)
        split: Format.split)
  with Inl show ?thesis by (simp add: rejects_def)
next
  case (Inr dp)
  then obtain f where g: "f = DetectFormat p" "f \<noteq> FormatInvalid" "int (length p) \<le> limit maxSize"
    and r: "(case f of
             FormatEmpty \<Rightarrow>
               (if \<not> cm_AllowUnset m then rejectf ReasonUnsetNotAllowed
                else Inr \<lparr>dp_Value = ANil, dp_Timestamp = None, dp_Format = FormatEmpty\<rparr>)
           | FormatBSON \<Rightarrow>
               bindR (decodeBSONEnvelope co p) (\<lambda>(rv, t).
                 bindR (decodeBSONValue rv (cm_ValueType m)) (\<lambda>val. finishDecode val t f (cm_ExplicitTimestamp m)))
           | FormatJSON \<Rightarrow>
               bindR (decodeJSONEnvelope co p) (\<lambda>(raw, t).
                 bindR (decodeJSONValue co raw (cm_ValueType m)) (\<lambda>val. finishDecode val t f (cm_ExplicitTimestamp m)))
           | FormatInvalid \<Rightarrow> finishDecode ANil None f (cm_ExplicitTimestamp m)) = Inr dp"
    by (auto simp: Individual_def bindR_Inr_iff gate_ok(2))
  have "int (length p) \<le> limit maxSize \<and>
       (if p = [] then cm_AllowUnset m \<and> dp = \<lparr>dp_Value = ANil, dp_Timestamp = None, dp_Format = FormatEmpty\<rparr>
        else dp_Format dp = DetectFormat p \<and> dp_Format dp \<in> {FormatBSON, FormatJSON} \<and>
          has_type (cm_ValueType m) (dp_Value dp) \<and>
          (dp_Timestamp dp \<noteq> None \<longleftrightarrow> cm_ExplicitTimestamp m) \<and> pred_option time_ok (dp_Timestamp dp))"
  proof (cases f)
    case FormatEmpty
    with r g show ?thesis using DetectFormat_empty [of p] by (auto split: if_splits)
  next
    case FormatBSON
    with r obtain rv t val where e: "decodeBSONEnvelope co p = Inr (rv, t)" "decodeBSONValue rv (cm_ValueType m) = Inr val"
      "finishDecode val t f (cm_ExplicitTimestamp m) = Inr dp" by (auto simp: bindR_Inr_iff)
    from finishDecode_ok(2) [OF e(3) decodeBSONEnvelope_ok(2) [OF e(1)]] decodeBSONValue_typed [OF e(2)] FormatBSON g
    show ?thesis using DetectFormat_empty [of p] by auto
  next
    case FormatJSON
    with r obtain raw t val where e: "decodeJSONEnvelope co p = Inr (raw, t)" "decodeJSONValue co raw (cm_ValueType m) = Inr val"
      "finishDecode val t f (cm_ExplicitTimestamp m) = Inr dp" by (auto simp: bindR_Inr_iff)
    from finishDecode_ok(2) [OF e(3) decodeJSONEnvelope_ok(2) [OF e(1)]] decodeJSONValue_typed [OF e(2)] FormatJSON g
    show ?thesis using DetectFormat_empty [of p] by auto
  qed (use g in auto)
  then show ?thesis unfolding Inr sum.case .
qed

text \<open>What the loops over the members of an object produce.\<close>

definition object_ok :: "(string \<Rightarrow> CompiledMapping option) \<Rightarrow> (string \<times> dyn) list \<Rightarrow> bool" where
  "object_ok leaves obj \<longleftrightarrow>
    distinct (map fst obj) \<and> list_all (\<lambda>(k, v). case leaves k of Some leaf \<Rightarrow> has_type (cm_ValueType leaf) v | None \<Rightarrow> False) obj"

lemma object_ok_snoc:
  "object_ok leaves out \<Longrightarrow> leaves key = Some leaf \<Longrightarrow> has_type (cm_ValueType leaf) val \<Longrightarrow> key \<notin> fst ` set out \<Longrightarrow>
     object_ok leaves (out @ [(key, val)])"
  by (auto simp: object_ok_def)

lemma bsonObjectLoop_ok:
  "rejects (bsonObjectLoop leaves elems out)"
  "object_ok leaves out \<Longrightarrow> bsonObjectLoop leaves elems out = Inr obj \<Longrightarrow>
     object_ok leaves obj \<and> length obj = length out + length elems"
proof -
  show "rejects (bsonObjectLoop leaves elems out)"
    by (induction leaves elems out rule: bsonObjectLoop.induct)
      (auto intro!: rejects_bind rejects_values split: option.split)
  show "object_ok leaves out \<Longrightarrow> bsonObjectLoop leaves elems out = Inr obj \<Longrightarrow>
      object_ok leaves obj \<and> length obj = length out + length elems"
  proof (induction leaves elems out rule: bsonObjectLoop.induct)
    case (2 leaves key ev elems out)
    from "2.prems"(2) obtain leaf val where l: "leaves key = Some leaf" "map_of out key = None"
      "decodeBSONValue ev (cm_ValueType leaf) = Inr val" "bsonObjectLoop leaves elems (out @ [(key, val)]) = Inr obj"
      by (auto simp: bindR_Inr_iff split: option.splits if_splits)
    have "object_ok leaves (out @ [(key, val)])"
      by (rule object_ok_snoc [OF "2.prems"(1) l(1) decodeBSONValue_typed [OF l(3)]]) (use l(2) in \<open>simp add: map_of_eq_None_iff\<close>)
    with "2.IH" [OF l(1) _ l(3)] l(2,4) show ?case by auto
  qed auto
qed

lemma jsonObjectLoop_ok:
  "rejects (jsonObjectLoop co leaves obj keys out)"
  "object_ok leaves out \<Longrightarrow> distinct keys \<Longrightarrow> set keys \<inter> fst ` set out = {} \<Longrightarrow>
     jsonObjectLoop co leaves obj keys out = Inr res \<Longrightarrow> object_ok leaves res \<and> length res = length out + length keys"
proof -
  show "rejects (jsonObjectLoop co leaves obj keys out)"
    by (induction co leaves obj keys out rule: jsonObjectLoop.induct)
      (auto intro!: rejects_bind rejects_values split: option.split)
  show "object_ok leaves out \<Longrightarrow> distinct keys \<Longrightarrow> set keys \<inter> fst ` set out = {} \<Longrightarrow>
      jsonObjectLoop co leaves obj keys out = Inr res \<Longrightarrow> object_ok leaves res \<and> length res = length out + length keys"
  proof (induction co leaves obj keys out rule: jsonObjectLoop.induct)
    case (2 co leaves obj key keys out)
    from "2.prems"(4) obtain leaf val where l: "leaves key = Some leaf"
      "decodeJSONValue co (the (obj key)) (cm_ValueType leaf) = Inr val"
      "jsonObjectLoop co leaves obj keys (out @ [(key, val)]) = Inr res"
      by (auto simp: bindR_Inr_iff split: option.splits)
    have "object_ok leaves (out @ [(key, val)])"
      by (rule object_ok_snoc [OF "2.prems"(1) l(1) decodeJSONValue_typed [OF l(2)]]) (use "2.prems"(3) in auto)
    with "2.IH" [OF l(1,2)] l(3) "2.prems"(2,3) show ?case by auto
  qed auto
qed

lemma decodeObject_ok:
  "rejects (decodeBSONObject rv leaves)"
  "decodeBSONObject rv leaves = Inr val \<Longrightarrow> \<exists>obj. val = AMap obj \<and> obj \<noteq> [] \<and> object_ok leaves obj"
  "rejects (decodeJSONObject co raw leaves)"
  "decodeJSONObject co raw leaves = Inr val \<Longrightarrow> \<exists>obj. val = AMap obj \<and> obj \<noteq> [] \<and> object_ok leaves obj"
proof -
  have start: "object_ok leaves []" by (simp add: object_ok_def)
  show "rejects (decodeBSONObject rv leaves)"
    by (auto simp: decodeBSONObject_def intro!: rejects_asValue bsonObjectLoop_ok(1) split: bson.split)
  show "decodeBSONObject rv leaves = Inr val \<Longrightarrow> \<exists>obj. val = AMap obj \<and> obj \<noteq> [] \<and> object_ok leaves obj"
    using bsonObjectLoop_ok(2) [OF start] by (fastforce simp: decodeBSONObject_def asValue_Inr split: bson.splits if_splits)
  show "rejects (decodeJSONObject co raw leaves)"
    by (auto simp: decodeJSONObject_def intro!: rejects_asValue jsonObjectLoop_ok(1) split: json.split)
  assume "decodeJSONObject co raw leaves = Inr val"
  then obtain ms obj where o: "ms \<noteq> []" "jsonObjectLoop co leaves (object_map ms) (remdups (map fst ms)) [] = Inr obj" "val = AMap obj"
    by (auto simp: decodeJSONObject_def asValue_Inr split: json.splits if_splits)
  from jsonObjectLoop_ok(2) [OF start _ _ o(2)] have "object_ok leaves obj" "length obj = length (remdups (map fst ms))" by auto
  with o show "\<exists>obj. val = AMap obj \<and> obj \<noteq> [] \<and> object_ok leaves obj" by (cases obj) auto
qed

text \<open>C17. Decoding an object-aggregated payload: every failure carries a reject reason; an accepted
  document is not empty, has each key once, every key is a leaf of the interface with a value of
  that leaf's type, no required leaf is missing, and a timestamp is present exactly when the leaves
  ask for one.\<close>

theorem object_payload_typed:
  assumes "set keys = dom leaves" "keys \<noteq> []"
  shows "case Object co maxSize p keys leaves of
     Inl e \<Rightarrow> ReasonOf e \<noteq> None
   | Inr dp \<Rightarrow> \<exists>obj. dp_Value dp = AMap obj \<and> obj \<noteq> [] \<and> object_ok leaves obj \<and>
       (\<forall>k leaf. leaves k = Some leaf \<longrightarrow> cm_Required leaf \<longrightarrow> k \<in> fst ` set obj) \<and>
       (dp_Timestamp dp \<noteq> None \<longleftrightarrow> objectExplicitTimestamp keys leaves) \<and> pred_option time_ok (dp_Timestamp dp)"
proof (cases "Object co maxSize p keys leaves")
  case (Inl e)
  have "rejects (Object co maxSize p keys leaves)"
    using assms(2) by (auto simp: Object_def
        intro!: rejects_bind gate_ok(1) decodeBSONEnvelope_ok(1) decodeJSONEnvelope_ok(1) decodeObject_ok(1,3) finishDecode_ok(1)
        split: Format.split)
  with Inl show ?thesis by (simp add: rejects_def)
next
  case (Inr dp)
  then obtain val ts f where r: "f \<noteq> FormatInvalid" "f \<noteq> FormatEmpty" "f = FormatBSON \<Longrightarrow> \<exists>rv. decodeBSONEnvelope co p = Inr (rv, ts) \<and> decodeBSONObject rv leaves = Inr val"
      "f = FormatJSON \<Longrightarrow> \<exists>raw. decodeJSONEnvelope co p = Inr (raw, ts) \<and> decodeJSONObject co raw leaves = Inr val"
    and nm: "\<not> (case val of AMap obj \<Rightarrow> missingRequired keys leaves obj \<noteq> [] | _ \<Rightarrow> False)"
    and fin: "finishDecode val ts f (objectExplicitTimestamp keys leaves) = Inr dp"
    using assms(2) unfolding Object_def
    by (cases "DetectFormat p") (auto simp: bindR_Inr_iff gate_ok(2) split: if_splits)
  have t: "pred_option time_ok ts" using r decodeBSONEnvelope_ok(2) decodeJSONEnvelope_ok(2) by (cases f) blast+
  obtain obj where obj: "val = AMap obj" "obj \<noteq> []" "object_ok leaves obj"
    using r decodeObject_ok(2,4) by (cases f) blast+
  have "k \<in> fst ` set obj" if "leaves k = Some leaf" "cm_Required leaf" for k leaf
  proof (rule ccontr)
    assume "k \<notin> fst ` set obj"
    then have "k \<in> set (missingRequired keys leaves obj)"
      using that assms(1) by (auto simp: missingRequired_def map_of_eq_None_iff)
    then show False using nm by (simp add: obj(1))
  qed
  with finishDecode_ok(2) [OF fin t] obj show ?thesis unfolding Inr sum.case by blast
qed

definition objectLeaf :: "ValueType \<Rightarrow> CompiledMapping" where
  "objectLeaf vt =
    \<lparr>cm_EndpointID = 1, cm_ValueType = vt, cm_Reliability = 1, cm_Retention = RetentionDiscard, cm_Expiry = 0,
     cm_ExplicitTimestamp = False, cm_AllowUnset = False, cm_DBRetentionTTL = 0, cm_Required = True, cm_Encrypted = False\<rparr>"

definition sampleCodec :: codec where
  "sampleCodec =
    \<lparr>co_json = (\<lambda>_. Some (JObject [(''v'', JObject [(''x'', JNumber ''5'')])])), co_marshal = (\<lambda>_. [0x7B, 0x7D]),
     co_bson = (\<lambda>_. None), co_parseTime = (\<lambda>_. None), co_formatTime = (\<lambda>_. []), co_formatFloat = (\<lambda>_. [])\<rparr>"

theorem object_payload_typed_witness:
  "case Object sampleCodec 0 [0x7B, 0x7D] [''x''] [''x'' \<mapsto> objectLeaf Integer] of
     Inl e \<Rightarrow> False
   | Inr dp \<Rightarrow> \<exists>obj. dp_Value dp = AMap obj \<and> ''x'' \<in> fst ` set obj"
proof -
  have d: "set [''x''] = dom [''x'' \<mapsto> objectLeaf Integer]" "[''x''] \<noteq> []" by auto
  have "is_ok (Object sampleCodec 0 [0x7B, 0x7D] [''x''] [''x'' \<mapsto> objectLeaf Integer])" by code_simp
  then obtain dp where r: "Object sampleCodec 0 [0x7B, 0x7D] [''x''] [''x'' \<mapsto> objectLeaf Integer] = Inr dp"
    by (auto simp: is_ok_ex)
  have "cm_Required (objectLeaf Integer)" by (simp add: objectLeaf_def)
  with object_payload_typed [OF d, of sampleCodec 0 "[0x7B, 0x7D]"] show ?thesis unfolding r sum.case by force
qed

section \<open>What the server sends\<close>

lemma le32_put: "n < 2 ^ 32 \<Longrightarrow> le32 (putLE32 n @ r) = n"
proof -
  assume n: "n < 2 ^ 32"
  have b: "unat (of_nat k :: byte) = k mod 256" for k by (simp add: unsigned_of_nat take_bit_eq_mod)
  have "n div 16777216 < 256" using n by (simp add: div_less_iff_less_mult)
  then have top: "n div 16777216 mod 256 = n div 16777216" by simp
  have "n div 65536 = n div 256 div 256" "n div 16777216 = n div 65536 div 256" by (simp_all flip: div_mult2_eq)
  then have "n = n mod 256 + 256 * (n div 256 mod 256) + 65536 * (n div 65536 mod 256) + 16777216 * (n div 16777216)"
    using mult_div_mod_eq [of 256 n] mult_div_mod_eq [of 256 "n div 256"] mult_div_mod_eq [of 256 "n div 65536"] by linarith
  then show ?thesis unfolding le32_def putLE32_def by (simp add: b top)
qed

lemma finishBSONDoc_detected: "finishBSONDoc body = Inr p \<Longrightarrow> DetectFormat p = FormatBSON"
proof -
  assume "finishBSONDoc body = Inr p"
  then have l: "length body + 5 \<le> 2147483647" and p: "p = putLE32 (length body + 5) @ body @ [0]"
    by (auto simp: finishBSONDoc_def split: if_splits)
  have len: "length p = length body + 5" by (simp add: p putLE32_def)
  have "take 4 p = putLE32 (length body + 5) @ []" by (simp add: p putLE32_def)
  then have "le32 (take 4 p) = length p" using le32_put [of "length body + 5" "[]"] l len by simp
  moreover have "last p = 0" "p \<noteq> []" by (simp_all add: p putLE32_def)
  ultimately show ?thesis using l len by (simp add: DetectFormat_def)
qed

text \<open>C40. What Encode produces is recognised for what it is: the detected format of an encoded
  payload is the requested one, for every value and timestamp that encodes.\<close>

theorem encoded_payload_detected:
  assumes braces: "\<And>ms. \<exists>body. co_marshal co (JObject ms) = 0x7B # body @ [0x7D]"
    and enc: "Encode co v ts f = Inr p"
  shows "DetectFormat p = f"
proof (cases f)
  case FormatBSON
  with enc show ?thesis
    by (auto simp: Encode_def encodeBSON_def bindR_Inr_iff dest: finishBSONDoc_detected split: if_splits option.splits)
next
  case FormatJSON
  with enc obtain ms where "p = co_marshal co (JObject ms)"
    by (auto simp: Encode_def encodeJSON_def bindR_Inr_iff split: if_splits option.splits)
  with braces [of ms] FormatJSON show ?thesis by (auto simp: DetectFormat_def)
qed (use enc in \<open>auto simp: Encode_def DetectFormat_def split: if_splits\<close>)

theorem encoded_payload_detected_witness:
  "\<exists>p. Encode sampleCodec (AInt32 5) None FormatBSON = Inr p \<and> DetectFormat p = FormatBSON"
proof -
  have t: "\<And>ms. \<exists>body. co_marshal sampleCodec (JObject ms) = 0x7B # body @ [0x7D]" by (simp add: sampleCodec_def)
  have "is_ok (Encode sampleCodec (AInt32 5) None FormatBSON)" by code_simp
  then obtain p where "Encode sampleCodec (AInt32 5) None FormatBSON = Inr p" by (auto simp: is_ok_ex)
  with encoded_payload_detected [OF t] show ?thesis by blast
qed

section \<open>Round trip through the JSON profile\<close>

text \<open>The floats and times in a value, whose texts have to read back.\<close>

definition valueFloats :: "dyn \<Rightarrow> float64 list" where
  "valueFloats v = (case v of AFloat f \<Rightarrow> [f] | AFloats fs \<Rightarrow> fs | _ \<Rightarrow> [])"

definition valueTimes :: "dyn \<Rightarrow> int list" where
  "valueTimes v = (case v of ATime t \<Rightarrow> [t] | ATimes ts \<Rightarrow> ts | _ \<Rightarrow> [])"

definition timestamps :: "int option \<Rightarrow> int list" where
  "timestamps ts = (case ts of None \<Rightarrow> [] | Some t \<Rightarrow> [t])"

definition texts_ok :: "codec \<Rightarrow> float64 list \<Rightarrow> int list \<Rightarrow> bool" where
  "texts_ok co fs ts \<longleftrightarrow>
    list_all (\<lambda>f. ParseFloat (co_formatFloat co f) = Some f) fs \<and>
    list_all (\<lambda>t. co_parseTime co (co_formatTime co t) = Some t) ts"

text \<open>One scalar of the given type reads back from its JSON form.\<close>

definition readsBack :: "codec \<Rightarrow> ValueType \<Rightarrow> dyn \<Rightarrow> bool" where
  "readsBack co vt v \<longleftrightarrow> (\<exists>j. jsonifyScalar co v = Inr j \<and> decodeJSONScalar co j vt = Inr v)"

lemma int32_int64: "int32FromInt64 (word_of_int (sint (x :: 32 word))) = Inr x"
proof -
  have b: "- (2 ^ 31) \<le> sint x" "sint x < 2 ^ 31" using sint_greater_eq [of x] sint_lt [of x] by simp_all
  have "sint (word_of_int (sint x) :: 64 word) = sint x"
    using sint_up_scast [of x, where 'b = 64] by (simp add: is_up)
  with b show ?thesis by (simp add: int32FromInt64_def)
qed

lemma sint64_range: "- (2 ^ 63) \<le> sint (x :: 64 word)" "sint (x :: 64 word) < 2 ^ 63"
  using sint_greater_eq [of x] sint_lt [of x] by simp_all

lemma readsBack_integer: "readsBack co Integer (AInt32 x)"
proof -
  have "ParseInt (Itoa (sint x)) = IntOk (sint x)"
    using sint_greater_eq [of x] sint_lt [of x] by (intro ParseInt_Itoa) simp_all
  then show ?thesis
    by (simp add: readsBack_def jsonifyScalar_def decodeJSONScalar_def jsonNumber_def jsonInt64_def asValue_def int32_int64 [simplified])
qed

lemma readsBack_longinteger: "readsBack co LongInteger (AInt64 x)"
  using ParseInt_Itoa [OF sint64_range [of x]]
  by (simp add: readsBack_def jsonifyScalar_def jsonifyInt64_def decodeJSONScalar_def jsonNumber_def jsonInt64_def asValue_def)

lemma checkDouble_id: "double_ok f \<Longrightarrow> checkDouble f = Inr f"
  by (simp add: checkDouble_ok)

lemma checkString_id: "string_ok s \<Longrightarrow> checkString s = Inr s"
  by (simp add: checkString_ok)

lemma readsBack_other:
  "double_ok f \<Longrightarrow> ParseFloat (co_formatFloat co f) = Some f \<Longrightarrow> readsBack co Double (AFloat f)"
  "readsBack co Boolean (ABool b)"
  "string_ok s \<Longrightarrow> readsBack co String (AString s)"
  "readsBack co BinaryBlob (ABytes d)"
  "time_ok t \<Longrightarrow> co_parseTime co (co_formatTime co t) = Some t \<Longrightarrow> readsBack co DateTime (ATime t)"
  by (simp_all add: readsBack_def jsonifyScalar_def decodeJSONScalar_def jsonNumber_def asValue_def checkDouble_id
      checkString_id checkDateTime_id stdDecode_Encode decodeJSONDateTime_def)

lemmas readsBack_intros = readsBack_integer readsBack_longinteger readsBack_other

lemma readsBack_scalar:
  assumes "has_type vt v" "\<not> IsArray vt" "texts_ok co (valueFloats v) (valueTimes v)"
  shows "readsBack co vt v"
  using assms
  by (cases vt; cases v)
    (simp_all add: has_type_def texts_ok_def valueFloats_def valueTimes_def IsArray_cases readsBack_intros)

lemma jsonifyAll_readsBack:
  "list_all (readsBack co et) es \<Longrightarrow> \<exists>js. jsonifyAll co es = Inr js \<and> map (\<lambda>j. decodeJSONScalar co j et) js = map Inr es"
  by (induction es) (auto simp: readsBack_def bindR_def)

lemma collectArray_map:
  "length xs \<le> MaxArrayLen \<Longrightarrow> (\<And>x. unwrap (wrap x) = Some x) \<Longrightarrow> collectArray unwrap (map (Inr \<circ> wrap) xs) = Inr xs"
  by (auto simp: collectArray_ok list_all2_map1 intro: list.rel_refl_strong)

lemma decodeArray_elems:
  assumes "has_type vt v" "IsArray vt" "sliceElems v = Some es"
  shows "decodeArray vt (map Inr es) = Inr v"
  using assms unfolding IsArray_cases
  by (elim insertE emptyE)
    (auto simp: has_type_def sliceElems_def decodeArray_def asValue_def collectArray_map bindR_def split: dyn.splits)

lemma sliceElems_array: "has_type vt v \<Longrightarrow> IsArray vt \<longleftrightarrow> sliceElems v \<noteq> None"
  by (cases vt; cases v) (auto simp: has_type_def sliceElems_def IsArray_cases)

lemma sliceElems_typed:
  assumes "has_type vt v" "sliceElems v = Some es" "texts_ok co (valueFloats v) (valueTimes v)"
  shows "list_all (readsBack co (Elem vt)) es" "length es \<le> MaxArrayLen"
proof -
  have arr: "IsArray vt" using sliceElems_array [OF assms(1)] assms(2) by simp
  have "has_type (Elem vt) e \<and> \<not> IsArray (Elem vt) \<and> texts_ok co (valueFloats e) (valueTimes e)" if "e \<in> set es" for e
    using assms arr that unfolding IsArray_cases
    by (elim insertE emptyE)
      (auto simp: has_type_def sliceElems_def texts_ok_def valueFloats_def valueTimes_def list_all_iff split: dyn.splits)
  then show "list_all (readsBack co (Elem vt)) es" using readsBack_scalar by (auto simp: list_all_iff)
  show "length es \<le> MaxArrayLen"
    using assms(1,2) by (cases vt; cases v) (auto simp: has_type_def sliceElems_def)
qed

lemma jsonify_decode:
  assumes "has_type vt v" "texts_ok co (valueFloats v) (valueTimes v)"
  shows "\<exists>j. jsonifyValue co v = Inr j \<and> decodeJSONValue co j vt = Inr v"
proof (cases "sliceElems v")
  case None
  then have na: "\<not> IsArray vt" using sliceElems_array [OF assms(1)] by simp
  from readsBack_scalar [OF assms(1) na assms(2)] obtain j where j: "jsonifyScalar co v = Inr j" "decodeJSONScalar co j vt = Inr v"
    by (auto simp: readsBack_def)
  have "j \<noteq> JNull" using j(2) by (auto simp: decodeJSONScalar_def)
  moreover have "\<not> (\<exists>x. v = AMap x)" using assms(1) by (cases vt) (auto simp: has_type_def)
  ultimately show ?thesis using j None na
    by (auto simp: jsonifyValue_def jsonifyField_def decodeJSONValue_def split: dyn.splits)
next
  case (Some es)
  then have arr: "IsArray vt" using sliceElems_array [OF assms(1)] by simp
  note es = sliceElems_typed [OF assms(1) Some assms(2)]
  from jsonifyAll_readsBack [OF es(1)] obtain js where js: "jsonifyAll co es = Inr js"
    "map (\<lambda>j. decodeJSONScalar co j (Elem vt)) js = map Inr es" by blast
  have "\<not> (\<exists>x. v = AMap x)" using Some by (auto simp: sliceElems_def)
  then have "jsonifyValue co v = Inr (JArray js)" using es(2) Some js(1)
    by (auto simp: jsonifyValue_def jsonifyField_def jsonifySlice_def split: dyn.splits)
  moreover have "decodeJSONValue co (JArray js) vt = Inr v"
    using decodeArray_elems [OF assms(1) arr Some] arr js(2) by (simp add: decodeJSONValue_def)
  ultimately show ?thesis by blast
qed

definition envelopeDoc :: "codec \<Rightarrow> json \<Rightarrow> int option \<Rightarrow> json" where
  "envelopeDoc co jv ts =
    JObject ((''v'', jv) # (case ts of None \<Rightarrow> [] | Some t \<Rightarrow> [(''t'', JString (co_formatTime co t))]))"

lemma encodeJSON_envelope:
  "jsonifyValue co v = Inr jv \<Longrightarrow> list_all time_ok (timestamps ts) \<Longrightarrow> encodeJSON co v ts = Inr (co_marshal co (envelopeDoc co jv ts))"
  by (auto simp: encodeJSON_def envelopeDoc_def checkDateTime_id timestamps_def split: option.splits)

lemma decodeJSONEnvelope_doc:
  assumes "co_json co p = Some (envelopeDoc co jv ts)" "list_all time_ok (timestamps ts)" "texts_ok co [] (timestamps ts)"
  shows "decodeJSONEnvelope co p = Inr (jv, ts)"
  using assms
  by (auto simp: decodeJSONEnvelope_def envelopeDoc_def lastMember_def parseJSONTimestamp_def decodeJSONDateTime_def
      checkDateTime_id texts_ok_def timestamps_def split: option.splits)

text \<open>C6. A value of the declared type, sent in the JSON profile and received under the same mapping, comes
  back unchanged with its timestamp: Encode accepts it, and Individual decodes the bytes of Encode to it.
  Relied upon: the JSON library reads back the one envelope it wrote, which starts and ends with a brace;
  the texts of the floats and of the times at hand parse back; the document is within the size limit.\<close>

theorem json_roundtrip:
  assumes typed: "has_type (cm_ValueType m) v"
    and stamp: "ts = None \<longleftrightarrow> \<not> cm_ExplicitTimestamp m" "list_all time_ok (timestamps ts)"
    and texts: "texts_ok co (valueFloats v) (valueTimes v @ timestamps ts)"
    and doc: "\<And>jv. jsonifyValue co v = Inr jv \<Longrightarrow>
      co_json co (co_marshal co (envelopeDoc co jv ts)) = Some (envelopeDoc co jv ts) \<and>
      (\<exists>body. co_marshal co (envelopeDoc co jv ts) = 0x7B # body @ [0x7D]) \<and>
      int (length (co_marshal co (envelopeDoc co jv ts))) \<le> limit maxSize"
  shows "bindR (Encode co v ts FormatJSON) (\<lambda>p. Individual co maxSize p (Some m)) =
    Inr \<lparr>dp_Value = v, dp_Timestamp = ts, dp_Format = FormatJSON\<rparr>"
proof -
  have tx: "texts_ok co (valueFloats v) (valueTimes v)" "texts_ok co [] (timestamps ts)"
    using texts by (auto simp: texts_ok_def)
  from jsonify_decode [OF typed tx(1)] obtain jv where
    jv: "jsonifyValue co v = Inr jv" "decodeJSONValue co jv (cm_ValueType m) = Inr v" by blast
  let ?p = "co_marshal co (envelopeDoc co jv ts)"
  note d = doc [OF jv(1)]
  have "v \<noteq> ANil" using typed by (auto simp: has_type_def split: ValueType.splits)
  then have enc: "Encode co v ts FormatJSON = Inr ?p"
    using encodeJSON_envelope [OF jv(1) stamp(2)] by (simp add: Encode_def)
  have "DetectFormat ?p = FormatJSON" using d by (auto simp: DetectFormat_def)
  then have "gate maxSize ?p = Inr FormatJSON" using d by (simp add: gate_def)
  then have "Individual co maxSize ?p (Some m) = Inr \<lparr>dp_Value = v, dp_Timestamp = ts, dp_Format = FormatJSON\<rparr>"
    using decodeJSONEnvelope_doc [OF _ stamp(2) tx(2)] d jv(2) stamp(1)
    by (auto simp: Individual_def finishDecode_def)
  then show ?thesis using enc by simp
qed

definition echoCodec :: codec where
  "echoCodec =
    \<lparr>co_json = (\<lambda>_. Some (JObject [(''v'', JNumber ''1.5''), (''t'', JString ''T'')])), co_marshal = (\<lambda>_. [0x7B, 0x7D]),
     co_bson = (\<lambda>_. None), co_parseTime = (\<lambda>_. Some 0), co_formatTime = (\<lambda>_. ''T''), co_formatFloat = (\<lambda>_. ''1.5'')\<rparr>"

definition echoMapping :: CompiledMapping where
  "echoMapping = (objectLeaf Double)\<lparr>cm_ExplicitTimestamp := True\<rparr>"

theorem json_roundtrip_witness:
  "bindR (Encode echoCodec (AFloat 0x3FF8000000000000) (Some 0) FormatJSON) (\<lambda>p. Individual echoCodec 0 p (Some echoMapping)) =
    Inr \<lparr>dp_Value = AFloat 0x3FF8000000000000, dp_Timestamp = Some 0, dp_Format = FormatJSON\<rparr>"
proof (rule json_roundtrip)
  show "has_type (cm_ValueType echoMapping) (AFloat 0x3FF8000000000000)" by code_simp
  show "Some 0 = None \<longleftrightarrow> \<not> cm_ExplicitTimestamp echoMapping" "list_all time_ok (timestamps (Some 0))" by code_simp+
  show "texts_ok echoCodec (valueFloats (AFloat 0x3FF8000000000000)) (valueTimes (AFloat 0x3FF8000000000000) @ timestamps (Some 0))"
    by code_simp
next
  fix jv assume a: "jsonifyValue echoCodec (AFloat 0x3FF8000000000000) = Inr jv"
  have "jsonifyValue echoCodec (AFloat 0x3FF8000000000000) = Inr (JNumber ''1.5'')" by code_simp
  with a have "jv = JNumber ''1.5''" by simp
  then show "co_json echoCodec (co_marshal echoCodec (envelopeDoc echoCodec jv (Some 0))) = Some (envelopeDoc echoCodec jv (Some 0)) \<and>
      (\<exists>body. co_marshal echoCodec (envelopeDoc echoCodec jv (Some 0)) = 0x7B # body @ [0x7D]) \<and>
      int (length (co_marshal echoCodec (envelopeDoc echoCodec jv (Some 0)))) \<le> limit 0"
    by (simp add: echoCodec_def envelopeDoc_def limit_def DefaultMaxSize_def)
qed

end
